(* ===== verification/Cuckoo_Prelude.thy ===== *)
theory Cuckoo_Prelude
  imports Main "HOL-Library.Word"
begin

text \<open>
  Shared vocabulary of the development: names for the C integer types, the outcome type of a
  routine that may loop or touch memory it does not own, the little list and word lemmas every
  component uses, and the two fact collections the component proofs are run with:
  \<^item> \<open>cuckoo_defs\<close>: the definitions of constants and small helpers a proof normally unfolds;
  \<^item> \<open>word_nat\<close>: the facts that move a statement about a machine word to \<open>nat\<close>.
\<close>

named_theorems cuckoo_defs "constants and helpers of the C sources, unfolded in proofs"
named_theorems word_nat "facts that read machine words as natural numbers"

unbundle bit_operations_syntax

section \<open>C integer types\<close>

type_synonym u8 = "8 word"
type_synonym u16 = "16 word"
type_synonym u32 = "32 word"
type_synonym u64 = "64 word"

section \<open>Outcomes of C code\<close>

text \<open>
  A C routine returns, never returns, or leaves the defined behaviour of the language by reading or
  writing outside the objects it owns.
\<close>

datatype 'a run = Returns 'a | Loops | Faults

definition run_bind :: "'a run \<Rightarrow> ('a \<Rightarrow> 'b run) \<Rightarrow> 'b run" where
  "run_bind r f = (case r of Returns x \<Rightarrow> f x | Loops \<Rightarrow> Loops | Faults \<Rightarrow> Faults)"

lemma run_bind_simps [simp]:
  "run_bind (Returns x) f = f x"
  "run_bind Loops f = Loops"
  "run_bind Faults f = Faults"
  by (simp_all add: run_bind_def)

lemma run_bind_Returns_iff:
  "run_bind r f = Returns y \<longleftrightarrow> (\<exists>x. r = Returns x \<and> f x = Returns y)"
  by (cases r) simp_all

section \<open>Word lemmas\<close>

lemma unat_and_mask: "unat (w AND mask n) = unat w mod 2 ^ n"
  by (metis take_bit_eq_mask take_bit_eq_mod unsigned_take_bit_eq)

lemma unat_plus_small [word_nat]:
  fixes a b :: "'a::len word"
  assumes "unat a + unat b < 2 ^ LENGTH('a)"
  shows "unat (a + b) = unat a + unat b"
  using assms by (simp add: unat_word_ariths)

lemma unat_minus_small [word_nat]:
  fixes a b :: "'a::len word"
  assumes "unat b \<le> unat a"
  shows "unat (a - b) = unat a - unat b"
  using assms by (simp add: unat_sub word_le_nat_alt)

lemma unat_lt_pow: "unat (w :: 'a::len word) < 2 ^ LENGTH('a)"
  by (rule unsigned_less)

lemma unat_eq_imp_eq: "unat a = unat b \<Longrightarrow> a = b"
  by (simp add: word_unat_eq_iff)

lemma bit_bound:
  assumes "bit (n :: nat) k" "n < 2 ^ m" shows "k < m"
proof (rule ccontr)
  assume "\<not> k < m"
  then have "(2 :: nat) ^ m \<le> 2 ^ k" by (intro power_increasing) simp_all
  with assms(2) have "n < 2 ^ k" by (rule order_less_le_trans)
  then have "n div 2 ^ k = 0" by (rule div_less)
  then show False using assms(1) by (simp add: bit_iff_odd)
qed

lemma word_bit_bound: "bit (w :: 'a::len word) n \<Longrightarrow> unat w < 2 ^ k \<Longrightarrow> n < k"
  using bit_bound [of "unat w" n k] by (simp add: bit_unsigned_iff)

text \<open>A value shifted over a small one: the \<^verbatim>\<open>(hi << k) | lo\<close> of the sources.\<close>

lemma unat_pack:
  fixes hi lo :: "'a::len word"
  assumes lo: "unat lo < 2 ^ k" and hi: "unat hi < 2 ^ (LENGTH('a) - k)" and k: "k < LENGTH('a)"
  shows "unat (push_bit k hi OR lo) = unat hi * 2 ^ k + unat lo"
proof -
  have "push_bit k hi + lo = push_bit k hi OR lo"
  proof (rule disjunctive_add)
    fix n show "\<not> bit (push_bit k hi) n \<or> \<not> bit lo n"
      using word_bit_bound [of lo n k] lo by (auto simp: bit_push_bit_iff not_le)
  qed
  moreover have "unat hi * 2 ^ k + unat lo < 2 ^ LENGTH('a)"
  proof -
    have "Suc (unat hi) * 2 ^ k \<le> 2 ^ (LENGTH('a) - k) * 2 ^ k" using hi by (intro mult_le_mono1) simp
    also have "\<dots> = 2 ^ LENGTH('a)" using k by (simp flip: power_add)
    finally show ?thesis using lo by simp
  qed
  moreover have "unat (push_bit k hi) = unat hi * 2 ^ k mod 2 ^ LENGTH('a)"
    unfolding unsigned_push_bit_eq by (simp add: push_bit_eq_mult take_bit_eq_mod)
  ultimately have "unat (push_bit k hi) = unat hi * 2 ^ k"
    and "unat (push_bit k hi) + unat lo < 2 ^ LENGTH('a)"
    and "unat (push_bit k hi OR lo) = unat (push_bit k hi + lo)" by simp_all
  then show ?thesis by (simp only: unat_plus_small)
qed

section \<open>List lemmas\<close>

lemma sorted_le_last: "sorted xs \<Longrightarrow> x \<in> set xs \<Longrightarrow> x \<le> last xs"
  by (induction xs) auto

text \<open>Overwriting \<open>bs\<close> at offset \<open>i\<close>: what a store through a pointer does to its object.\<close>

definition overwrite :: "'a list \<Rightarrow> nat \<Rightarrow> 'a list \<Rightarrow> 'a list" where
  "overwrite b i bs = take i b @ bs @ drop (i + length bs) b"

lemma length_overwrite [simp]:
  "i + length bs \<le> length b \<Longrightarrow> length (overwrite b i bs) = length b"
  by (simp add: overwrite_def)

lemma take_overwrite_before:
  "n \<le> i \<Longrightarrow> i \<le> length b \<Longrightarrow> take n (overwrite b i bs) = take n b"
  by (simp add: overwrite_def min_def)

lemma take_drop_overwrite:
  "i \<le> length b \<Longrightarrow> take (length bs) (drop i (overwrite b i bs)) = bs"
  by (simp add: overwrite_def)

lemma take_overwrite_through:
  "i \<le> length b \<Longrightarrow> take (i + length bs) (overwrite b i bs) = take i b @ bs"
  by (simp add: overwrite_def)

lemma sum_list_map_strict_mono:
  fixes f g :: "'a \<Rightarrow> nat"
  assumes "\<And>x. x \<in> set xs \<Longrightarrow> f x \<le> g x" "x \<in> set xs" "f x < g x"
  shows "sum_list (map f xs) < sum_list (map g xs)"
  using assms
proof (induction xs)
  case (Cons y ys)
  have "sum_list (map f ys) \<le> sum_list (map g ys)" by (rule sum_list_mono) (use Cons.prems(1) in simp)
  then show ?case using Cons by (cases "x = y") (auto simp: add_less_le_mono add_le_less_mono)
qed simp

end
