(* ===== verification/Serialized_Data.thy ===== *)
theory Serialized_Data
  imports Cuckoo_Prelude
begin

text \<open>
  The wire container of \<^verbatim>\<open>remote_connection_utils/serialized_data.h\<close>: a growable buffer holding
  a sequence of items, each a four-byte little-endian length (a multiple of four) followed by that
  many bytes. The buffer is a byte list whose length is the size of the allocated object, offsets
  stand for pointers into it, and an access outside of it is \<^const>\<open>Faults\<close>. The byte order of the
  host is a parameter; the allocator callbacks of \<^verbatim>\<open>MemoryManager\<close> are fields of the model.
\<close>

section \<open>Byte order\<close>

text \<open>How the host lays a \<^verbatim>\<open>uint32_t\<close> out in memory.\<close>

definition le_bytes :: "u32 \<Rightarrow> u8 list" where
  "le_bytes w = [ucast w, ucast (drop_bit 8 w), ucast (drop_bit 16 w), ucast (drop_bit 24 w)]"

definition store_u32 :: "bool \<Rightarrow> u32 \<Rightarrow> u8 list" where
  "store_u32 little w = (if little then le_bytes w else rev (le_bytes w))"

definition le_word :: "u8 list \<Rightarrow> u32" where
  "le_word bs = ucast (bs ! 0) OR push_bit 8 (ucast (bs ! 1)) OR push_bit 16 (ucast (bs ! 2))
                OR push_bit 24 (ucast (bs ! 3))"

definition load_u32 :: "bool \<Rightarrow> u8 list \<Rightarrow> u32" where
  "load_u32 little bs = (if little then le_word bs else le_word (rev bs))"

text \<open>
  \<^verbatim>\<open>SystemIsLittleEndian\<close> with its static \<^verbatim>\<open>CheckFlag\<close> passed in and out.
\<close>

definition SystemIsLittleEndian_step :: "bool \<Rightarrow> int \<Rightarrow> bool \<times> int" where
  "SystemIsLittleEndian_step little CheckFlag =
     (let CheckFlag = (if CheckFlag = 0
                       then (if hd (store_u32 little 0x01020304) = 4 then 1 else 2)
                       else CheckFlag)
      in (CheckFlag = 1, CheckFlag))"

definition SystemIsLittleEndian :: "bool \<Rightarrow> bool" where
  "SystemIsLittleEndian little = fst (SystemIsLittleEndian_step little 0)"

definition ConvertBetweenBigAndLittleEndian :: "u32 \<Rightarrow> u32" where
  "ConvertBetweenBigAndLittleEndian value =
     drop_bit 24 (value AND 0xFF000000) OR drop_bit 8 (value AND 0x00FF0000)
     OR push_bit 8 (value AND 0x0000FF00) OR push_bit 24 (value AND 0x000000FF)"

section \<open>The container\<close>

definition SERIALIZED_DATA_DEFAULT_CAPACITY :: u32 where [cuckoo_defs]:
  "SERIALIZED_DATA_DEFAULT_CAPACITY = 128"

definition SERIALIZED_DATA_ALIGNMENT :: u32 where [cuckoo_defs]:
  "SERIALIZED_DATA_ALIGNMENT = 4"

definition SERIALIZED_DATA_ALIGNMENT_MASK :: u32 where [cuckoo_defs]:
  "SERIALIZED_DATA_ALIGNMENT_MASK = SERIALIZED_DATA_ALIGNMENT - 1"

record MemoryManager =
  mm_alloc :: "nat \<Rightarrow> u8 list option"
  mm_realloc :: "u8 list \<Rightarrow> nat \<Rightarrow> u8 list option"

record SerializedData =
  sd_buffer :: "u8 list option"
  sd_size :: u32
  sd_capacity :: u32
  sd_memoryManager :: "MemoryManager option"

text \<open>
  \<^verbatim>\<open>SerializedDataInit\<close>; \<open>dflt\<close> is \<^verbatim>\<open>DefaultMemoryManager\<close>, the C library's allocator.
\<close>

definition SerializedDataInit ::
    "MemoryManager \<Rightarrow> SerializedData \<Rightarrow> u8 list option \<Rightarrow> u32 \<Rightarrow> u32 \<Rightarrow> MemoryManager option
       \<Rightarrow> bool \<times> SerializedData" where
  "SerializedDataInit dflt data buf bufferSize validBytes memoryManager =
     (case buf of
        Some b \<Rightarrow>
          if bufferSize AND SERIALIZED_DATA_ALIGNMENT_MASK \<noteq> 0
             \<or> validBytes AND SERIALIZED_DATA_ALIGNMENT_MASK \<noteq> 0
          then (False, data)
          else (True, \<lparr>sd_buffer = Some b, sd_size = validBytes, sd_capacity = bufferSize,
                       sd_memoryManager = memoryManager\<rparr>)
      | None \<Rightarrow>
          (True, \<lparr>sd_buffer = None, sd_size = 0, sd_capacity = 0,
                  sd_memoryManager =
                    (case memoryManager of Some m \<Rightarrow> Some m | None \<Rightarrow> Some dflt)\<rparr>))"

text \<open>\<^verbatim>\<open>SerializedDataDestroy\<close>: the buffer handed to the manager's \<^verbatim>\<open>free\<close>, if any.\<close>

definition SerializedDataDestroy :: "SerializedData \<Rightarrow> u8 list option" where
  "SerializedDataDestroy data =
     (case sd_memoryManager data of Some m \<Rightarrow> sd_buffer data | None \<Rightarrow> None)"

definition SerializedDataClear :: "SerializedData \<Rightarrow> SerializedData" where
  "SerializedDataClear data = data\<lparr>sd_size := 0\<rparr>"

text \<open>
  The doubling loop of \<^verbatim>\<open>SerializedDataEnlarge\<close>; \<open>None\<close> means that it never ends. The product is
  the wrapping one of \<^verbatim>\<open>uint32_t\<close>.
\<close>

partial_function (option) enlarge_loop :: "u32 \<Rightarrow> u32 \<Rightarrow> u32 option" where
  "enlarge_loop required newCapacity =
     (if newCapacity < required then enlarge_loop required (newCapacity * 2)
      else Some newCapacity)"

definition SerializedDataEnlarge :: "SerializedData \<Rightarrow> u32 \<Rightarrow> (bool \<times> SerializedData) run" where
  "SerializedDataEnlarge data required =
     (if required \<le> sd_capacity data then Returns (True, data)
      else case sd_memoryManager data of
        None \<Rightarrow> Returns (False, data)
      | Some mm \<Rightarrow>
          (case enlarge_loop required (if sd_capacity data = 0 then SERIALIZED_DATA_DEFAULT_CAPACITY
                                   else sd_capacity data * 2) of
             None \<Rightarrow> Loops
           | Some newCapacity \<Rightarrow>
               (case (case sd_buffer data of
                        Some b \<Rightarrow> mm_realloc mm b (unat newCapacity)
                      | None \<Rightarrow> mm_alloc mm (unat newCapacity)) of
                  None \<Rightarrow> Returns (False, data)
                | Some newBuffer \<Rightarrow>
                    Returns (True, data\<lparr>sd_buffer := Some newBuffer,
                                        sd_capacity := newCapacity\<rparr>))))"

text \<open>A store through \<^verbatim>\<open>data->buffer + off\<close>, and a load.\<close>

definition sd_write :: "SerializedData \<Rightarrow> nat \<Rightarrow> u8 list \<Rightarrow> SerializedData run" where
  "sd_write data off bs =
     (case sd_buffer data of
        Some b \<Rightarrow> if off + length bs \<le> length b
                  then Returns (data\<lparr>sd_buffer := Some (overwrite b off bs)\<rparr>) else Faults
      | None \<Rightarrow> if bs = [] then Returns data else Faults)"

definition sd_read :: "SerializedData \<Rightarrow> nat \<Rightarrow> nat \<Rightarrow> u8 list run" where
  "sd_read data off n =
     (case sd_buffer data of
        Some b \<Rightarrow> if off + n \<le> length b then Returns (take n (drop off b)) else Faults
      | None \<Rightarrow> if n = 0 then Returns [] else Faults)"

definition sd_align :: "u32 \<Rightarrow> u32" where
  "sd_align sz = sz + ((NOT (sz AND SERIALIZED_DATA_ALIGNMENT_MASK) + 1)
                       AND SERIALIZED_DATA_ALIGNMENT_MASK)"

text \<open>\<^verbatim>\<open>SerializedDataApplyForSegment\<close>: the offset of the payload, or \<open>None\<close> for NULL.\<close>

definition SerializedDataApplyForSegment ::
    "bool \<Rightarrow> SerializedData \<Rightarrow> u32 \<Rightarrow> (nat option \<times> SerializedData) run" where
  "SerializedDataApplyForSegment little data size0 =
     (let size = sd_align size0 in
      run_bind (SerializedDataEnlarge data (sd_size data + SERIALIZED_DATA_ALIGNMENT + size))
        (\<lambda>(ok, data).
           if \<not> ok then Returns (None, data)
           else run_bind (sd_write data (unat (sd_size data))
                   (store_u32 little (if SystemIsLittleEndian little then size
                                      else ConvertBetweenBigAndLittleEndian size)))
                (\<lambda>data. Returns
                   (Some (unat (sd_size data) + 4),
                    data\<lparr>sd_size := sd_size data + (SERIALIZED_DATA_ALIGNMENT + size)\<rparr>))))"

definition SerializedDataAppend ::
    "SerializedData \<Rightarrow> SerializedData \<Rightarrow> (bool \<times> SerializedData) run" where
  "SerializedDataAppend dest src =
     run_bind (SerializedDataEnlarge dest (sd_size dest + sd_size src))
       (\<lambda>(ok, dest).
          if \<not> ok then Returns (False, dest)
          else run_bind (sd_read src 0 (unat (sd_size src)))
               (\<lambda>bs. run_bind (sd_write dest (unat (sd_size dest)) bs)
               (\<lambda>dest. Returns (True, dest\<lparr>sd_size := sd_size dest + sd_size src\<rparr>))))"

text \<open>
  The loop of \<^verbatim>\<open>SerializedDataNextSeveralItemSize\<close>: \<open>None\<close> is the early return of -1, otherwise
  the final position of \<^verbatim>\<open>p\<close>. Pointer arithmetic is 64 bits wide and does not wrap here.
\<close>

primrec next_items_loop :: "bool \<Rightarrow> SerializedData \<Rightarrow> nat \<Rightarrow> nat \<Rightarrow> nat option run" where
  "next_items_loop little data 0 p = Returns (Some p)"
| "next_items_loop little data (Suc itemCount) p =
     run_bind (sd_read data p 4) (\<lambda>bs.
       let raw = load_u32 little bs;
           itemSize = (if \<not> SystemIsLittleEndian little
                       then ConvertBetweenBigAndLittleEndian raw else raw);
           q = p + (4 + unat itemSize) in
       if itemSize AND SERIALIZED_DATA_ALIGNMENT_MASK \<noteq> 0 then Returns None
       else if q > unat (sd_size data) then Returns None
       else next_items_loop little data itemCount q)"

definition SerializedDataNextSeveralItemSize ::
    "bool \<Rightarrow> SerializedData \<Rightarrow> u32 \<Rightarrow> u32 \<Rightarrow> u32 run" where
  "SerializedDataNextSeveralItemSize little data start itemCount =
     (if start AND SERIALIZED_DATA_ALIGNMENT_MASK \<noteq> 0 then Returns (- 1)
      else run_bind (next_items_loop little data (unat itemCount) (unat start))
             (\<lambda>r. case r of None \<Rightarrow> Returns (- 1)
                   | Some p \<Rightarrow> Returns (word_of_nat p - start)))"

section \<open>Byte order lemmas\<close>

lemma le_word_le_bytes: "le_word (le_bytes w) = w"
proof (rule bit_eqI)
  fix n assume "possible_bit TYPE(u32) n"
  then show "bit (le_word (le_bytes w)) n = bit w n"
    unfolding le_word_def le_bytes_def
    by (cases "n < 8"; cases "n < 16"; cases "n < 24") (auto simp: bit_simps nth_Cons')
qed

lemma length_le_bytes [simp]: "length (le_bytes w) = 4"
  by (simp add: le_bytes_def)

lemma length_store_u32 [simp]: "length (store_u32 little w) = 4"
  by (simp add: store_u32_def)

lemma SystemIsLittleEndian_eq [simp]: "SystemIsLittleEndian little = little"
  by (simp add: SystemIsLittleEndian_def SystemIsLittleEndian_step_def store_u32_def le_bytes_def)

text \<open>Whatever the memo holds after an earlier call, a later call answers the same.\<close>

lemma SystemIsLittleEndian_memo:
  "SystemIsLittleEndian_step little (snd (SystemIsLittleEndian_step little 0))
     = SystemIsLittleEndian_step little 0"
  by (simp add: SystemIsLittleEndian_step_def Let_def)

lemma byte_masks:
  "(0xFF000000 :: u32) = push_bit 24 (mask 8)"
  "(0x00FF0000 :: u32) = push_bit 16 (mask 8)"
  "(0x0000FF00 :: u32) = push_bit 8 (mask 8)"
  "(0x000000FF :: u32) = mask 8"
  by (simp_all add: mask_eq_exp_minus_1 push_bit_eq_mult)

lemma bit_Convert:
  "bit (ConvertBetweenBigAndLittleEndian w) n \<longleftrightarrow>
     n < 32 \<and> bit w (8 * (3 - n div 8) + n mod 8)"
proof (cases "n < 32")
  case True
  define m where "m = n mod 8"
  have m: "m < 8" by (simp add: m_def)
  then have dm: "(8 + m) div 8 = 1" "(16 + m) div 8 = 2" "(24 + m) div 8 = 3"
    "(8 + m) mod 8 = m" "(16 + m) mod 8 = m" "(24 + m) mod 8 = m"
    by (simp_all add: div_nat_eqI mod_nat_eqI)
  have "n = 8 * (n div 8) + m" by (simp add: m_def)
  moreover have "n div 8 = 0 \<or> n div 8 = 1 \<or> n div 8 = 2 \<or> n div 8 = 3"
    using True by linarith
  ultimately have "n = m \<or> n = 8 + m \<or> n = 16 + m \<or> n = 24 + m" by (elim disjE) simp_all
  then show ?thesis
    unfolding ConvertBetweenBigAndLittleEndian_def byte_masks
    using m by (elim disjE) (simp_all add: bit_simps dm)
next
  case False
  then show ?thesis by (auto dest: bit_imp_le_length)
qed

lemma Convert_involution:
  "ConvertBetweenBigAndLittleEndian (ConvertBetweenBigAndLittleEndian w) = w"
proof (rule bit_eqI)
  fix n assume "possible_bit TYPE(u32) n"
  then have n: "n < 32" by simp
  have d: "(8 * (3 - n div 8) + n mod 8) div 8 = 3 - n div 8"
    "(8 * (3 - n div 8) + n mod 8) mod 8 = n mod 8" by simp_all
  have "n div 8 \<le> 3" "8 * (3 - n div 8) + n mod 8 < 32" using n by linarith+
  then have "8 * (3 - (3 - n div 8)) + n mod 8 = n" by simp
  then show "bit (ConvertBetweenBigAndLittleEndian (ConvertBetweenBigAndLittleEndian w)) n
      = bit w n"
    using n d \<open>8 * (3 - n div 8) + n mod 8 < 32\<close> by (simp add: bit_Convert)
qed

lemma rev_le_bytes_Convert: "rev (le_bytes (ConvertBetweenBigAndLittleEndian w)) = le_bytes w"
proof -
  have b: "(ucast (drop_bit (8 * (3 - i)) (ConvertBetweenBigAndLittleEndian w)) :: u8)
      = ucast (drop_bit (8 * i) w)" if "i \<le> 3" for i
  proof (rule bit_eqI)
    fix n assume "possible_bit TYPE(u8) n"
    then have n: "n < 8" by simp
    have "(8 * (3 - i) + n) div 8 = 3 - i" "(8 * (3 - i) + n) mod 8 = n" using n by simp_all
    with n that show "bit (ucast (drop_bit (8 * (3 - i)) (ConvertBetweenBigAndLittleEndian w)) :: u8) n
      = bit (ucast (drop_bit (8 * i) w) :: u8) n"
      by (auto simp: bit_simps bit_Convert)
  qed
  show ?thesis
    using b [of 0] b [of 1] b [of 2] b [of 3] by (simp add: le_bytes_def)
qed

text \<open>The header word is little-endian in memory whatever the host is, and is read back as written.\<close>

lemma stored_header [simp]:
  "store_u32 little (if little then w else ConvertBetweenBigAndLittleEndian w) = le_bytes w"
  by (simp add: store_u32_def rev_le_bytes_Convert)

lemma loaded_header [simp]:
  "(if \<not> little then ConvertBetweenBigAndLittleEndian (load_u32 little (le_bytes w))
    else load_u32 little (le_bytes w)) = w"
proof -
  have "rev (le_bytes w) = le_bytes (ConvertBetweenBigAndLittleEndian w)"
    by (metis rev_le_bytes_Convert rev_rev_ident)
  then show ?thesis by (simp add: load_u32_def le_word_le_bytes Convert_involution)
qed

section \<open>Alignment and growth\<close>

lemma and_align_mask: "unat (w AND SERIALIZED_DATA_ALIGNMENT_MASK) = unat w mod 4"
  using unat_and_mask [of w 2] by (simp add: cuckoo_defs mask_eq_exp_minus_1)

lemma aligned_iff: "w AND SERIALIZED_DATA_ALIGNMENT_MASK = 0 \<longleftrightarrow> 4 dvd unat w"
  by (metis and_align_mask dvd_eq_mod_eq_0 unat_eq_0)

lemma pad_unique:
  assumes "4 dvd (x :: nat) + y" shows "y mod 4 = (4 - x mod 4) mod 4"
proof -
  have "(x mod 4 + y mod 4) mod 4 = 0" using assms by (simp add: mod_add_eq)
  moreover have "a = (4 - b) mod 4" if "(b + a) mod 4 = 0" "a < 4" "b < 4" for a b :: nat
  proof -
    have "b = 0 \<or> b = 1 \<or> b = 2 \<or> b = 3" "a = 0 \<or> a = 1 \<or> a = 2 \<or> a = 3"
      using that by linarith+
    then show ?thesis using that(1) by (elim disjE) simp_all
  qed
  ultimately show ?thesis by simp
qed

lemma pad_up: "(x :: nat) + (4 - x mod 4) mod 4 = (x + 3) div 4 * 4"
proof -
  define q r where "q = x div 4" and "r = x mod 4"
  have x: "x = 4 * q + r" "r < 4" by (simp_all add: q_def r_def)
  then have "(x + 3) div 4 = (if r = 0 then q else q + 1)" by (auto intro!: div_nat_eqI)
  then show ?thesis using x unfolding r_def [symmetric] by simp
qed

lemma unat_padding:
  "unat ((NOT (w AND SERIALIZED_DATA_ALIGNMENT_MASK) + 1) AND SERIALIZED_DATA_ALIGNMENT_MASK)
     = (4 - unat w mod 4) mod 4"
proof -
  let ?x = "w AND SERIALIZED_DATA_ALIGNMENT_MASK"
  have "NOT ?x + 1 = - ?x" by (simp add: minus_eq_not_plus_1)
  moreover have "unat (- ?x) mod 4 = (4 - unat ?x mod 4) mod 4"
  proof -
    have "(unat ?x + unat (- ?x)) mod 2 ^ 32 = 0"
      by (simp flip: unat_word_ariths(1) [where 'a = 32, simplified])
    then have "2 ^ 32 dvd unat ?x + unat (- ?x)" by (rule mod_0_imp_dvd)
    moreover have "(4 :: nat) dvd 2 ^ 32" by simp
    ultimately have "4 dvd unat ?x + unat (- ?x)" by (rule dvd_trans [rotated])
    then show ?thesis by (rule pad_unique)
  qed
  ultimately show ?thesis by (simp add: and_align_mask)
qed

lemma unat_sd_align:
  assumes "unat w \<le> 2 ^ 32 - 4"
  shows "unat (sd_align w) = (unat w + 3) div 4 * 4"
proof -
  have "(unat w + 3) div 4 * 4 \<le> unat w + 3" by simp
  also have "\<dots> < 2 ^ 32" using assms by simp
  finally have "(unat w + 3) div 4 * 4 < 2 ^ 32" .
  then show ?thesis
    using unat_plus_small [of w "(NOT (w AND SERIALIZED_DATA_ALIGNMENT_MASK) + 1)
        AND SERIALIZED_DATA_ALIGNMENT_MASK"]
    unfolding sd_align_def unat_padding pad_up by simp
qed

lemma sd_align_dvd: "4 dvd unat (sd_align w)"
proof -
  have "unat (sd_align w) = (unat w + 3) div 4 * 4 mod 2 ^ 32"
    unfolding sd_align_def unat_word_ariths(1) unat_padding pad_up by simp
  moreover have "4 dvd (unat w + 3) div 4 * 4 mod 2 ^ 32" by (simp add: dvd_mod)
  ultimately show ?thesis by simp
qed

lemma unat_double:
  assumes "unat (c :: u32) < 2 ^ 31" shows "unat (c * 2) = 2 * unat c"
  using assms by (simp add: unat_word_ariths)

lemma enlarge_loop_returns:
  assumes "0 < c" and "unat required \<le> 2 ^ 31"
  shows "\<exists>c'. enlarge_loop required c = Some c' \<and> required \<le> c' \<and> (4 dvd unat c \<longrightarrow> 4 dvd unat c')"
  using assms
proof (induction "unat required - unat c" arbitrary: c rule: less_induct)
  case less
  show ?case
  proof (cases "c < required")
    case True
    then have lt: "unat c < unat required" by (simp add: word_less_nat_alt)
    then have d: "unat (c * 2) = 2 * unat c" using less.prems by (intro unat_double) linarith
    have c0: "0 < unat c" using less.prems(1) by (simp add: word_less_nat_alt)
    then have "0 < c * 2" using d by (simp add: word_less_nat_alt)
    moreover have "unat required - unat (c * 2) < unat required - unat c" using lt c0 d by simp
    ultimately obtain c' where "enlarge_loop required (c * 2) = Some c'" "required \<le> c'"
      "4 dvd unat (c * 2) \<longrightarrow> 4 dvd unat c'"
      using less.hyps less.prems(2) by blast
    moreover have "enlarge_loop required c = enlarge_loop required (c * 2)"
      using True by (subst enlarge_loop.simps) simp
    moreover have "4 dvd unat c \<longrightarrow> 4 dvd unat (c * 2)" unfolding d by (blast intro: dvd_mult)
    ultimately show ?thesis by metis
  next
    case False
    then show ?thesis by (subst enlarge_loop.simps) simp
  qed
qed

lemma unat_pow2_le: "unat (2 ^ k :: u32) \<le> 2 ^ 31"
proof -
  have eq: "unat (2 ^ k :: u32) = 2 ^ k mod 2 ^ 32"
    using unat_of_nat [of "2 ^ k", where 'a = 32] by simp
  show ?thesis
  proof (cases "k < 32")
    case True
    then have "(2 :: nat) ^ k \<le> 2 ^ 31" by (intro power_increasing) simp_all
    then show ?thesis unfolding eq by (rule order_trans [OF mod_less_eq_dividend])
  next
    case False
    then have "(2 :: nat) ^ 32 dvd 2 ^ k" by (intro le_imp_power_dvd) simp
    then show ?thesis unfolding eq by (simp only: dvd_imp_mod_0)
  qed
qed

text \<open>Past 2 to the 31 the doubling wraps to zero before it reaches the size asked for.\<close>

lemma enlarge_loop_never:
  assumes loop: "enlarge_loop required (2 ^ k) = Some c'" and big: "unat required > 2 ^ 31"
  shows False
proof -
  have "\<forall>k. c = 2 ^ k \<longrightarrow> unat r > 2 ^ 31 \<longrightarrow> False" if "enlarge_loop r c = Some y" for r c y
    using that
  proof (rule enlarge_loop.raw_induct [rotated,
        where P = "\<lambda>r c y. \<forall>k. c = 2 ^ k \<longrightarrow> unat r > 2 ^ 31 \<longrightarrow> False"], intro allI impI)
    fix loop r c y k
    assume IH: "\<And>r c y. loop r c = Some y \<Longrightarrow> \<forall>k. c = 2 ^ k \<longrightarrow> unat r > 2 ^ 31 \<longrightarrow> False"
      and step: "(if c < r then loop r (c * 2) else Some c) = Some y"
      and c: "c = 2 ^ k" and r: "unat (r :: u32) > 2 ^ 31"
    have "c < r" using c r unat_pow2_le [of k] by (simp add: word_less_nat_alt)
    then have "loop r (2 ^ Suc k) = Some y" using step c by (simp add: mult.commute)
    then show False using IH r by blast
  qed
  then show False using assms by blast
qed

section \<open>Well-formed containers\<close>

text \<open>The contract of the allocator callbacks, that of \<^verbatim>\<open>malloc\<close> and \<^verbatim>\<open>realloc\<close>.\<close>

definition mm_ok :: "MemoryManager \<Rightarrow> bool" where
  "mm_ok mm \<longleftrightarrow>
     (\<forall>n b. mm_alloc mm n = Some b \<longrightarrow> length b = n)
     \<and> (\<forall>old n b. mm_realloc mm old n = Some b \<longrightarrow>
          length b = n \<and> take (min (length old) n) b = take (min (length old) n) old)"

lemma mm_ok_alloc: "mm_ok mm \<Longrightarrow> mm_alloc mm n = Some b \<Longrightarrow> length b = n"
  by (simp add: mm_ok_def)

lemma mm_ok_realloc:
  assumes "mm_ok mm" "mm_realloc mm old n = Some b"
  shows "length b = n" "take (min (length old) n) b = take (min (length old) n) old"
  using assms unfolding mm_ok_def by blast+

definition mm_total :: "MemoryManager \<Rightarrow> bool" where
  "mm_total mm \<longleftrightarrow> (\<forall>n. mm_alloc mm n \<noteq> None) \<and> (\<forall>old n. mm_realloc mm old n \<noteq> None)"

text \<open>The object the buffer points to; a NULL buffer owns no byte.\<close>

definition sd_mem :: "SerializedData \<Rightarrow> u8 list" where
  "sd_mem data = (case sd_buffer data of None \<Rightarrow> [] | Some b \<Rightarrow> b)"

lemma sd_mem_upd [simp]:
  "sd_mem (data\<lparr>sd_buffer := Some b\<rparr>) = b" "sd_mem (data\<lparr>sd_size := n\<rparr>) = sd_mem data"
  "sd_mem (data\<lparr>sd_capacity := n\<rparr>) = sd_mem data"
  "sd_mem (data\<lparr>sd_buffer := Some b, sd_capacity := n\<rparr>) = b"
  by (simp_all add: sd_mem_def)

definition sd_wf :: "SerializedData \<Rightarrow> bool" where
  "sd_wf data \<longleftrightarrow>
     length (sd_mem data) = unat (sd_capacity data)
     \<and> sd_size data \<le> sd_capacity data \<and> 4 dvd unat (sd_size data)
     \<and> (\<forall>mm. sd_memoryManager data = Some mm \<longrightarrow> mm_ok mm)"

text \<open>The bytes in use.\<close>

definition sd_bytes :: "SerializedData \<Rightarrow> u8 list" where
  "sd_bytes data = take (unat (sd_size data)) (sd_mem data)"

lemma length_sd_bytes: "sd_wf data \<Longrightarrow> length (sd_bytes data) = unat (sd_size data)"
  by (simp add: sd_wf_def sd_bytes_def word_le_nat_alt)

lemma SerializedDataInit_wf:
  assumes "SerializedDataInit dflt data0 buf cap used mgr = (True, data)"
    and "\<forall>b. buf = Some b \<longrightarrow> length b = unat cap \<and> used \<le> cap"
    and "mm_ok dflt" and "\<forall>m. mgr = Some m \<longrightarrow> mm_ok m"
  shows "sd_wf data \<and> sd_bytes data = (case buf of None \<Rightarrow> [] | Some b \<Rightarrow> take (unat used) b)"
  using assms
  by (auto simp: SerializedDataInit_def sd_wf_def sd_bytes_def sd_mem_def aligned_iff
      split: option.splits if_splits)

lemma SerializedDataClear_wf:
  "sd_wf data \<Longrightarrow> sd_wf (SerializedDataClear data) \<and> sd_bytes (SerializedDataClear data) = []"
  by (simp add: SerializedDataClear_def sd_wf_def sd_bytes_def)

text \<open>
  What a successful or failed growth leaves of the container: the same bytes in use, and, when it
  reports success, room for the size asked for.
\<close>

definition sd_grown :: "SerializedData \<Rightarrow> u32 \<Rightarrow> bool \<Rightarrow> SerializedData \<Rightarrow> bool" where
  "sd_grown data required ok data' \<longleftrightarrow>
     sd_wf data' \<and> sd_size data' = sd_size data \<and> sd_bytes data' = sd_bytes data
     \<and> sd_memoryManager data' = sd_memoryManager data
     \<and> (if ok then required \<le> sd_capacity data' else data' = data)"

lemma take_prefix_eq:
  assumes "take m b = take m old" and "k \<le> m" shows "take k b = take k old"
  using assms by (metis min.absorb1 take_take)

lemma sd_grown_new_buffer:
  assumes wf: "sd_wf data" and len: "length b = unat newCapacity"
    and pre: "take (unat (sd_size data)) b
              = take (unat (sd_size data)) (sd_mem data)"
    and big: "required \<le> newCapacity" and le: "sd_size data \<le> newCapacity"
  shows "sd_grown data required True (data\<lparr>sd_buffer := Some b, sd_capacity := newCapacity\<rparr>)"
  using assms by (simp add: sd_grown_def sd_wf_def sd_bytes_def)

lemma SerializedDataEnlarge_returns:
  assumes wf: "sd_wf data" and small: "unat required \<le> 2 ^ 31"
  shows "\<exists>ok data'. SerializedDataEnlarge data required = Returns (ok, data')
      \<and> sd_grown data required ok data'
      \<and> ((\<exists>mm. sd_memoryManager data = Some mm \<and> mm_total mm) \<longrightarrow> ok)"
proof (cases "required \<le> sd_capacity data")
  case True
  then show ?thesis using wf by (auto simp: SerializedDataEnlarge_def sd_grown_def)
next
  case big: False
  show ?thesis
  proof (cases "sd_memoryManager data")
    case None
    then show ?thesis using big wf by (auto simp: SerializedDataEnlarge_def sd_grown_def)
  next
    case (Some mm)
    define c where "c = (if sd_capacity data = 0 then SERIALIZED_DATA_DEFAULT_CAPACITY
                         else sd_capacity data * 2)"
    have cap: "unat (sd_capacity data) < 2 ^ 31"
      using big small by (simp add: word_le_nat_alt)
    have "0 < c"
    proof (cases "sd_capacity data = 0")
      case False
      then have "unat (sd_capacity data) \<noteq> 0" by (simp add: unat_eq_0)
      then show ?thesis using unat_double [OF cap] False by (simp add: c_def word_less_nat_alt)
    qed (simp add: c_def cuckoo_defs)
    then obtain c' where c': "enlarge_loop required c = Some c'" "required \<le> c'"
      using enlarge_loop_returns small by blast
    have le: "sd_size data \<le> c'" "unat (sd_capacity data) \<le> unat c'"
      using wf big c'(2) by (simp_all add: sd_wf_def word_le_nat_alt)
    define got where "got = (case sd_buffer data of Some b \<Rightarrow> mm_realloc mm b (unat c')
                                                | None \<Rightarrow> mm_alloc mm (unat c'))"
    have eq: "SerializedDataEnlarge data required =
      (case got of None \<Rightarrow> Returns (False, data)
       | Some nb \<Rightarrow> Returns (True, data\<lparr>sd_buffer := Some nb, sd_capacity := c'\<rparr>))"
      using big Some c'(1) by (simp add: SerializedDataEnlarge_def got_def flip: c_def)
    have mm: "mm_ok mm" using wf Some by (simp add: sd_wf_def)
    show ?thesis
    proof (cases got)
      case None
      then have "\<not> mm_total mm" by (auto simp: got_def mm_total_def split: option.splits)
      moreover have "sd_grown data required False data" using wf by (simp add: sd_grown_def)
      ultimately show ?thesis using eq None Some by auto
    next
      case nb: (Some nb)
      have "sd_grown data required True (data\<lparr>sd_buffer := Some nb, sd_capacity := c'\<rparr>)"
      proof (rule sd_grown_new_buffer [OF wf _ _ c'(2) le(1)])
        show "length nb = unat c'"
          using nb mm_ok_alloc [OF mm] mm_ok_realloc(1) [OF mm]
          unfolding got_def by (cases "sd_buffer data") simp_all
        show "take (unat (sd_size data)) nb = take (unat (sd_size data)) (sd_mem data)"
        proof (cases "sd_buffer data")
          case None
          then have "unat (sd_size data) = 0"
            using wf by (simp add: sd_wf_def sd_mem_def word_le_nat_alt)
          then show ?thesis by simp
        next
          case (Some b)
          then have "unat (sd_size data) \<le> min (length b) (unat c')"
            using wf le by (simp add: sd_wf_def sd_mem_def word_le_nat_alt)
          moreover have "take (min (length b) (unat c')) nb = take (min (length b) (unat c')) b"
            using nb Some unfolding got_def by (intro mm_ok_realloc(2) [OF mm]) simp
          ultimately have "take (unat (sd_size data)) nb = take (unat (sd_size data)) b"
            by (rule take_prefix_eq [rotated])
          then show ?thesis using Some by (simp add: sd_mem_def)
        qed
      qed
      then show ?thesis using eq nb by auto
    qed
  qed
qed

section \<open>The operations append to the bytes in use\<close>

lemma sd_write_ok:
  assumes "off + length bs \<le> length (sd_mem data)"
  shows "\<exists>data'. sd_write data off bs = Returns data' \<and> sd_mem data' = overwrite (sd_mem data) off bs
     \<and> sd_size data' = sd_size data \<and> sd_capacity data' = sd_capacity data
     \<and> sd_memoryManager data' = sd_memoryManager data"
  using assms by (auto simp: sd_write_def sd_mem_def overwrite_def split: option.splits)

lemma sd_read_bytes:
  assumes "sd_wf data" and "off + n \<le> unat (sd_size data)"
  shows "sd_read data off n = Returns (take n (drop off (sd_bytes data)))"
  using assms
  by (auto simp: sd_read_def sd_bytes_def sd_mem_def sd_wf_def word_le_nat_alt take_drop
      min_def split: option.splits)

text \<open>Writing \<open>n\<close> bytes at the end of the bytes in use and taking them into use.\<close>

lemma sd_extend:
  assumes wf: "sd_wf data" and room: "unat (sd_size data) + unat n \<le> unat (sd_capacity data)"
    and bs: "length bs \<le> unat n" and n4: "4 dvd unat n"
    and w: "sd_write data (unat (sd_size data)) bs = Returns data'"
  shows "sd_wf (data'\<lparr>sd_size := sd_size data' + n\<rparr>)
     \<and> unat (sd_size data' + n) = unat (sd_size data) + unat n
     \<and> (\<exists>pad. length pad = unat n - length bs
          \<and> sd_bytes (data'\<lparr>sd_size := sd_size data' + n\<rparr>) = sd_bytes data @ bs @ pad)"
proof -
  let ?k = "unat (sd_size data)"
  have len: "length (sd_mem data) = unat (sd_capacity data)" using wf by (simp add: sd_wf_def)
  have "?k + length bs \<le> length (sd_mem data)" using room bs len by simp
  from sd_write_ok [OF this] w have
    d': "sd_mem data' = overwrite (sd_mem data) ?k bs" "sd_size data' = sd_size data"
    "sd_capacity data' = sd_capacity data" "sd_memoryManager data' = sd_memoryManager data"
    by auto
  have sz: "unat (sd_size data' + n) = ?k + unat n"
    using room unat_lt_pow [of "sd_capacity data"] by (subst unat_plus_small) (simp_all add: d')
  have ow: "overwrite (sd_mem data) ?k bs = sd_bytes data @ bs @ drop (?k + length bs) (sd_mem data)"
    by (simp add: overwrite_def sd_bytes_def)
  have lb: "length (sd_bytes data) = ?k" using wf by (rule length_sd_bytes)
  have "sd_wf (data'\<lparr>sd_size := sd_size data' + n\<rparr>)"
    using wf room sz n4 len \<open>?k + length bs \<le> length (sd_mem data)\<close>
    by (simp add: sd_wf_def d' word_le_nat_alt)
  moreover have "sd_bytes (data'\<lparr>sd_size := sd_size data' + n\<rparr>)
      = sd_bytes data @ bs @ take (unat n - length bs) (drop (?k + length bs) (sd_mem data))"
  proof -
    have "sd_bytes (data'\<lparr>sd_size := sd_size data' + n\<rparr>) = take (?k + unat n) (sd_mem data')"
      by (simp add: sd_bytes_def sz)
    then show ?thesis using bs lb by (simp add: d'(1) ow)
  qed
  ultimately show ?thesis using sz room bs len by auto
qed

text \<open>
  \<^verbatim>\<open>SerializedDataApplyForSegment\<close> appends exactly one item. As long as the container stays
  within 2 GiB it returns, on hosts of either byte order: NULL with the container unchanged (only
  possible when the allocator fails), or the offset of the payload behind a little-endian header
  that holds the size rounded up to a multiple of four, with every earlier byte unchanged and the
  container well-formed.
\<close>

lemma apply_for_segment_appends:
  assumes wf: "sd_wf data"
    and small: "unat (sd_size data) + 4 + (unat n + 3) div 4 * 4 \<le> 2 ^ 31"
  shows "SerializedDataApplyForSegment little data n = Returns (None, data)
       \<and> \<not> (\<exists>mm. sd_memoryManager data = Some mm \<and> mm_total mm)
     \<or> (\<exists>data' payload.
          SerializedDataApplyForSegment little data n = Returns (Some (unat (sd_size data) + 4), data')
          \<and> sd_wf data' \<and> sd_memoryManager data' = sd_memoryManager data
          \<and> length payload = (unat n + 3) div 4 * 4
          \<and> sd_bytes data' = sd_bytes data @ le_bytes (word_of_nat (length payload)) @ payload)"
proof -
  have n: "unat (sd_align n) = (unat n + 3) div 4 * 4"
  proof (rule unat_sd_align)
    have "unat n \<le> (unat n + 3) div 4 * 4" by linarith
    then show "unat n \<le> 2 ^ 32 - 4" using small by simp
  qed
  have four: "unat (SERIALIZED_DATA_ALIGNMENT + sd_align n) = 4 + unat (sd_align n)"
    using small n by (subst unat_plus_small) (simp_all add: cuckoo_defs)
  have req: "unat (sd_size data + SERIALIZED_DATA_ALIGNMENT + sd_align n)
      = unat (sd_size data) + 4 + unat (sd_align n)"
    using small n four unfolding add.assoc
    by (subst unat_plus_small) (simp_all add: four)
  obtain ok d where e: "SerializedDataEnlarge data
        (sd_size data + SERIALIZED_DATA_ALIGNMENT + sd_align n) = Returns (ok, d)"
    and g: "sd_grown data (sd_size data + SERIALIZED_DATA_ALIGNMENT + sd_align n) ok d"
    and t: "(\<exists>mm. sd_memoryManager data = Some mm \<and> mm_total mm) \<longrightarrow> ok"
    using SerializedDataEnlarge_returns [OF wf] req small n by metis
  show ?thesis
  proof (cases ok)
    case False
    then show ?thesis
      using e g t by (simp add: SerializedDataApplyForSegment_def sd_grown_def Let_def)
  next
    case True
    have d: "sd_wf d" "sd_size d = sd_size data" "sd_bytes d = sd_bytes data"
      "sd_memoryManager d = sd_memoryManager data"
      and room: "unat (sd_size d) + unat (SERIALIZED_DATA_ALIGNMENT + sd_align n)
                 \<le> unat (sd_capacity d)"
      using g True req four by (simp_all add: sd_grown_def word_le_nat_alt)
    have "unat (sd_size d) + length (le_bytes (sd_align n)) \<le> length (sd_mem d)"
      using room d(1) four by (simp add: sd_wf_def)
    then obtain d' where w: "sd_write d (unat (sd_size d)) (le_bytes (sd_align n)) = Returns d'"
      and sz': "sd_size d' = sd_size d" "sd_memoryManager d' = sd_memoryManager d"
      using sd_write_ok by blast
    have "4 dvd unat (SERIALIZED_DATA_ALIGNMENT + sd_align n)"
      unfolding four using sd_align_dvd by simp
    from sd_extend [OF d(1) room _ this w] obtain pad
      where "sd_wf (d'\<lparr>sd_size := sd_size d' + (SERIALIZED_DATA_ALIGNMENT + sd_align n)\<rparr>)"
        and pad: "length pad = unat (sd_align n)"
        and "sd_bytes (d'\<lparr>sd_size := sd_size d' + (SERIALIZED_DATA_ALIGNMENT + sd_align n)\<rparr>)
          = sd_bytes d @ le_bytes (sd_align n) @ pad"
      using four by auto
    moreover have "word_of_nat (length pad) = sd_align n" using pad by simp
    ultimately show ?thesis
      using e w True n d sz' by (auto simp: SerializedDataApplyForSegment_def Let_def)
  qed
qed

text \<open>An allocator that always succeeds and zeroes what it hands out.\<close>

definition zeroing_mm :: MemoryManager where
  "zeroing_mm = \<lparr>mm_alloc = \<lambda>n. Some (replicate n 0),
                 mm_realloc = \<lambda>old n. Some (take n old @ replicate (n - length old) 0)\<rparr>"

definition empty_sd :: SerializedData where
  "empty_sd = \<lparr>sd_buffer = None, sd_size = 0, sd_capacity = 0, sd_memoryManager = Some zeroing_mm\<rparr>"

lemma zeroing_mm_ok: "mm_ok zeroing_mm" "mm_total zeroing_mm"
  by (auto simp: mm_ok_def mm_total_def zeroing_mm_def min_def)

lemma empty_sd_wf: "sd_wf empty_sd" "sd_bytes empty_sd = []"
  by (auto simp: sd_wf_def sd_bytes_def empty_sd_def sd_mem_def zeroing_mm_ok)

text \<open>
  C27: \<^verbatim>\<open>SerializedDataAppend\<close> concatenates: while the sum of the sizes stays within 2 GiB it
  returns, and either reports failure with the destination unchanged (only possible when the
  allocator fails) or leaves the destination well-formed with the source's bytes behind its own.
\<close>

theorem append_concatenates:
  assumes wf: "sd_wf dest" "sd_wf src"
    and small: "unat (sd_size dest) + unat (sd_size src) \<le> 2 ^ 31"
  shows "SerializedDataAppend dest src = Returns (False, dest)
       \<and> \<not> (\<exists>mm. sd_memoryManager dest = Some mm \<and> mm_total mm)
     \<or> (\<exists>dest'. SerializedDataAppend dest src = Returns (True, dest') \<and> sd_wf dest'
          \<and> sd_bytes dest' = sd_bytes dest @ sd_bytes src)"
proof -
  have req: "unat (sd_size dest + sd_size src) = unat (sd_size dest) + unat (sd_size src)"
    using small by (subst unat_plus_small) simp_all
  obtain ok d where e: "SerializedDataEnlarge dest (sd_size dest + sd_size src) = Returns (ok, d)"
    and g: "sd_grown dest (sd_size dest + sd_size src) ok d"
    and t: "(\<exists>mm. sd_memoryManager dest = Some mm \<and> mm_total mm) \<longrightarrow> ok"
    using SerializedDataEnlarge_returns [OF wf(1)] req small by metis
  show ?thesis
  proof (cases ok)
    case False
    then show ?thesis using e g t by (simp add: SerializedDataAppend_def sd_grown_def)
  next
    case True
    have d: "sd_wf d" "sd_size d = sd_size dest" "sd_bytes d = sd_bytes dest"
      and room: "unat (sd_size d) + unat (sd_size src) \<le> unat (sd_capacity d)"
      using g True req by (simp_all add: sd_grown_def word_le_nat_alt)
    have r: "sd_read src 0 (unat (sd_size src)) = Returns (sd_bytes src)"
      using sd_read_bytes [OF wf(2), of 0] length_sd_bytes [OF wf(2)] by simp
    have "unat (sd_size d) + length (sd_bytes src) \<le> length (sd_mem d)"
      using room d(1) length_sd_bytes [OF wf(2)] by (simp add: sd_wf_def)
    then obtain d' where w: "sd_write d (unat (sd_size d)) (sd_bytes src) = Returns d'"
      using sd_write_ok by blast
    have "4 dvd unat (sd_size src)" using wf(2) by (simp add: sd_wf_def)
    from sd_extend [OF d(1) room _ this w] length_sd_bytes [OF wf(2)] show ?thesis
      using e w r True d by (auto simp: SerializedDataAppend_def)
  qed
qed

theorem append_concatenates_witness:
  "\<exists>dest'. SerializedDataAppend empty_sd empty_sd = Returns (True, dest') \<and> sd_wf dest'
     \<and> sd_bytes dest' = []"
  using append_concatenates [OF empty_sd_wf(1) empty_sd_wf(1)] zeroing_mm_ok(2) empty_sd_wf(2)
  by (auto simp: empty_sd_def)

text \<open>
  C36: from a capacity that is a power of two (which every container grown from the default is), a
  request for more than 2 GiB with a memory manager present never returns: the capacity doubles to
  zero and the loop goes on for ever.
\<close>

theorem enlarge_loops_beyond_2GiB:
  assumes "unat required > 2 ^ 31" and "unat (sd_capacity data) = 2 ^ k \<or> sd_capacity data = 0"
    and "required > sd_capacity data" and "sd_memoryManager data = Some mm"
  shows "SerializedDataEnlarge data required = Loops"
proof -
  obtain j where j: "(if sd_capacity data = 0 then SERIALIZED_DATA_DEFAULT_CAPACITY
                      else sd_capacity data * 2) = 2 ^ j"
  proof (cases "sd_capacity data = 0")
    case True
    then show thesis using that [of 7] by (simp add: cuckoo_defs)
  next
    case False
    then have "unat (sd_capacity data) = 2 ^ k" using assms(2) by blast
    moreover have "sd_capacity data = word_of_nat (unat (sd_capacity data))" by simp
    ultimately have "sd_capacity data = 2 ^ k" by simp
    then show thesis using that [of "Suc k"] False by (simp add: mult.commute)
  qed
  have "enlarge_loop required (2 ^ j) = None"
    using enlarge_loop_never [OF _ assms(1), of j] by (cases "enlarge_loop required (2 ^ j)") auto
  then show ?thesis using assms(3,4) j by (simp add: SerializedDataEnlarge_def)
qed

theorem enlarge_loops_beyond_2GiB_witness:
  "SerializedDataEnlarge empty_sd (2 ^ 31 + 4) = Loops"
  using enlarge_loops_beyond_2GiB [of "2 ^ 31 + 4" empty_sd 0 zeroing_mm]
  by (simp add: empty_sd_def)

section \<open>Reading items\<close>

definition item_ok :: "u8 list \<Rightarrow> bool" where
  "item_ok x \<longleftrightarrow> 4 dvd length x \<and> length x < 2 ^ 32"

definition encode_item :: "u8 list \<Rightarrow> u8 list" where
  "encode_item x = le_bytes (word_of_nat (length x)) @ x"

definition encode_items :: "u8 list list \<Rightarrow> u8 list" where
  "encode_items xs = concat (map encode_item xs)"

lemma encode_items_simps [simp]:
  "encode_items [] = []" "encode_items (x # xs) = encode_item x @ encode_items xs"
  "encode_items (xs @ ys) = encode_items xs @ encode_items ys"
  by (simp_all add: encode_items_def)

lemma length_encode_item [simp]: "length (encode_item x) = 4 + length x"
  by (simp add: encode_item_def)

lemma item_size: "item_ok x \<Longrightarrow> unat (word_of_nat (length x) :: u32) = length x"
  by (simp add: item_ok_def unat_of_nat)

lemma four_times_count: "4 * length xs \<le> length (encode_items xs)"
  by (induction xs) simp_all

lemma dvd_encode_items: "\<forall>x \<in> set xs. item_ok x \<Longrightarrow> 4 dvd length (encode_items xs)"
  by (induction xs) (auto simp: item_ok_def)

text \<open>Reading what the memory holds, whether or not the bytes in use end behind it.\<close>

lemma sd_read_mem:
  assumes "sd_mem data = pre @ bs @ post" and "pre @ bs \<noteq> []"
  shows "sd_read data (length pre) (length bs) = Returns bs"
  using assms by (auto simp: sd_read_def sd_mem_def split: option.splits)

lemma next_items_loop_encoded:
  assumes "sd_mem data = pre @ encode_items xs @ post"
    and "length pre + length (encode_items xs) \<le> unat (sd_size data)"
    and "\<forall>x \<in> set xs. item_ok x"
  shows "next_items_loop little data (length xs) (length pre)
       = Returns (Some (length pre + length (encode_items xs)))"
  using assms
proof (induction xs arbitrary: pre)
  case (Cons x xs)
  let ?w = "word_of_nat (length x) :: u32"
  have rd: "sd_read data (length pre) 4 = Returns (le_bytes ?w)"
    using Cons.prems(1) sd_read_mem [of data pre "le_bytes ?w"] by (simp add: encode_item_def flip: length_0_conv)
  have w: "unat ?w = length x" "?w AND SERIALIZED_DATA_ALIGNMENT_MASK = 0"
    using Cons.prems(3) item_size [of x] by (simp_all add: aligned_iff item_ok_def)
  have "next_items_loop little data (length xs) (length (pre @ encode_item x))
      = Returns (Some (length (pre @ encode_item x) + length (encode_items xs)))"
    using Cons.prems by (intro Cons.IH) simp_all
  then show ?case
    using rd w Cons.prems(2) by (simp add: Let_def add.assoc)
qed simp

lemma le_bytes_le_word: "length bs = 4 \<Longrightarrow> le_bytes (le_word bs) = bs"
proof -
  assume "length bs = 4"
  then obtain a b c d where bs: "bs = [a, b, c, d]"
    by (auto simp: numeral_eq_Suc length_Suc_conv)
  have "(ucast (drop_bit (8 * i) (le_word bs)) :: u8) = bs ! i" if "i < 4" for i
  proof (rule bit_eqI)
    fix n assume "possible_bit TYPE(u8) n"
    then have "n < 8" by simp
    moreover have "i = 0 \<or> i = 1 \<or> i = 2 \<or> i = 3" using that by linarith
    ultimately show "bit (ucast (drop_bit (8 * i) (le_word bs)) :: u8) n = bit (bs ! i) n"
      unfolding le_word_def bs
      by (elim disjE) (auto simp: bit_simps dest: bit_imp_le_length)
  qed
  from this [of 0] this [of 1] this [of 2] this [of 3] show ?thesis
    by (simp add: le_bytes_def bs)
qed

text \<open>The size a reader takes from four header bytes, on either host.\<close>

lemma read_header:
  "length bs = 4 \<Longrightarrow>
   (if \<not> little then ConvertBetweenBigAndLittleEndian (load_u32 little bs) else load_u32 little bs)
     = le_word bs"
  by (metis le_bytes_le_word loaded_header)

lemma next_items_loop_sound:
  assumes wf: "sd_wf data"
  shows "next_items_loop little data k p = Returns (Some q) \<Longrightarrow> p \<le> unat (sd_size data) \<Longrightarrow>
     p \<le> q \<and> q \<le> unat (sd_size data)
     \<and> (\<exists>xs. length xs = k \<and> (\<forall>x \<in> set xs. item_ok x)
            \<and> take (q - p) (drop p (sd_bytes data)) = encode_items xs)"
proof (induction k arbitrary: p)
  case (Suc k)
  obtain bs where rd: "sd_read data p 4 = Returns bs"
    using Suc.prems(1) by (cases "sd_read data p 4") simp_all
  then have b4: "length bs = 4" by (auto simp: sd_read_def split: option.splits if_splits)
  define n where "n = unat (le_word bs)"
  have hd: "(if \<not> little then ConvertBetweenBigAndLittleEndian (load_u32 little bs)
      else load_u32 little bs) = le_word bs" using b4 by (rule read_header)
  have al: "4 dvd n" and le: "p + (4 + n) \<le> unat (sd_size data)"
    and rest: "next_items_loop little data k (p + (4 + n)) = Returns (Some q)"
    using Suc.prems(1) rd
    by (auto simp: hd Let_def n_def aligned_iff split: if_splits)
  from Suc.IH [OF rest le] obtain xs where q: "p + (4 + n) \<le> q" "q \<le> unat (sd_size data)"
    and xs: "length xs = k" "\<forall>x \<in> set xs. item_ok x"
    "take (q - (p + (4 + n))) (drop (p + (4 + n)) (sd_bytes data)) = encode_items xs"
    by blast
  define x where "x = take n (drop (p + 4) (sd_bytes data))"
  have lx: "length x = n" using le length_sd_bytes [OF wf] by (simp add: x_def)
  have ok: "item_ok x" using al lx unat_lt_pow [of "le_word bs"] by (simp add: item_ok_def n_def)
  have "bs = take 4 (drop p (sd_bytes data))"
    using rd sd_read_bytes [OF wf, of p 4] le by simp
  moreover have "le_bytes (word_of_nat (length x)) = bs"
    using b4 by (simp add: lx n_def le_bytes_le_word)
  ultimately have ex: "encode_item x = take (4 + n) (drop p (sd_bytes data))"
    unfolding encode_item_def take_add by (simp add: x_def drop_drop add.commute)
  have "take (q - p) (drop p (sd_bytes data))
      = take (4 + n) (drop p (sd_bytes data)) @ take (q - (p + (4 + n))) (drop (p + (4 + n)) (sd_bytes data))"
  proof -
    have "q - p = (4 + n) + (q - (p + (4 + n)))" using q(1) by linarith
    then show ?thesis by (simp only: take_add drop_drop) (simp add: add.commute)
  qed
  then have "take (q - p) (drop p (sd_bytes data)) = encode_items (x # xs)"
    using ex xs(3) by simp
  then show ?case using q xs(1,2) ok
    by (intro conjI exI [of _ "x # xs"]) auto
qed simp

lemma several_items_size:
  assumes mem: "sd_mem data = encode_items (before @ xs) @ post"
    and size: "length (encode_items (before @ xs)) \<le> unat (sd_size data)"
    and ok: "\<forall>x \<in> set (before @ xs). item_ok x"
  shows "SerializedDataNextSeveralItemSize little data
           (word_of_nat (length (encode_items before))) (word_of_nat (length xs))
         = Returns (word_of_nat (length (encode_items xs)))"
proof -
  have tot: "length (encode_items before) + length (encode_items xs) < 2 ^ 32"
    using size unat_lt_pow [of "sd_size data"] by simp
  then have u: "unat (word_of_nat (length (encode_items before)) :: u32) = length (encode_items before)"
    "unat (word_of_nat (length xs) :: u32) = length xs"
    using four_times_count [of xs] by (simp_all add: unat_of_nat)
  have "next_items_loop little data (length xs) (length (encode_items before))
      = Returns (Some (length (encode_items before) + length (encode_items xs)))"
    using next_items_loop_encoded [of data "encode_items before" xs post] mem size ok by simp
  moreover have "4 dvd length (encode_items before)" using ok by (simp add: dvd_encode_items)
  ultimately show ?thesis
    by (simp add: SerializedDataNextSeveralItemSize_def aligned_iff u)
qed

lemma sd_mem_bytes: "sd_mem data = sd_bytes data @ drop (unat (sd_size data)) (sd_mem data)"
  by (simp add: sd_bytes_def)

text \<open>
  the reader inverts the writer. In a well-formed container that holds a sequence of items,
  \<^verbatim>\<open>SerializedDataNextSeveralItemSize\<close> called at the start of an item and asked for the next
  items answers the number of bytes they take, whatever the byte order of the host.
\<close>

theorem next_several_items_size:
  assumes wf: "sd_wf data" and bytes: "sd_bytes data = encode_items (before @ xs @ behind)"
    and ok: "\<forall>x \<in> set (before @ xs @ behind). item_ok x"
  shows "SerializedDataNextSeveralItemSize little data
           (word_of_nat (length (encode_items before))) (word_of_nat (length xs))
         = Returns (word_of_nat (length (encode_items xs)))"
proof (rule several_items_size)
  show "sd_mem data = encode_items (before @ xs) @ encode_items behind @ drop (unat (sd_size data)) (sd_mem data)"
    using sd_mem_bytes [of data] bytes by simp
  show "length (encode_items (before @ xs)) \<le> unat (sd_size data)"
    using length_sd_bytes [OF wf] bytes by simp
qed (use ok in auto)

text \<open>
  what the reader accepts is well-formed. For arbitrary bytes, such as a request received from
  a peer, if \<^verbatim>\<open>SerializedDataNextSeveralItemSize\<close> returns without reading outside of the buffer and
  the answer is not -1, then the bytes it covers lie within the bytes in use and are the encoding of
  exactly the number of items asked for.
\<close>

theorem next_several_items_sound:
  assumes wf: "sd_wf data" and start: "start \<le> sd_size data"
    and ret: "SerializedDataNextSeveralItemSize little data start itemCount = Returns n"
    and ok: "n \<noteq> - 1"
  shows "unat start + unat n \<le> unat (sd_size data)
     \<and> (\<exists>xs. length xs = unat itemCount \<and> (\<forall>x \<in> set xs. item_ok x)
          \<and> take (unat n) (drop (unat start) (sd_bytes data)) = encode_items xs)"
proof -
  obtain q where loop: "next_items_loop little data (unat itemCount) (unat start) = Returns (Some q)"
    and n: "n = word_of_nat q - start"
    using ret ok
    by (auto simp: SerializedDataNextSeveralItemSize_def run_bind_Returns_iff
        split: if_splits option.splits)
  have s: "unat start \<le> unat (sd_size data)" using start by (simp add: word_le_nat_alt)
  from next_items_loop_sound [OF wf loop s] obtain xs
    where q: "unat start \<le> q" "q \<le> unat (sd_size data)"
      and xs: "length xs = unat itemCount" "\<forall>x \<in> set xs. item_ok x"
      "take (q - unat start) (drop (unat start) (sd_bytes data)) = encode_items xs"
    by blast
  have "unat (word_of_nat q :: u32) = q"
    using q(2) unat_lt_pow [of "sd_size data"] by (simp add: unat_of_nat)
  then have "unat n = q - unat start" using q(1) by (simp add: n unat_minus_small)
  then show ?thesis using q xs by auto
qed

text \<open>
  the header of an item is read before the bounds are checked. In a container whose buffer is
  full, asking for one more item at the end of the bytes in use reads four bytes behind the buffer.
\<close>

theorem next_several_items_overread:
  assumes "sd_wf data" and "sd_capacity data = sd_size data" and "itemCount \<noteq> 0"
  shows "SerializedDataNextSeveralItemSize little data (sd_size data) itemCount = Faults"
proof -
  obtain k where "unat itemCount = Suc k"
    using assms(3) by (metis not0_implies_Suc unat_eq_0)
  moreover have "sd_read data (unat (sd_size data)) 4 = Faults"
    using assms(1,2) by (auto simp: sd_read_def sd_wf_def sd_mem_def split: option.splits)
  ultimately show ?thesis
    using assms(1) by (simp add: SerializedDataNextSeveralItemSize_def aligned_iff sd_wf_def)
qed

section \<open>Concrete containers\<close>

definition one_item_sd :: SerializedData where
  "one_item_sd = \<lparr>sd_buffer = Some (encode_item [7, 0, 0, 0]), sd_size = 8, sd_capacity = 8,
                 sd_memoryManager = None\<rparr>"

lemma one_item_sd_wf: "sd_wf one_item_sd" "sd_bytes one_item_sd = encode_item [7, 0, 0, 0]"
  by (simp_all add: sd_wf_def sd_bytes_def one_item_sd_def sd_mem_def)

lemma one_item_ok: "item_ok [7, 0, 0, 0]"
  by (auto simp: item_ok_def intro: dvdI [of _ _ 1])

theorem next_several_items_size_witness:
  "SerializedDataNextSeveralItemSize False one_item_sd 0 1 = Returns 8"
  using next_several_items_size [OF one_item_sd_wf(1), of "[]" "[[7, 0, 0, 0]]" "[]" False]
  by (simp add: one_item_sd_wf one_item_ok)

theorem next_several_items_sound_witness:
  "\<exists>xs. length xs = 1 \<and> take 8 (sd_bytes one_item_sd) = encode_items xs"
proof -
  have "SerializedDataNextSeveralItemSize True one_item_sd 0 1 = Returns 8"
    by (simp add: SerializedDataNextSeveralItemSize_def one_item_sd_def sd_read_def
        encode_item_def le_bytes_def load_u32_def le_word_def cuckoo_defs)
  from next_several_items_sound [OF one_item_sd_wf(1) _ this] show ?thesis by auto
qed

theorem next_several_items_overread_witness:
  "SerializedDataNextSeveralItemSize True one_item_sd (sd_size one_item_sd) 1 = Faults"
  by (rule next_several_items_overread [OF one_item_sd_wf(1)]) (simp_all add: one_item_sd_def)

end
