(* ===== verification/Shmem_Allocator.thy ===== *)
theory Shmem_Allocator
  imports Cuckoo_Prelude
begin

text \<open>
  The shared-memory allocator of \<^verbatim>\<open>cuckoo/utils/cuckoo_shmem_allocator.c\<close>. A page of 1 MiB has a
  64-bit control word with one bit per 16 KiB unit; an allocation of level \<open>l\<close> takes an aligned run
  of \<open>2 ^ (6 - l)\<close> units. The shared words are lists of \<open>u64\<close>; the header in front of each block is
  a map from the block's shift to a record. Products that C evaluates in \<^verbatim>\<open>uint32_t\<close> are evaluated
  in \<open>u32\<close> here. The operations are given as a process that runs alone sees them, and the control
  word also as the sequence of values other processes leave in it between two attempts.
\<close>

section \<open>Compiler intrinsics\<close>

text \<open>
  \<^verbatim>\<open>__builtin_ctzll\<close> and \<^verbatim>\<open>__builtin_clzll\<close> on a non-zero argument.
\<close>

definition ctzll :: "u64 \<Rightarrow> nat" where
  "ctzll w = hd (filter (bit w) [0..<64])"

definition clzll :: "u64 \<Rightarrow> nat" where
  "clzll w = 63 - last (filter (bit w) [0..<64])"

section \<open>Constants\<close>

definition STATE_BIT_COUNT :: u64 where [cuckoo_defs]: "STATE_BIT_COUNT = 64"
definition FREE_LIST_COUNT :: nat where [cuckoo_defs]: "FREE_LIST_COUNT = 7"
definition PAGE_SIZE :: u64 where [cuckoo_defs]: "PAGE_SIZE = 1024 * 1024"
definition MIN_BLOCK_SIZE :: u64 where [cuckoo_defs]: "MIN_BLOCK_SIZE = 1024 * 1024 div 64"
definition PADDED_SIZE :: u64 where [cuckoo_defs]: "PADDED_SIZE = 128"
definition HDR_SIZE :: u64 where [cuckoo_defs]: "HDR_SIZE = 24"

definition LevelBlockMask :: "u64 list" where
  "LevelBlockMask = [0x0000000000000001, 0x0000000100000001, 0x0001000100010001,
     0x0101010101010101, 0x1111111111111111, 0x5555555555555555, 0xFFFFFFFFFFFFFFFF]"

definition LevelBlockOccupyBitMap :: "u64 list" where
  "LevelBlockOccupyBitMap = [0xFFFFFFFFFFFFFFFF, 0x00000000FFFFFFFF, 0x000000000000FFFF,
     0x00000000000000FF, 0x000000000000000F, 0x0000000000000003, 0x0000000000000001]"

section \<open>State\<close>

record MemoryHdr =
  hdr_signature :: u64
  hdr_size :: u64
  hdr_capacity :: u64

text \<open>
  \<open>sa_hdr\<close> is the header found at a shift from \<^verbatim>\<open>allocatableSpaceBase\<close>.
\<close>

record ShmemAllocator =
  sa_size :: u64
  sa_pageCount :: u32
  sa_signatureCounter :: u64
  sa_freeListHint :: "u64 list"
  sa_pageCntlArray :: "u64 list"
  sa_hdr :: "u64 \<Rightarrow> MemoryHdr"

text \<open>
  \<^verbatim>\<open>CuckooShmemAllocatorInit\<close>: the page count, or \<open>None\<close> for -1, and the byte offsets of the hint
  array, the control words and the allocatable space within the segment.
\<close>

definition CuckooShmemAllocatorInit :: "u64 \<Rightarrow> (u32 \<times> u64 \<times> u64 \<times> u64) option" where
  "CuckooShmemAllocatorInit sz =
     (let pageCount = ucast ((sz - PADDED_SIZE * (1 + word_of_nat FREE_LIST_COUNT))
                             div (PADDED_SIZE + PAGE_SIZE)) :: u32;
          freeListHint = PADDED_SIZE;
          pageCntlArray = freeListHint + PADDED_SIZE * word_of_nat FREE_LIST_COUNT;
          allocatableSpaceBase = pageCntlArray + PADDED_SIZE * ucast pageCount
      in if pageCount = 0 then None
         else Some (pageCount, freeListHint, pageCntlArray, allocatableSpaceBase))"

definition CuckooShmemAllocatorGetUniqueSignature ::
    "ShmemAllocator \<Rightarrow> u64 \<times> ShmemAllocator" where
  "CuckooShmemAllocatorGetUniqueSignature al =
     (sa_signatureCounter al + 1, al\<lparr>sa_signatureCounter := sa_signatureCounter al + 1\<rparr>)"

definition GetNextPowerOfTwo :: "u64 \<Rightarrow> u64" where
  "GetNextPowerOfTwo num =
     (if num = 0 \<or> num AND push_bit 63 1 \<noteq> 0 then 0
      else if num = 1 then 1
      else push_bit (64 - clzll (num - 1)) 1)"

section \<open>One control word\<close>

text \<open>
  The loop that folds the unit bitmap into the bitmap of a level: \<open>j\<close> counts down to \<open>level\<close>.
\<close>

function level_bitmap_loop :: "nat \<Rightarrow> nat \<Rightarrow> nat \<Rightarrow> u64 \<Rightarrow> u64" where
  "level_bitmap_loop j level shift bitmap =
     (if j > level
      then level_bitmap_loop (j - 1) level (shift * 2)
             ((drop_bit shift bitmap OR bitmap) AND LevelBlockMask ! (j - 1))
      else bitmap)"
  by pat_completeness auto
termination by (relation "measure (\<lambda>(j, level, _). j - level)") auto

definition level_bitmap :: "nat \<Rightarrow> u64 \<Rightarrow> u64" where
  "level_bitmap level bitmap = level_bitmap_loop (FREE_LIST_COUNT - 1) level 1 bitmap"

text \<open>
  The part of the loop body before the compare-and-swap: \<open>None\<close> is the \<^verbatim>\<open>break\<close> on a page with no
  room, otherwise the first unit of the block and the value to swap in.
\<close>

definition page_attempt :: "nat \<Rightarrow> u64 \<Rightarrow> (nat \<times> u64) option" where
  "page_attempt level bitmap =
     (if level = 0 then (if bitmap \<noteq> 0 then None else Some (0, NOT 0))
      else let lb = level_bitmap level bitmap in
        if lb = LevelBlockMask ! level then None
        else let firstEmptyBlockInLevel = ctzll (NOT lb AND LevelBlockMask ! level) in
          Some (firstEmptyBlockInLevel,
                bitmap OR push_bit firstEmptyBlockInLevel (LevelBlockOccupyBitMap ! level)))"

text \<open>
  The loop around it. The list holds what the compare-and-swap of each round finds in the control
  word; a failed one continues with that value. \<open>None\<close>: the list ended while still trying;
  \<open>Some None\<close>: no room; \<open>Some (Some (b, v))\<close>: block \<open>b\<close> taken by swapping in \<open>v\<close>.
\<close>

primrec page_loop :: "nat \<Rightarrow> u64 list \<Rightarrow> u64 \<Rightarrow> (nat \<times> u64) option option" where
  "page_loop level [] bitmap = None"
| "page_loop level (found # later) bitmap =
     (case page_attempt level bitmap of
        None \<Rightarrow> Some None
      | Some (b, desired) \<Rightarrow>
          if found = bitmap then Some (Some (b, desired)) else page_loop level later found)"

section \<open>Allocation and release\<close>

text \<open>
  The shift of a block: \<^verbatim>\<open>PAGE_SIZE * pageNo\<close> multiplies an \<^verbatim>\<open>int\<close> by a \<^verbatim>\<open>uint32_t\<close>.
\<close>

definition block_shift :: "u32 \<Rightarrow> nat \<Rightarrow> u64" where
  "block_shift pageNo b = ucast ((1024 * 1024 :: u32) * pageNo + (1024 * 1024 div 64) * word_of_nat b)"

definition required_size :: "u64 \<Rightarrow> u64" where
  "required_size sz =
     (let requiredSize = sz + HDR_SIZE in
      if requiredSize < MIN_BLOCK_SIZE then MIN_BLOCK_SIZE else GetNextPowerOfTwo requiredSize)"

definition size_level :: "u64 \<Rightarrow> nat" where
  "size_level requiredSize = ctzll PAGE_SIZE - ctzll requiredSize"

text \<open>The first page of the list with room, with the block and the new control word.\<close>

primrec scan_pages :: "u64 list \<Rightarrow> nat \<Rightarrow> nat list \<Rightarrow> (nat \<times> nat \<times> u64) option" where
  "scan_pages pages level [] = None"
| "scan_pages pages level (p # ps) =
     (case page_loop level [pages ! p] (pages ! p) of
        Some (Some (b, desired)) \<Rightarrow> Some (p, b, desired)
      | _ \<Rightarrow> scan_pages pages level ps)"

text \<open>The update of the hint after a successful first scan and after a successful second scan.\<close>

definition hint_first_scan :: "u64 \<Rightarrow> bool \<Rightarrow> u32 \<Rightarrow> u64 \<Rightarrow> u64" where
  "hint_first_scan start pageIsFull pageNo hint =
     (if pageIsFull \<or> ucast pageNo \<noteq> start
      then (if hint = start then ucast (if pageIsFull then pageNo + 1 else pageNo) else hint)
      else hint)"

definition hint_lower :: "u64 \<Rightarrow> u64 \<Rightarrow> u64" where
  "hint_lower pageNo hint = (if hint \<le> pageNo then hint else pageNo)"

definition malloc_scan :: "ShmemAllocator \<Rightarrow> u64 \<Rightarrow> u64 \<Rightarrow> nat \<Rightarrow> bool \<Rightarrow> (u64 \<times> ShmemAllocator) option" where
  "malloc_scan al sz requiredSize level firstScan =
     (let start = (if firstScan then sa_freeListHint al ! level else 0) in
      case scan_pages (sa_pageCntlArray al) level
             [unat (ucast start :: u32) ..< unat (sa_pageCount al)] of
        None \<Rightarrow> None
      | Some (p, b, desired) \<Rightarrow>
          let pageNo = word_of_nat p :: u32;
              allocatedShift = block_shift pageNo b;
              pageIsFull = (level \<noteq> 0 \<and> allocatedShift + requiredSize = PAGE_SIZE);
              hint = sa_freeListHint al ! level;
              newHint = (if firstScan then hint_first_scan start pageIsFull pageNo hint
                         else if \<not> pageIsFull then hint_lower (ucast pageNo) hint else hint)
          in Some (allocatedShift + HDR_SIZE,
                   al\<lparr>sa_pageCntlArray := (sa_pageCntlArray al)[p := desired],
                      sa_freeListHint := (sa_freeListHint al)[level := newHint],
                      sa_hdr := (sa_hdr al)(allocatedShift :=
                        \<lparr>hdr_signature = 0, hdr_size = sz, hdr_capacity = requiredSize\<rparr>)\<rparr>))"

definition CuckooShmemAllocatorMalloc :: "ShmemAllocator \<Rightarrow> u64 \<Rightarrow> u64 \<times> ShmemAllocator" where
  "CuckooShmemAllocatorMalloc al sz =
     (if sz > PAGE_SIZE - HDR_SIZE then (0, al)
      else let requiredSize = required_size sz;
               level = size_level requiredSize in
        case malloc_scan al sz requiredSize level True of
          Some r \<Rightarrow> r
        | None \<Rightarrow> (case malloc_scan al sz requiredSize level False of
                     Some r \<Rightarrow> r
                   | None \<Rightarrow> (0, al)))"

definition CuckooShmemAllocatorFree :: "ShmemAllocator \<Rightarrow> u64 \<Rightarrow> ShmemAllocator run" where
  "CuckooShmemAllocatorFree al shift0 =
     (let shift = shift0 - HDR_SIZE;
          capacity = hdr_capacity (sa_hdr al shift) in
      if capacity < MIN_BLOCK_SIZE \<or> capacity > PAGE_SIZE then Returns al
      else let level = ctzll PAGE_SIZE - ctzll capacity in
        if capacity \<noteq> drop_bit level PAGE_SIZE then Returns al
        else let pageNo = shift div PAGE_SIZE;
                 blockNo = unat (ucast (shift div MIN_BLOCK_SIZE - pageNo * STATE_BIT_COUNT) :: u32);
                 occupyBitmap = push_bit blockNo (LevelBlockOccupyBitMap ! level);
                 p = unat pageNo in
          if p < length (sa_pageCntlArray al)
          then Returns (al\<lparr>
                 sa_pageCntlArray := (sa_pageCntlArray al)
                   [p := sa_pageCntlArray al ! p AND NOT occupyBitmap],
                 sa_freeListHint := (sa_freeListHint al)
                   [level := hint_lower pageNo (sa_freeListHint al ! level)]\<rparr>)
          else Faults)"

section \<open>The tables\<close>

lemma LevelBlockMask_table:
  "list_all (\<lambda>l. list_all (\<lambda>n. bit (LevelBlockMask ! l) n = (n mod 2 ^ (6 - l) = 0)) [0..<64]) [0..<7]"
  unfolding LevelBlockMask_def by code_simp

lemma LevelBlockOccupyBitMap_table:
  "list_all (\<lambda>l. LevelBlockOccupyBitMap ! l = mask (2 ^ (6 - l))) [0..<7]"
  unfolding LevelBlockOccupyBitMap_def by code_simp

text \<open>The number of 16 KiB units of a block of a level, and the units a block covers.\<close>

definition units :: "nat \<Rightarrow> nat" where
  "units level = 2 ^ (6 - level)"

definition span :: "nat \<Rightarrow> nat \<Rightarrow> nat set" where
  "span level b = {b ..< b + units level}"

definition used :: "u64 \<Rightarrow> nat set" where
  "used w = {n. bit w n}"

lemma used_bound: "n \<in> used w \<Longrightarrow> n < 64"
  by (auto simp: used_def dest: bit_imp_le_length)

lemma used_inject: "used v = used w \<Longrightarrow> v = w"
  by (auto simp: used_def intro!: bit_eqI)

lemma units_pos [simp]: "0 < units l"
  by (simp add: units_def)

lemma units_dvd_64 [simp]: "units l dvd 64"
  using le_imp_power_dvd [of "6 - l" 6 "2 :: nat"] by (simp add: units_def)

lemma units_le_64: "units l \<le> 64"
  by (rule dvd_imp_le) simp_all

lemma bit_LevelBlockMask:
  assumes "l \<le> 6" shows "bit (LevelBlockMask ! l) n \<longleftrightarrow> n < 64 \<and> units l dvd n"
proof (cases "n < 64")
  case True
  then show ?thesis using LevelBlockMask_table assms
    by (auto simp: list_all_iff units_def dvd_eq_mod_eq_0)
qed (auto dest: bit_imp_le_length)

lemma LevelBlockOccupyBitMap_nth:
  "l \<le> 6 \<Longrightarrow> LevelBlockOccupyBitMap ! l = mask (units l)"
  using LevelBlockOccupyBitMap_table by (simp add: list_all_iff units_def)

lemma aligned_span_fits:
  assumes "units l dvd b" "b < 64" shows "b + units l \<le> 64"
proof -
  obtain q where "b = units l * q" using assms(1) by blast
  moreover obtain m where m: "64 = units l * m" using units_dvd_64 by blast
  ultimately have "units l * q < units l * m" using assms(2) by simp
  then have "Suc q \<le> m" by simp
  then have "units l * Suc q \<le> units l * m" by (rule mult_le_mono2)
  then show ?thesis using \<open>b = _\<close> m by (simp add: algebra_simps)
qed

lemma aligned_spans_disjoint_or_nested:
  assumes "units l dvd b" "units l' dvd b'" "l \<le> l'"
  shows "span l b \<inter> span l' b' = {} \<or> span l' b' \<subseteq> span l b"
proof -
  have "units l' dvd units l" unfolding units_def using assms(3) by (intro le_imp_power_dvd) simp
  then obtain m where m: "units l = units l' * m" by blast
  obtain q q' where q: "b = units l' * q" "b' = units l' * q'"
    using assms(1,2) \<open>units l' dvd units l\<close> by (meson dvd_def dvd_trans)
  have "m > 0" using m units_pos [of l] by (cases m) simp_all
  consider "q' < q" | "q \<le> q'" "q' < q + m" | "q + m \<le> q'" by linarith
  then show ?thesis
  proof cases
    case 1
    then have "units l' * Suc q' \<le> units l' * q" by (intro mult_le_mono2) simp
    then show ?thesis by (auto simp: span_def q algebra_simps)
  next
    case 2
    then have "units l' * Suc q' \<le> units l' * (q + m)" "units l' * q \<le> units l' * q'"
      by (intro mult_le_mono2; simp)+
    then show ?thesis by (auto simp: span_def q m algebra_simps)
  next
    case 3
    then have "units l' * (q + m) \<le> units l' * q'" by (intro mult_le_mono2) simp
    then show ?thesis by (auto simp: span_def q m algebra_simps)
  qed
qed

section \<open>The level bitmap\<close>

declare level_bitmap_loop.simps [simp del]

lemma span_double:
  assumes "l > 0" "l \<le> 6"
  shows "span (l - 1) b = span l b \<union> span l (b + units l)"
proof -
  have "6 - (l - 1) = Suc (6 - l)" using assms by simp
  then have "units (l - 1) = units l + units l" by (simp add: units_def)
  then show ?thesis by (auto simp: span_def)
qed

lemma level_bitmap_loop_bit:
  assumes "level \<le> j" "j \<le> 6"
    and "\<And>n. bit bm n \<longleftrightarrow> n < 64 \<and> units j dvd n \<and> span j n \<inter> used w \<noteq> {}"
  shows "bit (level_bitmap_loop j level (units j) bm) n
     \<longleftrightarrow> n < 64 \<and> units level dvd n \<and> span level n \<inter> used w \<noteq> {}"
  using assms
proof (induction "j - level" arbitrary: j bm n)
  case 0
  then show ?case by (subst level_bitmap_loop.simps) simp
next
  case (Suc d)
  then have j: "level < j" "j \<le> 6" "level \<le> j - 1" "d = (j - 1) - level" by simp_all
  have two: "units j * 2 = units (j - 1)"
  proof -
    have "6 - (j - 1) = Suc (6 - j)" using j by simp
    then show ?thesis by (simp add: units_def)
  qed
  let ?bm = "(drop_bit (units j) bm OR bm) AND LevelBlockMask ! (j - 1)"
  have "bit ?bm n \<longleftrightarrow> n < 64 \<and> units (j - 1) dvd n \<and> span (j - 1) n \<inter> used w \<noteq> {}" for n
  proof (cases "n < 64 \<and> units (j - 1) dvd n")
    case True
    have "units j dvd units (j - 1)" using two by (metis dvd_triv_left)
    then have "units j dvd n" "n + units j < 64"
      using True aligned_span_fits [of "j - 1" n] two units_pos [of j]
      by (auto intro: dvd_trans)
    moreover have "span (j - 1) n = span j n \<union> span j (n + units j)"
      using span_double [of j n] j by simp
    ultimately show ?thesis
      using True Suc.prems(3) j
      by (auto simp: bit_simps bit_LevelBlockMask add.commute)
  next
    case False
    then show ?thesis using j by (auto simp: bit_simps bit_LevelBlockMask)
  qed
  with Suc.hyps(1) [OF j(4), of ?bm] j show ?case
    by (subst level_bitmap_loop.simps) (simp add: two)
qed

lemma bit_level_bitmap:
  assumes "level \<le> 6"
  shows "bit (level_bitmap level w) n
     \<longleftrightarrow> n < 64 \<and> units level dvd n \<and> span level n \<inter> used w \<noteq> {}"
proof -
  have "bit w n \<longleftrightarrow> n < 64 \<and> units 6 dvd n \<and> span 6 n \<inter> used w \<noteq> {}" for n
    by (auto simp: units_def span_def used_def dest: bit_imp_le_length)
  from level_bitmap_loop_bit [OF assms _ this] show ?thesis
    by (simp add: level_bitmap_def FREE_LIST_COUNT_def units_def)
qed

lemma ctzll_least:
  assumes "w \<noteq> 0"
  shows "bit w (ctzll w)" "ctzll w < 64" "n < ctzll w \<Longrightarrow> \<not> bit w n"
proof -
  have "\<exists>n. n < 64 \<and> bit w n"
    using assms by (auto simp: bit_eq_iff dest: bit_imp_le_length)
  then have ne: "filter (bit w) [0..<64] \<noteq> []" by (auto simp: filter_empty_conv)
  have sorted: "sorted (filter (bit w) [0..<64])" by (simp add: sorted_wrt_filter)
  have "ctzll w \<in> set (filter (bit w) [0..<64])"
    unfolding ctzll_def using ne by (rule hd_in_set)
  then show b: "bit w (ctzll w)" "ctzll w < 64" by auto
  show "\<not> bit w n" if "n < ctzll w"
  proof
    assume "bit w n"
    then have "n \<in> set (filter (bit w) [0..<64])" using that b by auto
    then have "ctzll w \<le> n" unfolding ctzll_def
      using sorted ne by (cases "filter (bit w) [0..<64]") auto
    then show False using that by simp
  qed
qed

section \<open>One attempt on one control word\<close>

text \<open>An attempt takes the lowest free aligned block of the level, and fails only if there is none.\<close>

lemma page_attempt_Some:
  assumes l: "l \<le> 6" and at: "page_attempt l w = Some (b, d)"
  shows "units l dvd b" "b < 64" "span l b \<inter> used w = {}" "used d = used w \<union> span l b"
    "\<And>c. c < b \<Longrightarrow> units l dvd c \<Longrightarrow> span l c \<inter> used w \<noteq> {}"
proof -
  have goal: "units l dvd b \<and> b < 64 \<and> span l b \<inter> used w = {} \<and> used d = used w \<union> span l b
     \<and> (\<forall>c. c < b \<longrightarrow> units l dvd c \<longrightarrow> span l c \<inter> used w \<noteq> {})"
  proof (cases "l = 0")
    case True
    then have "b = 0" "d = NOT 0" "w = 0"
      using at by (auto simp: page_attempt_def split: if_splits)
    then show ?thesis using True
      by (auto simp: units_def span_def used_def bit_simps)
  next
    case False
    let ?lb = "level_bitmap l w" let ?free = "NOT ?lb AND LevelBlockMask ! l"
    have b: "?lb \<noteq> LevelBlockMask ! l" "b = ctzll ?free"
      "d = w OR push_bit b (LevelBlockOccupyBitMap ! l)"
      using at False by (auto simp: page_attempt_def Let_def split: if_splits)
    have fr: "bit ?free n \<longleftrightarrow> n < 64 \<and> units l dvd n \<and> span l n \<inter> used w = {}" for n
      using l by (auto simp: bit_simps bit_LevelBlockMask bit_level_bitmap)
    have "?free \<noteq> 0"
    proof
      assume "?free = 0"
      then have "\<not> bit ?free n" for n by simp
      then have "bit ?lb n = bit (LevelBlockMask ! l) n" for n
        using fr l by (auto simp: bit_LevelBlockMask bit_level_bitmap)
      then have "?lb = LevelBlockMask ! l" by (simp add: bit_eq_iff)
      then show False using b by simp
    qed
    from ctzll_least [OF this] b(2) have bb: "bit ?free b" "\<And>n. n < b \<Longrightarrow> \<not> bit ?free n" by simp_all
    then have 1: "units l dvd b" "b < 64" "span l b \<inter> used w = {}" using fr by simp_all
    have "used d = used w \<union> span l b"
      using 1 aligned_span_fits [of l b] l
      by (auto simp: used_def b(3) LevelBlockOccupyBitMap_nth bit_simps span_def)
    moreover have "span l c \<inter> used w \<noteq> {}" if "c < b" "units l dvd c" for c
      using bb(2) [OF that(1)] fr [of c] that 1(2) by auto
    ultimately show ?thesis using 1 by blast
  qed
  then show "units l dvd b" "b < 64" "span l b \<inter> used w = {}" "used d = used w \<union> span l b"
    "\<And>c. c < b \<Longrightarrow> units l dvd c \<Longrightarrow> span l c \<inter> used w \<noteq> {}" by blast+
qed

lemma page_attempt_None:
  assumes l: "l \<le> 6" and "page_attempt l w = None" and "units l dvd b" "b < 64"
  shows "span l b \<inter> used w \<noteq> {}"
proof (cases "l = 0")
  case True
  then have "w \<noteq> 0" using assms(2) by (auto simp: page_attempt_def)
  then obtain n where "bit w n" by (auto simp: bit_eq_iff)
  then have "n \<in> {0..<64} \<inter> {n. bit w n}" by (auto dest: bit_imp_le_length)
  moreover have "b = 0" using True assms(3,4) by (auto simp: units_def dvd_def)
  ultimately show ?thesis using True by (auto simp: span_def units_def used_def)
next
  case False
  then have "level_bitmap l w = LevelBlockMask ! l"
    using assms(2) by (auto simp: page_attempt_def Let_def split: if_splits)
  then have "bit (level_bitmap l w) b" using assms by (simp add: bit_LevelBlockMask)
  then show ?thesis using l by (simp add: bit_level_bitmap)
qed

text \<open>Releasing a block clears exactly its units.\<close>

lemma used_release:
  "l \<le> 6 \<Longrightarrow> used (w AND NOT (push_bit b (LevelBlockOccupyBitMap ! l))) = used w - span l b"
  by (auto simp: used_def LevelBlockOccupyBitMap_nth bit_simps span_def dest: bit_imp_le_length)

section \<open>Ownership of blocks\<close>

text \<open>
  The contract of a control word: an attempt takes units nobody has and marks exactly those, a
  release unmarks exactly the units it is given. What follows is proved from the contract alone:
  the blocks owned on a page are pairwise disjoint and are what the word marks.
\<close>

definition owns :: "('w \<Rightarrow> nat set) \<Rightarrow> ('l \<Rightarrow> nat \<Rightarrow> nat set) \<Rightarrow> 'w \<Rightarrow> ('l \<times> nat) list \<Rightarrow> bool" where
  "owns marked covers w bs \<longleftrightarrow>
     marked w = (\<Union>(l, b) \<in> set bs. covers l b)
     \<and> sorted_wrt (\<lambda>x y. covers (fst x) (snd x) \<inter> covers (fst y) (snd y) = {}) bs"

locale control_word =
  fixes attempt :: "'l \<Rightarrow> 'w \<Rightarrow> (nat \<times> 'w) option"
    and release :: "'l \<Rightarrow> nat \<Rightarrow> 'w \<Rightarrow> 'w"
    and marked :: "'w \<Rightarrow> nat set"
    and covers :: "'l \<Rightarrow> nat \<Rightarrow> nat set"
    and level_ok :: "'l \<Rightarrow> bool"
  assumes attempt_fresh:
      "level_ok l \<Longrightarrow> attempt l w = Some (b, d) \<Longrightarrow>
       covers l b \<inter> marked w = {} \<and> marked d = marked w \<union> covers l b"
    and release_exact: "level_ok l \<Longrightarrow> marked (release l b w) = marked w - covers l b"
begin

lemma attempt_owns:
  assumes "owns marked covers w bs" and "level_ok l" and "attempt l w = Some (b, d)"
  shows "owns marked covers d ((l, b) # bs)"
proof -
  have fresh: "covers l b \<inter> marked w = {}" "marked d = marked w \<union> covers l b"
    using attempt_fresh [OF assms(2,3)] by simp_all
  have "covers l b \<inter> covers k c = {}" if "(k, c) \<in> set bs" for k c
    using fresh(1) assms(1) that unfolding owns_def by blast
  then show ?thesis using assms(1) fresh(2) by (auto simp: owns_def)
qed

lemma sorted_wrt_remove1_disjoint:
  assumes "sorted_wrt (\<lambda>x y. covers (fst x) (snd x) \<inter> covers (fst y) (snd y) = {}) bs"
    and "x \<in> set bs" and "y \<in> set (remove1 x bs)"
  shows "covers (fst x) (snd x) \<inter> covers (fst y) (snd y) = {}"
  using assms by (induction bs) (auto split: if_splits dest: notin_set_remove1)

lemma release_owns:
  assumes own: "owns marked covers w bs" and ok: "level_ok l" and mem: "(l, b) \<in> set bs"
  shows "owns marked covers (release l b w) (remove1 (l, b) bs)"
proof -
  let ?R = "\<lambda>x y. covers (fst x) (snd x) \<inter> covers (fst y) (snd y) = {}"
  have sorted: "sorted_wrt ?R bs" and m: "marked w = (\<Union>(l, b) \<in> set bs. covers l b)"
    using own by (simp_all add: owns_def)
  have dis: "covers l b \<inter> covers k c = {}" if "(k, c) \<in> set (remove1 (l, b) bs)" for k c
    using sorted_wrt_remove1_disjoint [OF sorted mem that] by simp
  have "set bs = insert (l, b) (set (remove1 (l, b) bs))"
    using mem by (induction bs) auto
  then have "marked w - covers l b = (\<Union>(k, c) \<in> set (remove1 (l, b) bs). covers k c)"
    using dis unfolding m by fastforce
  moreover have "sorted_wrt ?R (remove1 (l, b) bs)"
    using sorted by (induction bs) (auto dest: notin_set_remove1)
  ultimately show ?thesis using release_exact [OF ok] by (simp add: owns_def)
qed

end

definition page_release :: "nat \<Rightarrow> nat \<Rightarrow> u64 \<Rightarrow> u64" where
  "page_release l b w = w AND NOT (push_bit b (LevelBlockOccupyBitMap ! l))"

interpretation cntl: control_word page_attempt page_release used span "\<lambda>l. l \<le> 6"
proof
  fix l w b d
  assume "l \<le> 6" and "page_attempt l w = Some (b, d)"
  then show "span l b \<inter> used w = {} \<and> used d = used w \<union> span l b"
    using page_attempt_Some by blast
next
  fix l b w
  assume "l \<le> (6 :: nat)"
  then show "used (page_release l b w) = used w - span l b"
    by (simp add: page_release_def used_release)
qed

section \<open>Processes sharing the control words\<close>

text \<open>
  A process inside \<^verbatim>\<open>CuckooShmemAllocatorMalloc\<close> has loaded the control word of a page and is about
  to swap; each atomic access is one step. \<open>sh_live\<close> lists the blocks handed out and not yet
  released, as page, level and first unit.
\<close>

datatype thread = Idle | Trying nat nat u64

record shared =
  sh_pages :: "u64 list"
  sh_thread :: "nat \<Rightarrow> thread"
  sh_live :: "(nat \<times> nat \<times> nat) list"

inductive shm_step :: "shared \<Rightarrow> shared \<Rightarrow> bool" where
  step_load:
    "p < length (sh_pages s) \<Longrightarrow> l \<le> 6 \<Longrightarrow> sh_thread s t = Idle \<Longrightarrow>
     shm_step s (s\<lparr>sh_thread := (sh_thread s)(t := Trying p l (sh_pages s ! p))\<rparr>)"
| step_no_room:
    "sh_thread s t = Trying p l w \<Longrightarrow> page_attempt l w = None \<Longrightarrow>
     shm_step s (s\<lparr>sh_thread := (sh_thread s)(t := Idle)\<rparr>)"
| step_cas:
    "sh_thread s t = Trying p l w \<Longrightarrow> page_attempt l w = Some (b, desired) \<Longrightarrow>
     sh_pages s ! p = w \<Longrightarrow>
     shm_step s (s\<lparr>sh_pages := (sh_pages s)[p := desired],
                   sh_thread := (sh_thread s)(t := Idle),
                   sh_live := (p, l, b) # sh_live s\<rparr>)"
| step_cas_fails:
    "sh_thread s t = Trying p l w \<Longrightarrow> page_attempt l w = Some (b, desired) \<Longrightarrow>
     sh_pages s ! p \<noteq> w \<Longrightarrow>
     shm_step s (s\<lparr>sh_thread := (sh_thread s)(t := Trying p l (sh_pages s ! p))\<rparr>)"
| step_free:
    "(p, l, b) \<in> set (sh_live s) \<Longrightarrow>
     shm_step s (s\<lparr>sh_pages := (sh_pages s)[p := page_release l b (sh_pages s ! p)],
                   sh_live := remove1 (p, l, b) (sh_live s)\<rparr>)"

definition shm_init :: "nat \<Rightarrow> shared" where
  "shm_init n = \<lparr>sh_pages = replicate n 0, sh_thread = \<lambda>_. Idle, sh_live = []\<rparr>"

inductive shm_reach :: "nat \<Rightarrow> shared \<Rightarrow> bool" for n where
  "shm_reach n (shm_init n)"
| "shm_reach n s \<Longrightarrow> shm_step s s' \<Longrightarrow> shm_reach n s'"

fun blocks_of :: "nat \<Rightarrow> (nat \<times> nat \<times> nat) list \<Rightarrow> (nat \<times> nat) list" where
  "blocks_of p [] = []"
| "blocks_of p ((q, l, b) # live) = (if p = q then (l, b) # blocks_of p live else blocks_of p live)"

lemma set_blocks_of: "(l, b) \<in> set (blocks_of p live) \<longleftrightarrow> (p, l, b) \<in> set live"
  by (induction p live rule: blocks_of.induct) auto

lemma blocks_of_remove1:
  "blocks_of p (remove1 (q, l, b) live)
     = (if p = q then remove1 (l, b) (blocks_of p live) else blocks_of p live)"
  by (induction p live rule: blocks_of.induct) auto

definition shm_inv :: "shared \<Rightarrow> bool" where
  "shm_inv s \<longleftrightarrow>
     (\<forall>p < length (sh_pages s). owns used span (sh_pages s ! p) (blocks_of p (sh_live s)))
     \<and> (\<forall>p l b. (p, l, b) \<in> set (sh_live s) \<longrightarrow> p < length (sh_pages s) \<and> l \<le> 6)
     \<and> (\<forall>t p l w. sh_thread s t = Trying p l w \<longrightarrow> p < length (sh_pages s) \<and> l \<le> 6)"

lemma shm_inv_init: "shm_inv (shm_init n)"
  by (simp add: shm_inv_def shm_init_def owns_def used_def)

lemma shm_invD:
  assumes "shm_inv s"
  shows "p < length (sh_pages s) \<Longrightarrow> owns used span (sh_pages s ! p) (blocks_of p (sh_live s))"
    and "(p, l, b) \<in> set (sh_live s) \<Longrightarrow> p < length (sh_pages s) \<and> l \<le> 6"
    and "sh_thread s t = Trying p l w \<Longrightarrow> p < length (sh_pages s) \<and> l \<le> 6"
  using assms unfolding shm_inv_def by blast+

lemma shm_inv_step:
  assumes "shm_step s s'" and inv: "shm_inv s" shows "shm_inv s'"
  using assms(1)
proof cases
  case (step_load p l t)
  then show ?thesis using inv by (simp add: shm_inv_def)
next
  case (step_no_room t p l w)
  then show ?thesis using inv by (simp add: shm_inv_def)
next
  case (step_cas t p l w b desired)
  have pl: "p < length (sh_pages s)" "l \<le> 6" using shm_invD(3) [OF inv] step_cas by blast+
  have "owns used span desired ((l, b) # blocks_of p (sh_live s))"
    using shm_invD(1) [OF inv pl(1)] pl step_cas by (intro cntl.attempt_owns [of w]) auto
  then show ?thesis using inv pl step_cas(1) by (simp add: shm_inv_def nth_list_update)
next
  case (step_cas_fails t p l w b desired)
  then have "p < length (sh_pages s)" "l \<le> 6" using shm_invD(3) [OF inv] by blast+
  then show ?thesis using inv step_cas_fails(1) by (simp add: shm_inv_def)
next
  case (step_free p l b)
  have pl: "p < length (sh_pages s)" "l \<le> 6" using shm_invD(2) [OF inv] step_free by blast+
  have "owns used span (page_release l b (sh_pages s ! p)) (remove1 (l, b) (blocks_of p (sh_live s)))"
    using shm_invD(1) [OF inv pl(1)] pl step_free
    by (intro cntl.release_owns) (auto simp: set_blocks_of)
  moreover have "set (remove1 (p, l, b) (sh_live s)) \<subseteq> set (sh_live s)" by (rule set_remove1_subset)
  ultimately show ?thesis using inv step_free(1)
    unfolding shm_inv_def by (simp add: nth_list_update blocks_of_remove1) blast
qed

lemma shm_reach_inv: "shm_reach n s \<Longrightarrow> shm_inv s"
  by (induction rule: shm_reach.induct) (auto intro: shm_inv_init shm_inv_step)

lemma shm_reach_pages: "shm_reach n s \<Longrightarrow> length (sh_pages s) = n"
  by (induction rule: shm_reach.induct) (auto simp: shm_init_def elim: shm_step.cases)

lemma blocks_of_disjoint:
  assumes "sorted_wrt (\<lambda>x y. span (fst x) (snd x) \<inter> span (fst y) (snd y) = {}) (blocks_of p live)"
    and "j < i" "i < length live" "live ! i = (p, l, b)" "live ! j = (p, k, c)"
  shows "span k c \<inter> span l b = {}"
  using assms
proof (induction live arbitrary: i j)
  case (Cons x live)
  obtain i' where i: "i = Suc i'" using Cons.prems(2) by (cases i) simp_all
  have "live ! i' = (p, l, b)" "i' < length live" using Cons.prems(3,4) i by simp_all
  then have mem: "(l, b) \<in> set (blocks_of p live)" unfolding set_blocks_of by (metis nth_mem)
  show ?case
  proof (cases j)
    case 0
    then have "x = (p, k, c)" using Cons.prems(5) by simp
    then have "\<forall>y \<in> set (blocks_of p live). span k c \<inter> span (fst y) (snd y) = {}"
      using Cons.prems(1) by simp
    from bspec [OF this mem] show ?thesis by simp
  next
    case (Suc j')
    have "sorted_wrt (\<lambda>x y. span (fst x) (snd x) \<inter> span (fst y) (snd y) = {}) (blocks_of p live)"
      using Cons.prems(1) by (cases x) (simp split: if_splits)
    from Cons.IH [OF this, of j' i'] show ?thesis using Cons.prems Suc i by simp
  qed
qed simp

lemma owns_bit:
  assumes "owns used span w (blocks_of p live)"
  shows "bit w u \<longleftrightarrow> (\<exists>l b. (p, l, b) \<in> set live \<and> u \<in> span l b)"
proof -
  have "bit w u \<longleftrightarrow> u \<in> used w" by (simp add: used_def)
  also have "\<dots> \<longleftrightarrow> (\<exists>(l, b) \<in> set (blocks_of p live). u \<in> span l b)"
    using assms unfolding owns_def by blast
  finally show ?thesis by (simp add: Bex_def split_paired_Ex set_blocks_of)
qed


lemma attempt_empty_half: "page_attempt 1 0 = Some (0, 0xFFFFFFFF)"
  by code_simp

lemma attempt_other_half: "page_attempt 1 0xFFFFFFFF = Some (32, 0xFFFFFFFFFFFFFFFF)"
  by code_simp

text \<open>
  Two processes race for half a page: both load the empty word, the first swap succeeds, the second
  fails and is repeated on the value it found.
\<close>

lemma race_reachable:
  "\<exists>s. shm_reach 1 s \<and> sh_pages s = [0xFFFFFFFFFFFFFFFF] \<and> sh_live s = [(0, 1, 32), (0, 1, 0)]"
proof -
  let ?s1 = "\<lparr>sh_pages = [0], sh_thread = (\<lambda>_. Idle)(0 := Trying 0 1 0), sh_live = []\<rparr>"
  let ?s2 = "?s1\<lparr>sh_thread := (sh_thread ?s1)(1 := Trying 0 1 0)\<rparr>"
  let ?s3 = "\<lparr>sh_pages = [0xFFFFFFFF], sh_thread = (sh_thread ?s2)(0 := Idle), sh_live = [(0, 1, 0)]\<rparr>"
  let ?s4 = "?s3\<lparr>sh_thread := (sh_thread ?s3)(1 := Trying 0 1 0xFFFFFFFF)\<rparr>"
  let ?s5 = "\<lparr>sh_pages = [0xFFFFFFFFFFFFFFFF], sh_thread = (sh_thread ?s4)(1 := Idle),
              sh_live = [(0, 1, 32), (0, 1, 0)]\<rparr>"
  have "shm_step (shm_init 1) ?s1"
    using step_load [of 0 "shm_init 1" 1 0] by (simp add: shm_init_def)
  with shm_reach.intros(1) have "shm_reach 1 ?s1" by (rule shm_reach.intros(2))
  moreover have "shm_step ?s1 ?s2"
    using step_load [of 0 ?s1 1 1] by simp
  ultimately have "shm_reach 1 ?s2" by (rule shm_reach.intros(2))
  moreover have "shm_step ?s2 ?s3"
    using step_cas [of ?s2 0 0 1 0 0 "0xFFFFFFFF"] attempt_empty_half by simp
  ultimately have "shm_reach 1 ?s3" by (rule shm_reach.intros(2))
  moreover have "shm_step ?s3 ?s4"
    using step_cas_fails [of ?s3 1 0 1 0 0 "0xFFFFFFFF"] attempt_empty_half by simp
  ultimately have "shm_reach 1 ?s4" by (rule shm_reach.intros(2))
  moreover have "shm_step ?s4 ?s5"
    using step_cas [of ?s4 1 0 1 "0xFFFFFFFF" 32 "0xFFFFFFFFFFFFFFFF"] attempt_other_half by simp
  ultimately have "shm_reach 1 ?s5" by (rule shm_reach.intros(2))
  then show ?thesis by (intro exI [of _ ?s5]) simp
qed


section \<open>Sizes and levels\<close>

lemma clzll_greatest:
  assumes "w \<noteq> 0"
  shows "2 ^ (63 - clzll w) \<le> unat w" "unat w < 2 ^ Suc (63 - clzll w)" "clzll w \<le> 63"
proof -
  define m where "m = last (filter (bit w) [0..<64])"
  have "\<exists>n. n < 64 \<and> bit w n"
    using assms by (auto simp: bit_eq_iff dest: bit_imp_le_length)
  then have ne: "filter (bit w) [0..<64] \<noteq> []" by (auto simp: filter_empty_conv)
  then have "m \<in> set (filter (bit w) [0..<64])" unfolding m_def by (rule last_in_set)
  then have m: "bit w m" "m < 64" by auto
  have top: "\<not> bit w n" if "m < n" for n
  proof
    assume "bit w n"
    then have "n \<in> set (filter (bit w) [0..<64])" by (auto dest: bit_imp_le_length)
    moreover have "sorted (filter (bit w) [0..<64])" by (simp add: sorted_wrt_filter)
    ultimately have "n \<le> m" unfolding m_def by (simp only: sorted_le_last)
    then show False using that by simp
  qed
  have c: "63 - clzll w = m" "clzll w \<le> 63" using m(2) by (simp_all add: clzll_def m_def)
  have "bit (unat w) m" using m(1) by (simp add: bit_unsigned_iff)
  then have "unat w div 2 ^ m \<noteq> 0" by (metis bit_iff_odd even_zero)
  then have "2 ^ m \<le> unat w" by (simp add: div_eq_0_iff)
  moreover have "take_bit (Suc m) w = w"
  proof (rule bit_eqI)
    fix n show "bit (take_bit (Suc m) w) n = bit w n"
      using top [of n] by (cases "m < n") (simp_all add: bit_take_bit_iff)
  qed
  then have "unat w = unat w mod 2 ^ Suc m"
    by (metis take_bit_eq_mod unsigned_take_bit_eq)
  then have "unat w < 2 ^ Suc m" by (metis mod_less_divisor zero_less_numeral zero_less_power)
  ultimately show "2 ^ (63 - clzll w) \<le> unat w" "unat w < 2 ^ Suc (63 - clzll w)" "clzll w \<le> 63"
    using c by simp_all
qed

lemma unat_pow2: "k < 64 \<Longrightarrow> unat (2 ^ k :: u64) = 2 ^ k"
  using unat_of_nat [of "2 ^ k", where 'a = 64] power_strict_increasing [of k 64 "2 :: nat"]
  by simp

lemma ctzll_pow2: assumes "k < 64" shows "ctzll (2 ^ k) = k"
proof -
  have nz: "(2 ^ k :: u64) \<noteq> 0" using unat_pow2 [OF assms] by (metis unat_0 power_not_zero zero_neq_numeral)
  have "bit (2 ^ k :: u64) n \<longleftrightarrow> n = k" for n using assms by (auto simp: bit_exp_iff)
  then show ?thesis using ctzll_least(1) [OF nz] by simp
qed

lemma GetNextPowerOfTwo_spec:
  assumes "1 < unat num" "unat num < 2 ^ 63"
  shows "\<exists>k. 0 < k \<and> k < 64 \<and> GetNextPowerOfTwo num = 2 ^ k
     \<and> 2 ^ (k - 1) < unat num \<and> unat num \<le> 2 ^ k"
proof -
  have n: "num \<noteq> 0" "num \<noteq> 1" using assms(1) by auto
  have u1: "unat (num - 1) = unat num - 1" using assms(1) by (subst unat_minus_small) simp_all
  then have "num - 1 \<noteq> 0" using n by simp
  note c = clzll_greatest [OF this]
  have "\<not> bit num 63"
  proof
    assume "bit num 63"
    then have "bit (unat num) 63" by (simp add: bit_unsigned_iff)
    then have "unat num div 2 ^ 63 \<noteq> 0" by (metis bit_iff_odd even_zero)
    then show False using assms(2) by simp
  qed
  then have "\<not> bit (num AND push_bit 63 1) n" for n
    by (cases "n = 63") (simp_all only: bit_and_iff bit_push_bit_iff bit_1_iff, simp_all)
  then have "num AND push_bit 63 1 = 0" by (intro bit_eqI) (simp only: bit_0_eq bot_apply bot_bool_def)
  moreover have "64 - clzll (num - 1) = Suc (63 - clzll (num - 1))" using c(3) by simp
  ultimately have e: "GetNextPowerOfTwo num = 2 ^ Suc (63 - clzll (num - 1))"
    using n by (simp add: GetNextPowerOfTwo_def push_bit_eq_mult)
  have "63 - clzll (num - 1) < 63"
  proof (rule ccontr)
    assume "\<not> ?thesis"
    then have "2 ^ 63 \<le> unat (num - 1)" using c(1) by (metis diff_le_self le_antisym not_less)
    then show False using assms u1 by simp
  qed
  then show ?thesis using e c u1 assms
    by (intro exI [of _ "Suc (63 - clzll (num - 1))"]) auto
qed

text \<open>
  A request is served by the smallest block that holds it and its header: level \<open>l\<close> has blocks of
  \<open>2 ^ (20 - l)\<close> bytes.
\<close>

lemma required_size_level:
  assumes "unat sz \<le> 2 ^ 20 - 24"
  shows "\<exists>l \<le> 6. required_size sz = 2 ^ (20 - l) \<and> size_level (required_size sz) = l
     \<and> unat sz + 24 \<le> 2 ^ (20 - l) \<and> (l < 6 \<longrightarrow> 2 ^ (20 - l) < 2 * (unat sz + 24))"
proof -
  have u: "unat (sz + HDR_SIZE) = unat sz + 24"
    using assms by (subst unat_plus_small) (simp_all add: cuckoo_defs)
  have P: "ctzll PAGE_SIZE = 20" using ctzll_pow2 [of 20] by (simp add: cuckoo_defs)
  show ?thesis
  proof (cases "sz + HDR_SIZE < MIN_BLOCK_SIZE")
    case True
    then have "unat sz + 24 < 2 ^ 14" using u by (simp add: word_less_nat_alt cuckoo_defs)
    moreover have "ctzll MIN_BLOCK_SIZE = 14" using ctzll_pow2 [of 14] by (simp add: cuckoo_defs)
    ultimately show ?thesis using True P
      by (intro exI [of _ 6]) (simp add: required_size_def size_level_def Let_def MIN_BLOCK_SIZE_def)
  next
    case False
    then have ge: "2 ^ 14 \<le> unat sz + 24"
      using u by (simp add: word_less_nat_alt cuckoo_defs)
    obtain k where k: "0 < k" "k < 64" "GetNextPowerOfTwo (sz + HDR_SIZE) = 2 ^ k"
      "2 ^ (k - 1) < unat sz + 24" "unat sz + 24 \<le> 2 ^ k"
    proof -
      have "1 < unat (sz + HDR_SIZE)" "unat (sz + HDR_SIZE) < 2 ^ 63"
        using u assms ge by simp_all
      from GetNextPowerOfTwo_spec [OF this] show ?thesis using that unfolding u by blast
    qed
    have "(2 :: nat) ^ (k - 1) < 2 ^ 20" using k(4) assms by simp
    then have "k - 1 < 20" by (rule power_less_imp_less_exp [rotated]) simp
    have "(2 :: nat) ^ 14 \<le> 2 ^ k" using ge k(5) by (rule order_trans)
    then have "14 \<le> k" by (rule power_le_imp_le_exp [rotated]) simp
    then have k14: "14 \<le> k" "k \<le> 20" using \<open>k - 1 < 20\<close> by simp_all
    have "2 ^ k = 2 * (2 :: nat) ^ (k - 1)" using k(1) by (cases k) simp_all
    then have "2 ^ k < 2 * (unat sz + 24)" using k(4) by simp
    moreover have "20 - (20 - k) = k" using k14 by simp
    ultimately show ?thesis
      using False P k k14 ctzll_pow2 [of k]
      by (intro exI [of _ "20 - k"]) (simp add: required_size_def size_level_def Let_def)
  qed
qed

section \<open>Allocation and release, running alone\<close>

text \<open>
  A well-formed allocator of at most 4 GiB, the range the 32-bit product in the shift covers.
\<close>

definition alloc_wf :: "ShmemAllocator \<Rightarrow> bool" where
  "alloc_wf al \<longleftrightarrow> length (sa_pageCntlArray al) = unat (sa_pageCount al)
     \<and> length (sa_freeListHint al) = FREE_LIST_COUNT \<and> unat (sa_pageCount al) \<le> 4096"

lemma page_loop_alone [simp]: "page_loop l [w] w = Some (page_attempt l w)"
  by (auto split: option.splits)

lemma scan_pages_Some:
  "scan_pages pages l ps = Some (p, b, d) \<Longrightarrow> p \<in> set ps \<and> page_attempt l (pages ! p) = Some (b, d)"
  by (induction ps) (auto split: option.splits)

lemma scan_pages_None:
  "scan_pages pages l ps = None \<Longrightarrow> p \<in> set ps \<Longrightarrow> page_attempt l (pages ! p) = None"
  by (induction ps) (auto split: option.splits)

lemma unat_block_shift:
  assumes "p < 4096" "b < 64"
  shows "unat (block_shift (word_of_nat p) b) = 2 ^ 20 * p + 2 ^ 14 * b"
proof -
  have u: "unat (word_of_nat p :: u32) = p" "unat (word_of_nat b :: u32) = b"
    using assms by (simp_all add: unat_of_nat)
  have "unat ((1024 * 1024 :: u32) * word_of_nat p) = 2 ^ 20 * p"
    "unat ((1024 * 1024 div 64 :: u32) * word_of_nat b) = 2 ^ 14 * b"
    using assms u by (simp_all add: unat_word_ariths)
  then have "unat ((1024 * 1024 :: u32) * word_of_nat p + (1024 * 1024 div 64) * word_of_nat b)
      = 2 ^ 20 * p + 2 ^ 14 * b"
    using assms by (subst unat_plus_small) simp_all
  moreover have "2 ^ 20 * p + 2 ^ 14 * b < 2 ^ 64" using assms by simp
  ultimately show ?thesis
    unfolding block_shift_def by (simp add: unsigned_ucast_eq take_bit_nat_eq_self)
qed

text \<open>What a successful allocation of level \<open>l\<close> does, in terms of pages and units.\<close>

definition took_block ::
    "ShmemAllocator \<Rightarrow> u64 \<Rightarrow> nat \<Rightarrow> nat \<Rightarrow> nat \<Rightarrow> u64 \<Rightarrow> ShmemAllocator \<Rightarrow> bool" where
  "took_block al sz l p b shift al' \<longleftrightarrow>
     p < length (sa_pageCntlArray al) \<and> units l dvd b \<and> b < 64
     \<and> span l b \<inter> used (sa_pageCntlArray al ! p) = {}
     \<and> unat shift = 2 ^ 20 * p + 2 ^ 14 * b + 24
     \<and> (\<exists>d. sa_pageCntlArray al' = (sa_pageCntlArray al)[p := d]
            \<and> used d = used (sa_pageCntlArray al ! p) \<union> span l b)
     \<and> sa_hdr al' = (sa_hdr al)(shift - 24 :=
          \<lparr>hdr_signature = 0, hdr_size = sz, hdr_capacity = word_of_nat (2 ^ 14 * units l)\<rparr>)
     \<and> unat sz + 24 \<le> 2 ^ 14 * units l"

lemma units_bytes: "l \<le> 6 \<Longrightarrow> 2 ^ 14 * units l = 2 ^ (20 - l)"
proof -
  assume "l \<le> 6"
  then have "20 - l = 14 + (6 - l)" by simp
  then show ?thesis by (simp only: units_def power_add)
qed

lemma malloc_scan_took:
  assumes wf: "alloc_wf al" and l: "l \<le> 6" and fits: "unat sz + 24 \<le> 2 ^ (20 - l)"
    and sc: "malloc_scan al sz (2 ^ (20 - l)) l first = Some (shift, al')"
  shows "alloc_wf al' \<and> (\<exists>p b. took_block al sz l p b shift al')"
proof -
  define start where "start = (if first then sa_freeListHint al ! l else 0)"
  obtain p b d where scan: "scan_pages (sa_pageCntlArray al) l
      [unat (ucast start :: u32) ..< unat (sa_pageCount al)] = Some (p, b, d)"
    using sc unfolding malloc_scan_def Let_def start_def by (auto split: option.splits)
  from scan_pages_Some [OF this]
  have pbd: "page_attempt l (sa_pageCntlArray al ! p) = Some (b, d)"
    and p: "p < unat (sa_pageCount al)" by auto
  have shift: "shift = block_shift (word_of_nat p) b + 24"
    and al': "sa_pageCntlArray al' = (sa_pageCntlArray al)[p := d]"
      "sa_hdr al' = (sa_hdr al)(block_shift (word_of_nat p) b :=
         \<lparr>hdr_signature = 0, hdr_size = sz, hdr_capacity = 2 ^ (20 - l)\<rparr>)"
      "length (sa_freeListHint al') = length (sa_freeListHint al)"
      "sa_pageCount al' = sa_pageCount al"
    using sc scan unfolding malloc_scan_def Let_def start_def [symmetric]
    by (auto simp: HDR_SIZE_def)
  note at = page_attempt_Some [OF l pbd]
  have u: "unat (block_shift (word_of_nat p) b) = 2 ^ 20 * p + 2 ^ 14 * b"
    using wf p at by (intro unat_block_shift) (simp_all add: alloc_wf_def)
  have "unat shift = 2 ^ 20 * p + 2 ^ 14 * b + 24"
    unfolding shift using u p wf at(2) by (subst unat_plus_small) (simp_all add: alloc_wf_def)
  moreover have "word_of_nat (2 ^ 14 * units l) = (2 ^ (20 - l) :: u64)"
    using units_bytes [OF l] by (metis of_nat_numeral of_nat_power)
  ultimately have "took_block al sz l p b shift al'"
    using at p wf al' fits l units_bytes [OF l] by (auto simp: took_block_def shift alloc_wf_def)
  moreover have "alloc_wf al'" using wf al' by (simp add: alloc_wf_def)
  ultimately show ?thesis by blast
qed

lemma malloc_second_scan_None:
  assumes wf: "alloc_wf al" and l: "l \<le> 6" and sc: "malloc_scan al sz req l False = None"
    and p: "p < length (sa_pageCntlArray al)" and b: "units l dvd b" "b < 64"
  shows "span l b \<inter> used (sa_pageCntlArray al ! p) \<noteq> {}"
proof -
  have "page_attempt l (sa_pageCntlArray al ! p) = None"
    using sc p wf by (intro scan_pages_None [where ps = "[0 ..< unat (sa_pageCount al)]"])
      (auto simp: malloc_scan_def Let_def alloc_wf_def split: option.splits)
  then show ?thesis using page_attempt_None [OF l] b by blast
qed

lemma malloc_takes:
  assumes wf: "alloc_wf al" and ret: "CuckooShmemAllocatorMalloc al sz = (shift, al')"
  shows "if unat sz \<le> 2 ^ 20 - 24
     then alloc_wf al' \<and> (\<exists>l \<le> 6. (l < 6 \<longrightarrow> 2 ^ 14 * units l < 2 * (unat sz + 24)) \<and>
       ((\<exists>p b. took_block al sz l p b shift al')
        \<or> shift = 0 \<and> al' = al
          \<and> (\<forall>p < length (sa_pageCntlArray al). \<forall>b < 64. units l dvd b \<longrightarrow>
               span l b \<inter> used (sa_pageCntlArray al ! p) \<noteq> {})))
     else shift = 0 \<and> al' = al"
proof (cases "unat sz \<le> 2 ^ 20 - 24")
  case True
  then obtain l where l: "l \<le> 6" "required_size sz = 2 ^ (20 - l)"
    "size_level (required_size sz) = l" "unat sz + 24 \<le> 2 ^ (20 - l)"
    "l < 6 \<longrightarrow> 2 ^ (20 - l) < 2 * (unat sz + 24)"
    using required_size_level by blast
  have "\<not> sz > PAGE_SIZE - HDR_SIZE" using True by (simp add: word_less_nat_alt cuckoo_defs)
  then have r: "(case malloc_scan al sz (2 ^ (20 - l)) l True of Some r \<Rightarrow> r
      | None \<Rightarrow> (case malloc_scan al sz (2 ^ (20 - l)) l False of Some r \<Rightarrow> r | None \<Rightarrow> (0, al)))
      = (shift, al')"
    using ret l(2,3) by (simp add: CuckooShmemAllocatorMalloc_def Let_def cong: option.case_cong)
  have "alloc_wf al' \<and> ((\<exists>p b. took_block al sz l p b shift al')
        \<or> shift = 0 \<and> al' = al
          \<and> (\<forall>p < length (sa_pageCntlArray al). \<forall>b < 64. units l dvd b \<longrightarrow>
               span l b \<inter> used (sa_pageCntlArray al ! p) \<noteq> {}))"
  proof (cases "malloc_scan al sz (2 ^ (20 - l)) l True")
    case (Some r')
    then show ?thesis using r malloc_scan_took [OF wf l(1,4)] by simp
  next
    case none1: None
    show ?thesis
    proof (cases "malloc_scan al sz (2 ^ (20 - l)) l False")
      case (Some r')
      then show ?thesis using none1 r malloc_scan_took [OF wf l(1,4)] by simp
    next
      case None
      then show ?thesis using none1 r wf malloc_second_scan_None [OF wf l(1) None] by simp
    qed
  qed
  then show ?thesis using True l units_bytes [OF l(1)] by auto
next
  case False
  then have "sz > PAGE_SIZE - HDR_SIZE" by (simp add: word_less_nat_alt cuckoo_defs)
  then show ?thesis using ret False by (simp add: CuckooShmemAllocatorMalloc_def)
qed


lemma unat_div_word: "unat ((a :: u64) div b) = unat a div unat b"
  by (simp add: unat_div_distrib)

lemma Free_block:
  assumes l: "l \<le> 6" and cap: "hdr_capacity (sa_hdr al (shift - 24)) = word_of_nat (2 ^ 14 * units l)"
    and at: "unat (shift - 24) = 2 ^ 20 * p + 2 ^ 14 * b" and b: "b < 64"
    and p: "p < length (sa_pageCntlArray al)"
  shows "\<exists>hint. CuckooShmemAllocatorFree al shift = Returns (al\<lparr>
     sa_pageCntlArray := (sa_pageCntlArray al)[p := page_release l b (sa_pageCntlArray al ! p)],
     sa_freeListHint := (sa_freeListHint al)[l := hint]\<rparr>)"
proof -
  have c: "hdr_capacity (sa_hdr al (shift - 24)) = 2 ^ (20 - l)"
    using cap units_bytes [OF l] by (metis of_nat_numeral of_nat_power)
  have k: "20 - l < 64" by simp
  have pow: "(2 :: nat) ^ 14 \<le> 2 ^ (20 - l)" "(2 :: nat) ^ (20 - l) \<le> 2 ^ 20"
    using l by (auto intro!: power_increasing simp del: power_numeral)
  have range: "\<not> (2 ^ (20 - l) :: u64) < MIN_BLOCK_SIZE" "\<not> (2 ^ (20 - l) :: u64) > PAGE_SIZE"
    using pow by (simp_all add: word_less_nat_alt unat_pow2 [OF k] cuckoo_defs)
  have lev: "ctzll PAGE_SIZE - ctzll (2 ^ (20 - l)) = l"
    using ctzll_pow2 [of 20] ctzll_pow2 [OF k] l by (simp add: cuckoo_defs)
  have "drop_bit l (2 ^ 20 :: u64) = 2 ^ (20 - l)"
  proof -
    have "l = 0 \<or> l = 1 \<or> l = 2 \<or> l = 3 \<or> l = 4 \<or> l = 5 \<or> l = 6" using l by linarith
    then show ?thesis by (elim disjE) simp_all
  qed
  then have exact: "2 ^ (20 - l) = drop_bit l PAGE_SIZE" by (simp add: PAGE_SIZE_def)
  have pg: "unat ((shift - 24) div PAGE_SIZE) = p"
    unfolding unat_div_word at using b by (simp add: cuckoo_defs)
  have "unat ((shift - 24) div MIN_BLOCK_SIZE) = 64 * p + b"
    unfolding unat_div_word at by (simp add: cuckoo_defs)
  moreover have "unat ((shift - 24) div PAGE_SIZE * STATE_BIT_COUNT) = 64 * p"
  proof -
    have "2 ^ 20 * p < 2 ^ 64" using at unat_lt_pow [of "shift - 24"] by simp
    then show ?thesis using pg by (simp add: unat_word_ariths STATE_BIT_COUNT_def mult.commute)
  qed
  ultimately have bl: "unat ((shift - 24) div MIN_BLOCK_SIZE
      - (shift - 24) div PAGE_SIZE * STATE_BIT_COUNT) = b"
    by (subst unat_minus_small) simp_all
  then have "unat (ucast ((shift - 24) div MIN_BLOCK_SIZE
      - (shift - 24) div PAGE_SIZE * STATE_BIT_COUNT) :: u32) = b"
    using b by (simp add: unsigned_ucast_eq take_bit_nat_eq_self)
  with range lev exact pg p c show ?thesis
    by (auto simp: CuckooShmemAllocatorFree_def Let_def HDR_SIZE_def page_release_def)
qed

text \<open>
  what \<^verbatim>\<open>CuckooShmemAllocatorMalloc\<close> returns can be given to \<^verbatim>\<open>CuckooShmemAllocatorFree\<close>,
  which finds the block again from the header and restores the control words of all pages.
\<close>

theorem malloc_free_round_trip:
  assumes wf: "alloc_wf al" and ret: "CuckooShmemAllocatorMalloc al sz = (shift, al')"
    and ok: "shift \<noteq> 0"
  shows "\<exists>al''. CuckooShmemAllocatorFree al' shift = Returns al''
     \<and> sa_pageCntlArray al'' = sa_pageCntlArray al \<and> alloc_wf al''"
proof -
  from malloc_takes [OF wf ret] ok obtain l p b
    where wf': "alloc_wf al'" and l: "l \<le> 6" and took: "took_block al sz l p b shift al'"
    by (auto split: if_splits)
  from took obtain d where p: "p < length (sa_pageCntlArray al)" and b: "b < 64"
    and dis: "span l b \<inter> used (sa_pageCntlArray al ! p) = {}"
    and sh: "unat shift = 2 ^ 20 * p + 2 ^ 14 * b + 24"
    and d: "sa_pageCntlArray al' = (sa_pageCntlArray al)[p := d]"
      "used d = used (sa_pageCntlArray al ! p) \<union> span l b"
    and h: "hdr_capacity (sa_hdr al' (shift - 24)) = word_of_nat (2 ^ 14 * units l)"
    unfolding took_block_def by auto
  have "unat (shift - 24) = 2 ^ 20 * p + 2 ^ 14 * b"
    using sh by (subst unat_minus_small) simp_all
  from Free_block [OF l h this b] obtain hint where
    f: "CuckooShmemAllocatorFree al' shift = Returns (al'\<lparr>
     sa_pageCntlArray := (sa_pageCntlArray al')[p := page_release l b (sa_pageCntlArray al' ! p)],
     sa_freeListHint := (sa_freeListHint al')[l := hint]\<rparr>)"
    using p d(1) by auto
  have "used (page_release l b d) = used (sa_pageCntlArray al ! p)"
    using cntl.release_exact [OF l] d(2) dis by auto
  then have "page_release l b d = sa_pageCntlArray al ! p" by (rule used_inject)
  then show ?thesis using f d(1) p wf' by (auto simp: alloc_wf_def)
qed

section \<open>Segments beyond 4 GiB\<close>

lemma block_shift_wraps: "block_shift (p + 4096) b = block_shift p b"
proof -
  have "(1024 * 1024 :: u32) * 4096 = 0" by code_simp
  then show ?thesis unfolding block_shift_def distrib_left by (simp only: add_0_right)
qed

lemma page_attempt_full: "l \<le> 6 \<Longrightarrow> page_attempt l (NOT 0) = None"
proof (rule ccontr)
  assume l: "l \<le> 6" and "page_attempt l (NOT 0) \<noteq> None"
  then obtain b d where "page_attempt l (NOT 0) = Some (b, d)" by auto
  from page_attempt_Some [OF l this] have "b < 64" "span l b \<inter> used (NOT 0) = {}" by simp_all
  moreover have "b \<in> span l b" by (simp add: span_def)
  moreover have "b \<in> used (NOT 0)" using \<open>b < 64\<close> by (simp add: used_def)
  ultimately show False by blast
qed

lemma scan_pages_skip:
  "\<forall>p \<in> set ps. page_attempt l (pages ! p) = None \<Longrightarrow>
   scan_pages pages l (ps @ qs) = scan_pages pages l qs"
  by (induction ps) auto

lemma page_attempt_empty: "l \<le> 6 \<Longrightarrow> \<exists>d. page_attempt l 0 = Some (0, d)"
proof -
  assume l: "l \<le> 6"
  have none: "used 0 = {}" by (simp add: used_def)
  show ?thesis
  proof (cases "page_attempt l 0")
    case None
    from page_attempt_None [OF l this, of 0] none show ?thesis by simp
  next
    case (Some r)
    obtain b d where r: "r = (b, d)" by (cases r)
    have "b = 0" using page_attempt_Some(5) [OF l, of 0 b d 0] Some none r by fastforce
    then show ?thesis using Some r by simp
  qed
qed

text \<open>
  C37: in a segment of more than 4096 pages the shift of a block wraps. With the first 4096 pages
  full and the next one empty, an allocation marks the free page but returns the shift of the first
  block of page 0, whose units are all in use.
\<close>

theorem malloc_wraps_beyond_4GiB:
  assumes count: "sa_pageCount al = 4097" and pages: "sa_pageCntlArray al = replicate 4096 (NOT 0) @ [0]"
    and hints: "sa_freeListHint al = replicate FREE_LIST_COUNT 0" and sz: "unat sz \<le> 2 ^ 20 - 24"
  shows "fst (CuckooShmemAllocatorMalloc al sz) = 24 \<and> used (sa_pageCntlArray al ! 0) = {0..<64}"
proof
  obtain l where l: "l \<le> 6" "required_size sz = 2 ^ (20 - l)" "size_level (required_size sz) = l"
    using required_size_level [OF sz] by blast
  obtain d where d: "page_attempt l 0 = Some (0, d)" using page_attempt_empty [OF l(1)] by blast
  have "[0..<4097] = [0..<4096] @ [4096 :: nat]" using upt_Suc_append [of 0 4096] by simp
  moreover have "scan_pages (sa_pageCntlArray al) l ([0..<4096] @ [4096]) = Some (4096, 0, d)"
    using page_attempt_full [OF l(1)] d
    by (subst scan_pages_skip) (auto simp: pages nth_append)
  ultimately have "scan_pages (sa_pageCntlArray al) l [0..<4097] = Some (4096, 0, d)" by (simp only:)
  moreover have "sa_freeListHint al ! l = 0" using l(1) by (simp add: hints FREE_LIST_COUNT_def)
  moreover have "block_shift 4096 0 = 0" using block_shift_wraps [of 0 0] by (simp add: block_shift_def)
  moreover have "\<not> sz > PAGE_SIZE - HDR_SIZE" using sz by (simp add: word_less_nat_alt cuckoo_defs)
  ultimately show "fst (CuckooShmemAllocatorMalloc al sz) = 24"
    using l by (simp add: CuckooShmemAllocatorMalloc_def malloc_scan_def Let_def count HDR_SIZE_def)
  show "used (sa_pageCntlArray al ! 0) = {0..<64}"
    by (auto simp: pages nth_append used_def bit_simps)
qed

section \<open>Layout of the segment\<close>

text \<open>
  \<^verbatim>\<open>CuckooShmemAllocatorInit\<close> lays the segment out without overlap: behind the signature
  counter come the hints, then one padded control word per page, then the pages, and everything
  ends within the segment. The page count fits its 32 bits for segments below 4 PiB.
\<close>

theorem init_layout_fits:
  assumes "1024 \<le> unat sz" "unat sz < 2 ^ 52"
    and "CuckooShmemAllocatorInit sz = Some (pageCount, hints, cntl, base)"
  shows "unat hints = 128 \<and> unat cntl = unat hints + 128 * 7
     \<and> unat base = unat cntl + 128 * unat pageCount
     \<and> 0 < unat pageCount \<and> unat base + 2 ^ 20 * unat pageCount \<le> unat sz"
proof -
  define q where "q = (unat sz - 1024) div (128 + 2 ^ 20)"
  have "unat (sz - 1024) = unat sz - 1024" using assms(1) by (subst unat_minus_small) simp_all
  then have uq: "unat ((sz - 1024) div 1048704) = q" by (simp add: unat_div_word q_def)
  have "q * (128 + 2 ^ 20) \<le> unat sz - 1024" unfolding q_def by simp
  then have fit: "1024 + 128 * q + 2 ^ 20 * q \<le> unat sz" using assms(1) by (simp add: algebra_simps)
  then have q32: "q < 2 ^ 32" using assms(2) by simp
  have pc: "pageCount = ucast ((sz - 1024) div 1048704)" "pageCount \<noteq> 0"
    and rest: "hints = 128" "cntl = 1024" "base = 1024 + 128 * ucast pageCount"
    using assms(3) by (auto simp: CuckooShmemAllocatorInit_def Let_def cuckoo_defs split: if_splits)
  have upc: "unat pageCount = q"
    unfolding pc(1) using uq q32 by (simp add: unsigned_ucast_eq take_bit_nat_eq_self)
  then have "unat (ucast pageCount :: u64) = q"
    using q32 by (simp add: unsigned_ucast_eq take_bit_nat_eq_self)
  then have "unat base = 1024 + 128 * q"
    unfolding rest using q32 by (simp add: unat_word_ariths)
  moreover have "q \<noteq> 0" using upc pc(2) by (metis unat_eq_0)
  ultimately show ?thesis using rest upc fit by simp
qed

section \<open>Concrete segments\<close>

definition empty_segment :: ShmemAllocator where
  "empty_segment = \<lparr>sa_size = 2 ^ 21, sa_pageCount = 1, sa_signatureCounter = 0,
     sa_freeListHint = replicate FREE_LIST_COUNT 0, sa_pageCntlArray = [0],
     sa_hdr = \<lambda>_. \<lparr>hdr_signature = 0, hdr_size = 0, hdr_capacity = 0\<rparr>\<rparr>"

lemma empty_segment_wf: "alloc_wf empty_segment"
  by (simp add: alloc_wf_def empty_segment_def)

lemma empty_segment_malloc: "fst (CuckooShmemAllocatorMalloc empty_segment 100) = 24"
  by code_simp


theorem malloc_free_round_trip_witness:
  "\<exists>al''. CuckooShmemAllocatorFree (snd (CuckooShmemAllocatorMalloc empty_segment 100)) 24
      = Returns al'' \<and> sa_pageCntlArray al'' = [0] \<and> alloc_wf al''"
proof -
  have "CuckooShmemAllocatorMalloc empty_segment 100
      = (24, snd (CuckooShmemAllocatorMalloc empty_segment 100))"
    using empty_segment_malloc by (metis prod.collapse)
  from malloc_free_round_trip [OF empty_segment_wf this] show ?thesis
    by (simp add: empty_segment_def)
qed

definition large_segment :: ShmemAllocator where
  "large_segment = empty_segment\<lparr>sa_pageCount := 4097,
     sa_pageCntlArray := replicate 4096 (NOT 0) @ [0]\<rparr>"

theorem malloc_wraps_beyond_4GiB_witness:
  "fst (CuckooShmemAllocatorMalloc large_segment 100) = 24
   \<and> used (sa_pageCntlArray large_segment ! 0) = {0..<64}"
  by (rule malloc_wraps_beyond_4GiB) (simp_all add: large_segment_def empty_segment_def)

theorem init_layout_fits_witness:
  "CuckooShmemAllocatorInit (256 * 1024 * 1024) = Some (255, 128, 1024, 33664)
   \<and> 33664 + 2 ^ 20 * 255 \<le> (256 * 1024 * 1024 :: nat)"
proof -
  have e: "CuckooShmemAllocatorInit (256 * 1024 * 1024) = Some (255, 128, 1024, 33664)" by code_simp
  from init_layout_fits [OF _ _ e] have "33664 + 2 ^ 20 * 255 \<le> (256 * 1024 * 1024 :: nat)" by simp
  with e show ?thesis by blast
qed

end
