(* ===== verification/Path_Order.thy ===== *)
theory Path_Order
  imports Cuckoo_Prelude "HOL-Library.List_Lexorder"
begin

text \<open>
  \<^verbatim>\<open>pathcmp\<close> of \<^verbatim>\<open>cuckoo/utils/utils_standalone.c\<close> and the comparator
  \<^verbatim>\<open>pg_qsort_meta_process_info_by_path_cmp\<close> built on it. The batch handlers sort their requests with
  it and rely on a directory coming before everything below it. C strings are \<open>char\<close> lists without
  the terminating NUL.
\<close>

definition byte :: "char \<Rightarrow> int" where
  "byte c = of_char c"

fun pathcmp :: "string \<Rightarrow> string \<Rightarrow> int" where
  "pathcmp [] [] = 0"
| "pathcmp [] (c2 # s2) = 0 - byte c2"
| "pathcmp (c1 # s1) [] = 1"
| "pathcmp (c1 # s1) (c2 # s2) =
     (if c1 = c2 then pathcmp s1 s2
      else if c2 = CHR ''/'' then 1
      else if c1 = CHR ''/'' then - 1
      else byte c1 - byte c2)"

section \<open>The order it computes\<close>

text \<open>A string that a C program can hold has no NUL inside.\<close>

definition c_string :: "string \<Rightarrow> bool" where
  "c_string s \<longleftrightarrow> char_of (0 :: nat) \<notin> set s"

lemma nul_not_slash [simp]: "char_of (0 :: nat) \<noteq> CHR ''/''"
  by (simp add: char_of_def)

lemma c_string_append [simp]: "c_string (s @ t) \<longleftrightarrow> c_string s \<and> c_string t"
  by (auto simp: c_string_def)

text \<open>The separator sorts before every other character.\<close>

definition path_key :: "char \<Rightarrow> nat" where
  "path_key c = (if c = CHR ''/'' then 0 else 1 + of_char c)"

definition path_keys :: "string \<Rightarrow> nat list" where
  "path_keys p = map path_key p"

lemma path_keys_simps [simp]: "path_keys [] = []" "path_keys (c # s) = path_key c # path_keys s"
  "path_keys (s @ t) = path_keys s @ path_keys t"
  by (simp_all add: path_keys_def)

lemma path_key_inject [simp]: "path_key c = path_key d \<longleftrightarrow> c = d"
  by (auto simp: path_key_def)

lemma path_keys_inject [simp]: "path_keys p = path_keys q \<longleftrightarrow> p = q"
  by (simp add: path_keys_def inj_map_eq_map inj_def)

lemma byte_pos: "c_string (c # s) \<Longrightarrow> 0 < byte c"
proof -
  assume "c_string (c # s)"
  then have "c \<noteq> char_of (0 :: nat)" by (auto simp: c_string_def)
  then have "(of_char c :: nat) \<noteq> 0" by (metis char_of_char)
  then show ?thesis by (simp add: byte_def) (metis of_nat_0_less_iff of_nat_of_char neq0_conv)
qed

lemma path_key_less:
  "path_key c < path_key d \<longleftrightarrow> d \<noteq> CHR ''/'' \<and> (c = CHR ''/'' \<or> byte c < byte d)"
  by (auto simp: path_key_def byte_def) (metis of_nat_less_iff of_nat_of_char)+

lemma c_string_tl: "c_string (c # s) \<Longrightarrow> c_string s"
  by (simp add: c_string_def)

lemma pathcmp_sign:
  assumes "c_string p" "c_string q"
  shows "(pathcmp p q < 0 \<longleftrightarrow> path_keys p < path_keys q) \<and> (pathcmp p q = 0 \<longleftrightarrow> p = q)"
  using assms
proof (induction p q rule: pathcmp.induct)
  case (2 c2 s2)
  then show ?case using byte_pos [of c2 s2] by simp
next
  case (4 c1 s1 c2 s2)
  show ?case
  proof (cases "c1 = c2")
    case True
    then show ?thesis using 4 c_string_tl by auto
  next
    case False
    then have "byte c1 \<noteq> byte c2" by (simp add: byte_def)
    then show ?thesis using False by (auto simp: path_key_less)
  qed
qed auto

lemma pathcmp_pos:
  "c_string p \<Longrightarrow> c_string q \<Longrightarrow> pathcmp p q > 0 \<longleftrightarrow> path_keys q < path_keys p"
  using pathcmp_sign [of p q] by (metis linorder_less_linear path_keys_inject order_less_asym)

text \<open>
  \<^verbatim>\<open>pathcmp\<close> is a strict total order on C strings: it answers 0 only for equal paths, swapping
  the arguments swaps the sign, and it is transitive, as \<^verbatim>\<open>pg_qsort\<close> needs.
\<close>

theorem pathcmp_total_order:
  assumes "c_string p" "c_string q" "c_string r"
  shows "(pathcmp p q = 0 \<longleftrightarrow> p = q) \<and> (pathcmp p q < 0 \<longleftrightarrow> 0 < pathcmp q p)
     \<and> (pathcmp p q < 0 \<and> pathcmp q r < 0 \<longrightarrow> pathcmp p r < 0)"
  using assms by (auto simp: pathcmp_sign pathcmp_pos)

theorem pathcmp_total_order_witness:
  "pathcmp ''/a'' ''/a/b'' < 0 \<and> 0 < pathcmp ''/a/b'' ''/a''"
  using pathcmp_total_order [of "''/a''" "''/a/b''" "''/a''"] by (simp add: c_string_def byte_def)

lemma between_prefix:
  fixes ks :: "nat list"
  assumes "ks < rs" "rs \<le> ks @ xs"
  shows "\<exists>ys. rs = ks @ ys \<and> ys \<noteq> [] \<and> ys \<le> xs"
  using assms
proof (induction ks arbitrary: rs)
  case Nil
  then show ?case by auto
next
  case (Cons k ks)
  then obtain r rs' where "rs = r # rs'" by (cases rs) auto
  then show ?case using Cons by auto
qed

text \<open>
  C25: in a list sorted by \<^verbatim>\<open>pathcmp\<close> a directory comes before everything below it, and everything
  that sorts between a directory and one of its descendants is a descendant too: a directory and its
  subtree stand together.
\<close>

theorem directory_before_contiguous_subtree:
  assumes "c_string d" "c_string x" "c_string r"
  shows "pathcmp d (d @ ''/'' @ x) < 0
     \<and> (pathcmp d r < 0 \<and> pathcmp r (d @ ''/'' @ x) \<le> 0 \<longrightarrow> (\<exists>y. r = d @ ''/'' @ y))"
proof
  have dx: "c_string (d @ ''/'' @ x)" using assms by (simp add: c_string_def)
  have "path_keys d < path_keys d @ (0 # path_keys x)"
    by (induction d) simp_all
  then show "pathcmp d (d @ ''/'' @ x) < 0"
    using pathcmp_sign [OF assms(1) dx] by (simp add: path_key_def)
  show "pathcmp d r < 0 \<and> pathcmp r (d @ ''/'' @ x) \<le> 0 \<longrightarrow> (\<exists>y. r = d @ ''/'' @ y)"
  proof
    assume *: "pathcmp d r < 0 \<and> pathcmp r (d @ ''/'' @ x) \<le> 0"
    have "path_keys d < path_keys r" using * pathcmp_sign [OF assms(1,3)] by simp
    moreover have "path_keys r \<le> path_keys d @ (0 # path_keys x)"
      using * pathcmp_sign [OF assms(3) dx] by (auto simp: path_key_def order_le_less)
    ultimately obtain ys where ys: "path_keys r = path_keys d @ ys" "ys \<noteq> []" "ys \<le> 0 # path_keys x"
      using between_prefix by blast
    from ys(1) obtain t where t: "r = d @ t" "ys = path_keys t"
      unfolding path_keys_def by (metis (no_types, lifting) append_eq_map_conv list.inj_map_strong path_key_inject)
    obtain c u where cu: "t = c # u" using ys(2) t(2) by (cases t) simp_all
    then have "path_key c = 0" using ys(3) t(2) by auto
    then have "c = CHR ''/''" by (simp add: path_key_def split: if_splits)
    then show "\<exists>y. r = d @ ''/'' @ y" using t(1) cu by auto
  qed
qed

theorem directory_before_contiguous_subtree_witness:
  "\<exists>y. ''/a/b'' = ''/a'' @ ''/'' @ y"
  using directory_before_contiguous_subtree [of "''/a''" "''c''" "''/a/b''"]
  by (simp add: c_string_def byte_def)

text \<open>The comparator handed to \<^verbatim>\<open>pg_qsort\<close>, on the paths of two requests.\<close>

definition path_le :: "string \<Rightarrow> string \<Rightarrow> bool" where
  "path_le p q \<longleftrightarrow> pathcmp p q \<le> 0"

end
