(* ===== verification/Error_Code.thy ===== *)
theory Error_Code
  imports Cuckoo_Prelude
begin

text \<open>
  The error codes of \<^verbatim>\<open>remote_connection_utils/error_code_def.h\<close>, the macro
  \<^verbatim>\<open>CUCKOO_ELOG_ERROR\<close> of \<^verbatim>\<open>utils/error_log.h\<close> that carries a code in the first
  character of a log message, and \<^verbatim>\<open>CuckooErrorMsgAnalyse\<close> of \<^verbatim>\<open>utils/error_code.c\<close>
  that reads it back on the other side of a connection. C strings are \<open>char\<close> lists without the
  terminating NUL.
\<close>

datatype (plugins only: code size) CuckooErrorCode =
    SUCCESS | PATH_IS_INVALID | PATH_IS_ROOT | PATH_EXISTS | PATH_NOT_EXISTS | PATH_LOCK_CONFLICT
  | PATH_VERIFY_FAILED | REMOTE_TRANSFER_FAILED | WRONG_WORKER | OBSOLETE_SHARD
  | REMOTE_QUERY_FAILED | ARGUMENT_ERROR | INODE_ROW_TYPE_ERROR | FILE_EXISTS | FILE_NOT_EXISTS
  | OUT_OF_MEMORY | STREAM_ERROR | PROGRAM_ERROR | SMART_ROUTE_ERROR | UNDEFINED | MKDIR_DUPLICATE
  | XKEY_EXISTS | XKEY_NOT_EXISTS | VERSION_OUT_OF_DATE | INVALID_PARAMETER | UNKNOWN
  | SERVER_FAULT | ZK_NOT_CONNECT | ZK_FETCH_RESULT_FAILED | TRANSACTION_FAULT | POOLED_FAULT
  | NOT_FOUND_FD | GET_ALL_WORKER_CONN_FAILED | IO_ERROR | READDIR_RENEW_CONN
  | LAST_CUCKOO_ERROR_CODE

text \<open>The enumeration in the order of \<^verbatim>\<open>CUCKOO_ERROR_CODE_LIST\<close>: a code's number is its position.\<close>

definition CUCKOO_ERROR_CODE_LIST :: "CuckooErrorCode list" where
  "CUCKOO_ERROR_CODE_LIST =
    [SUCCESS, PATH_IS_INVALID, PATH_IS_ROOT, PATH_EXISTS, PATH_NOT_EXISTS, PATH_LOCK_CONFLICT,
     PATH_VERIFY_FAILED, REMOTE_TRANSFER_FAILED, WRONG_WORKER, OBSOLETE_SHARD,
     REMOTE_QUERY_FAILED, ARGUMENT_ERROR, INODE_ROW_TYPE_ERROR, FILE_EXISTS, FILE_NOT_EXISTS,
     OUT_OF_MEMORY, STREAM_ERROR, PROGRAM_ERROR, SMART_ROUTE_ERROR, UNDEFINED, MKDIR_DUPLICATE,
     XKEY_EXISTS, XKEY_NOT_EXISTS, VERSION_OUT_OF_DATE, INVALID_PARAMETER, UNKNOWN,
     SERVER_FAULT, ZK_NOT_CONNECT, ZK_FETCH_RESULT_FAILED, TRANSACTION_FAULT, POOLED_FAULT,
     NOT_FOUND_FD, GET_ALL_WORKER_CONN_FAILED, IO_ERROR, READDIR_RENEW_CONN,
     LAST_CUCKOO_ERROR_CODE]"

primrec code_number :: "CuckooErrorCode \<Rightarrow> nat" where
  "code_number SUCCESS = 0"
| "code_number PATH_IS_INVALID = 1"
| "code_number PATH_IS_ROOT = 2"
| "code_number PATH_EXISTS = 3"
| "code_number PATH_NOT_EXISTS = 4"
| "code_number PATH_LOCK_CONFLICT = 5"
| "code_number PATH_VERIFY_FAILED = 6"
| "code_number REMOTE_TRANSFER_FAILED = 7"
| "code_number WRONG_WORKER = 8"
| "code_number OBSOLETE_SHARD = 9"
| "code_number REMOTE_QUERY_FAILED = 10"
| "code_number ARGUMENT_ERROR = 11"
| "code_number INODE_ROW_TYPE_ERROR = 12"
| "code_number FILE_EXISTS = 13"
| "code_number FILE_NOT_EXISTS = 14"
| "code_number OUT_OF_MEMORY = 15"
| "code_number STREAM_ERROR = 16"
| "code_number PROGRAM_ERROR = 17"
| "code_number SMART_ROUTE_ERROR = 18"
| "code_number UNDEFINED = 19"
| "code_number MKDIR_DUPLICATE = 20"
| "code_number XKEY_EXISTS = 21"
| "code_number XKEY_NOT_EXISTS = 22"
| "code_number VERSION_OUT_OF_DATE = 23"
| "code_number INVALID_PARAMETER = 24"
| "code_number UNKNOWN = 25"
| "code_number SERVER_FAULT = 26"
| "code_number ZK_NOT_CONNECT = 27"
| "code_number ZK_FETCH_RESULT_FAILED = 28"
| "code_number TRANSACTION_FAULT = 29"
| "code_number POOLED_FAULT = 30"
| "code_number NOT_FOUND_FD = 31"
| "code_number GET_ALL_WORKER_CONN_FAILED = 32"
| "code_number IO_ERROR = 33"
| "code_number READDIR_RENEW_CONN = 34"
| "code_number LAST_CUCKOO_ERROR_CODE = 35"

text \<open>
  The text of \<^verbatim>\<open>CUCKOO_ELOG_ERROR(errorCode, errorMsg)\<close>, format \<^verbatim>\<open>"%c %s | %s:%d"\<close>; the
  decimal text of \<^verbatim>\<open>__LINE__\<close> is given as a string.
\<close>

definition CUCKOO_ELOG_ERROR :: "CuckooErrorCode \<Rightarrow> string \<Rightarrow> string \<Rightarrow> string \<Rightarrow> string" where
  "CUCKOO_ELOG_ERROR errorCode errorMsg file line =
     char_of (code_number errorCode + 64) # '' '' @ errorMsg @ '' | '' @ file @ '':'' @ line"

text \<open>
  \<^verbatim>\<open>s[i]\<close> for a C string: the terminating NUL is readable, what lies behind it is not.
\<close>

definition c_char_at :: "string \<Rightarrow> nat \<Rightarrow> char run" where
  "c_char_at s i = (if i < length s then Returns (s ! i)
     else if i = length s then Returns (char_of (0::nat)) else Faults)"

text \<open>
  \<^verbatim>\<open>CuckooErrorMsgAnalyse\<close>: \<open>None\<close> is the NULL message; the result is the code and what is stored
  through \<^verbatim>\<open>errorMsg\<close>.
\<close>

definition CuckooErrorMsgAnalyse :: "string option \<Rightarrow> (CuckooErrorCode \<times> string option) run" where
  "CuckooErrorMsgAnalyse originalErrorMsg =
     (case originalErrorMsg of
        None \<Rightarrow> Returns (PROGRAM_ERROR, None)
      | Some s \<Rightarrow>
          run_bind (c_char_at s 8) (\<lambda>c.
            let errorCodeChar = of_char c :: nat in
            if 64 < errorCodeChar \<and> errorCodeChar < 64 + code_number LAST_CUCKOO_ERROR_CODE
            then Returns (CUCKOO_ERROR_CODE_LIST ! (errorCodeChar - 64), Some (drop 9 s))
            else Returns (UNKNOWN, Some s)))"

lemma code_number_le: "code_number c \<le> 35"
  by (cases c) simp_all

lemma error_code_list_nth: "CUCKOO_ERROR_CODE_LIST ! code_number c = c"
  by (cases c) (simp_all add: CUCKOO_ERROR_CODE_LIST_def)

lemma code_number_inj: "code_number c = code_number d \<Longrightarrow> c = d"
  by (metis error_code_list_nth)

lemma elog_code_char:
  "(of_char (char_of (code_number c + 64) :: char) :: nat) = code_number c + 64"
  using code_number_le [of c] by (simp add: of_char_of)

text \<open>
  C35: an error raised by \<^verbatim>\<open>CUCKOO_ELOG_ERROR\<close> on one server and read by
  \<^verbatim>\<open>CuckooErrorMsgAnalyse\<close> on another arrives as the same code, with the text behind the code
  character as the message. The severity prefix PostgreSQL puts before the message is eight
  characters long.
\<close>

theorem error_code_round_trip:
  assumes "length prefix = 8" and "c \<noteq> SUCCESS" and "c \<noteq> LAST_CUCKOO_ERROR_CODE"
  shows "CuckooErrorMsgAnalyse (Some (prefix @ CUCKOO_ELOG_ERROR c m f l))
       = Returns (c, Some ('' '' @ m @ '' | '' @ f @ '':'' @ l))"
proof -
  have "0 < code_number c" using assms(2) by (cases c) simp_all
  moreover have "code_number c < 35" using assms(3) by (cases c) simp_all
  ultimately show ?thesis
    using assms(1)
    by (simp add: CuckooErrorMsgAnalyse_def CUCKOO_ELOG_ERROR_def c_char_at_def nth_append
        elog_code_char error_code_list_nth Let_def)
qed

theorem error_code_round_trip_witness:
  "CuckooErrorMsgAnalyse (Some (''ERROR:  '' @ CUCKOO_ELOG_ERROR WRONG_WORKER ''m'' ''f.c'' ''7''))
     = Returns (WRONG_WORKER, Some ('' '' @ ''m'' @ '' | '' @ ''f.c'' @ '':'' @ ''7''))"
  by (rule error_code_round_trip) simp_all

section \<open>Operations that may raise an error\<close>

text \<open>
  \<^verbatim>\<open>CUCKOO_ELOG_ERROR\<close> leaves the C function by a long jump and what was changed before stays
  changed: an operation takes a state and gives an error code or a result together with the state it
  leaves. An error PostgreSQL raises itself, such as a unique violation, has no code of its own and
  arrives at the caller as \<^const>\<open>UNKNOWN\<close>.
\<close>

type_synonym ('s, 'a) op = "'s \<Rightarrow> (CuckooErrorCode + 'a) \<times> 's"

definition op_bind :: "('s, 'a) op \<Rightarrow> ('a \<Rightarrow> ('s, 'b) op) \<Rightarrow> ('s, 'b) op" where
  "op_bind m f s = (case m s of (Inl e, s') \<Rightarrow> (Inl e, s') | (Inr x, s') \<Rightarrow> f x s')"

lemma op_bind_simps [simp]:
  "m s = (Inl e, s') \<Longrightarrow> op_bind m f s = (Inl e, s')"
  "m s = (Inr x, s') \<Longrightarrow> op_bind m f s = f x s'"
  by (simp_all add: op_bind_def)

lemma op_bind_Inr:
  assumes "op_bind m f s = (Inr y, s'')"
  obtains x s' where "m s = (Inr x, s')" "f x s' = (Inr y, s'')"
  using assms by (cases "m s"; cases "fst (m s)") (auto simp: op_bind_def)

text \<open>The same for operations that may also loop for ever or leave the memory they own.\<close>

type_synonym ('s, 'a) exec = "'s \<Rightarrow> ((CuckooErrorCode + 'a) \<times> 's) run"

definition exec_return :: "'a \<Rightarrow> ('s, 'a) exec" where
  "exec_return x s = Returns (Inr x, s)"

definition exec_raise :: "CuckooErrorCode \<Rightarrow> ('s, 'a) exec" where
  "exec_raise e s = Returns (Inl e, s)"

definition exec_bind :: "('s, 'a) exec \<Rightarrow> ('a \<Rightarrow> ('s, 'b) exec) \<Rightarrow> ('s, 'b) exec" where
  "exec_bind m f s =
     (case m s of
        Returns (Inl e, s') \<Rightarrow> Returns (Inl e, s')
      | Returns (Inr x, s') \<Rightarrow> f x s'
      | Loops \<Rightarrow> Loops
      | Faults \<Rightarrow> Faults)"

definition exec_op :: "('s, 'a) op \<Rightarrow> ('s, 'a) exec" where
  "exec_op m s = Returns (m s)"

definition exec_gets :: "('s \<Rightarrow> 'a) \<Rightarrow> ('s, 'a) exec" where
  "exec_gets f s = Returns (Inr (f s), s)"

definition exec_modify :: "('s \<Rightarrow> 's) \<Rightarrow> ('s, unit) exec" where
  "exec_modify f s = Returns (Inr (), f s)"

text \<open>A loop that is a partial function: \<open>None\<close> when it does not end.\<close>

definition exec_loop :: "('s \<Rightarrow> ((CuckooErrorCode + 'a) \<times> 's) option) \<Rightarrow> ('s, 'a) exec" where
  "exec_loop m s = (case m s of None \<Rightarrow> Loops | Some r \<Rightarrow> Returns r)"

lemma exec_simps [simp]:
  "exec_return x s = Returns (Inr x, s)"
  "exec_raise e s = Returns (Inl e, s)"
  "exec_op m s = Returns (m s)"
  "exec_gets f s = Returns (Inr (f s), s)"
  "exec_modify g s = Returns (Inr (), g s)"
  by (simp_all add: exec_return_def exec_raise_def exec_op_def exec_gets_def exec_modify_def)

lemma exec_bind_simps [simp]:
  "m s = Returns (Inl e, s') \<Longrightarrow> exec_bind m f s = Returns (Inl e, s')"
  "m s = Returns (Inr x, s') \<Longrightarrow> exec_bind m f s = f x s'"
  "m s = Loops \<Longrightarrow> exec_bind m f s = Loops"
  "m s = Faults \<Longrightarrow> exec_bind m f s = Faults"
  by (simp_all add: exec_bind_def)

lemma exec_bind_run:
  "exec_bind (exec_return x) f s = f x s"
  "exec_bind (exec_raise e) f s = Returns (Inl e, s)"
  "exec_bind (exec_gets g) f s = f (g s) s"
  "exec_bind (exec_modify h) k s = k () (h s)"
  by simp_all

lemma exec_bind_Inr:
  assumes "exec_bind m f s = Returns (Inr y, s'')"
  obtains x s' where "m s = Returns (Inr x, s')" "f x s' = Returns (Inr y, s'')"
  using assms by (auto simp: exec_bind_def split: run.splits sum.splits prod.splits)

lemma exec_bind_Returns:
  assumes "exec_bind m f s = Returns (r, s'')"
  obtains (error) e where "m s = Returns (Inl e, s'')" "r = Inl e"
  | (ok) x s' where "m s = Returns (Inr x, s')" "f x s' = Returns (r, s'')"
  using assms by (auto simp: exec_bind_def split: run.splits sum.splits prod.splits)

text \<open>A relation between the states before and after that holds however the operation ends.\<close>

definition exec_keeps :: "('s \<Rightarrow> 's \<Rightarrow> bool) \<Rightarrow> ('s, 'a) exec \<Rightarrow> bool" where
  "exec_keeps R m \<longleftrightarrow> (\<forall>s r s'. m s = Returns (r, s') \<longrightarrow> R s s')"

lemma exec_keepsI: "(\<And>s r s'. m s = Returns (r, s') \<Longrightarrow> R s s') \<Longrightarrow> exec_keeps R m"
  by (simp add: exec_keeps_def)

lemma exec_keepsD: "exec_keeps R m \<Longrightarrow> m s = Returns (r, s') \<Longrightarrow> R s s'"
  by (simp add: exec_keeps_def)

lemma exec_keeps_mono: "exec_keeps R m \<Longrightarrow> (\<And>s s'. R s s' \<Longrightarrow> R' s s') \<Longrightarrow> exec_keeps R' m"
  by (simp add: exec_keeps_def)

lemma exec_keeps_bind:
  assumes "\<And>a b c. R a b \<Longrightarrow> R b c \<Longrightarrow> R a c" "exec_keeps R m" "\<And>x. exec_keeps R (f x)"
  shows "exec_keeps R (exec_bind m f)"
proof (rule exec_keepsI)
  fix s r s' assume "exec_bind m f s = Returns (r, s')"
  then show "R s s'"
  proof (cases rule: exec_bind_Returns)
    case (error e)
    then show ?thesis using assms(2) by (auto dest: exec_keepsD)
  next
    case (ok x s1)
    then show ?thesis using assms(1) exec_keepsD [OF assms(2)] exec_keepsD [OF assms(3)] by blast
  qed
qed

text \<open>A run that returns without error in a state with a property.\<close>

definition yields :: "((CuckooErrorCode + 'a) \<times> 's) run \<Rightarrow> ('s \<Rightarrow> bool) \<Rightarrow> bool" where
  "yields m Q = (case m of Returns (r, s) \<Rightarrow> (case r of Inr x \<Rightarrow> Q s | Inl e \<Rightarrow> False) | _ \<Rightarrow> False)"

lemma yieldsE:
  assumes "yields m Q"
  obtains x s where "m = Returns (Inr x, s)" "Q s"
proof (cases m)
  case (Returns y)
  then show thesis using that assms by (cases y; cases "fst y") (auto simp: yields_def)
qed (use assms in \<open>simp_all add: yields_def\<close>)

section \<open>Caches reloaded on demand\<close>

text \<open>
  The shared-memory copies of the catalog tables are read behind a loop
  \<^verbatim>\<open>while (pg_atomic_read_u32(Invalid)) Reload();\<close>. \<open>None\<close> means that the loop does not end.
\<close>

partial_function (option) reload_while ::
    "('s \<Rightarrow> bool) \<Rightarrow> ('s, unit) op \<Rightarrow> 's \<Rightarrow> ((CuckooErrorCode + unit) \<times> 's) option" where
  "reload_while invalid reload s =
     (if invalid s
      then (case reload s of
              (Inl e, s') \<Rightarrow> Some (Inl e, s')
            | (Inr u, s') \<Rightarrow> reload_while invalid reload s')
      else Some (Inr (), s))"

text \<open>
  The contract of such a cache: reloading a valid cache does nothing, a successful reload leaves it
  valid, a failed one leaves it marked invalid. The loop then reloads at most once.
\<close>

locale reloadable =
  fixes invalid :: "'s \<Rightarrow> bool" and reload :: "('s, unit) op" and current :: "'s \<Rightarrow> bool"
  assumes reload_idle: "\<not> invalid s \<Longrightarrow> reload s = (Inr (), s)"
    and reload_current: "invalid s \<Longrightarrow> reload s = (Inr u, s') \<Longrightarrow> \<not> invalid s' \<and> current s'"
    and reload_failed: "reload s = (Inl e, s') \<Longrightarrow> invalid s'"
begin

lemma reload_while_eq: "reload_while invalid reload s = Some (reload s)"
proof (cases "invalid s")
  case True
  show ?thesis
  proof (cases "reload s")
    case (Pair r s')
    then show ?thesis
    proof (cases r)
      case (Inl e)
      then show ?thesis using True Pair by (subst reload_while.simps) simp
    next
      case (Inr u)
      then have "\<not> invalid s'" using reload_current [OF True] Pair by simp
      then have "reload_while invalid reload s' = Some (Inr (), s')" by (subst reload_while.simps) simp
      then show ?thesis using True Pair Inr by (subst reload_while.simps) simp
    qed
  qed
next
  case False
  then show ?thesis using reload_idle by (subst reload_while.simps) simp
qed

lemma reload_while_current:
  assumes "\<not> invalid s \<Longrightarrow> current s" and "reload_while invalid reload s = Some (Inr u, s')"
  shows "\<not> invalid s' \<and> current s'"
proof (cases "invalid s")
  case True
  then show ?thesis using reload_current [OF True] assms(2) by (simp add: reload_while_eq)
next
  case False
  then show ?thesis using reload_idle [OF False] assms by (simp add: reload_while_eq)
qed

end

end
