(* ===== verification/Foreign_Server.thy ===== *)
theory Foreign_Server
  imports Error_Code "HOL-Library.Multiset"
begin

text \<open>
  \<^verbatim>\<open>cuckoo/metadb/foreign_server.c\<close>: the catalog of the servers of the cluster, its copy in shared
  memory with a validity flag and a version, and each backend's table of connections to the other
  servers. Catalog and shared hash table are lists of rows with distinct server ids, the catalog in
  index order. Parameters stand for what the file takes from elsewhere: \<open>clip\<close> for
  \<^verbatim>\<open>text_to_cstring_buffer\<close>, \<open>seq\<close> for the order in which \<^verbatim>\<open>hash_seq_search\<close> enumerates a hash
  table, \<open>start\<close> for \<^verbatim>\<open>PQconnectStart\<close>, \<open>ready\<close> for the outcome of polling a started connection
  and preparing it.
\<close>

definition FOREIGN_SERVER_NAME_MAX_LENGTH :: nat where "FOREIGN_SERVER_NAME_MAX_LENGTH = 128"
definition HOST_MAX_LENGTH :: nat where "HOST_MAX_LENGTH = 16"
definition FOREIGN_SERVER_NUM_MAX :: nat where "FOREIGN_SERVER_NUM_MAX = 128"

record foreign_server =
  server_id :: int
  server_name :: string
  server_host :: string
  server_port :: int
  is_local :: bool
  user_name :: string

record pgconn =
  conn_hostaddr :: string
  conn_port :: int
  conn_bad :: bool

text \<open>What a backend has begun on the connection to a server.\<close>

datatype CuckooRemoteTransactionState =
    CUCKOO_REMOTE_TRANSACTION_NONE
  | CUCKOO_REMOTE_TRANSACTION_BEGIN_FOR_WRITE
  | CUCKOO_REMOTE_TRANSACTION_BEGIN_FOR_SNAPSHOT
  | CUCKOO_REMOTE_TRANSACTION_PREPARE

text \<open>
  The members of \<^verbatim>\<open>ForeignServerConnection\<close> are kept by server id, the connection in \<open>fs_conns\<close> and the
  transaction state in \<open>transactionState\<close>; it is set whenever a connection is started.
\<close>

record fs_state =
  fs_table :: "foreign_server list"
  fs_cache :: "foreign_server list"
  fs_version :: int
  fs_invalid :: bool
  fs_conns :: "(int \<times> pgconn option) list"
  transactionState :: "int \<Rightarrow> CuckooRemoteTransactionState"
  fs_localVersion :: int
  LocalServerId :: int
  LocalServerName :: string

section \<open>The catalog\<close>

definition find_server :: "int \<Rightarrow> foreign_server list \<Rightarrow> foreign_server option" where
  "find_server sid rows = find (\<lambda>r. server_id r = sid) rows"

definition InvalidateForeignServerShmemCache :: "fs_state \<Rightarrow> fs_state" where
  "InvalidateForeignServerShmemCache s = s\<lparr>fs_invalid := True\<rparr>"

definition InsertForeignServerByRel :: "foreign_server \<Rightarrow> (fs_state, unit) op" where
  "InsertForeignServerByRel row s =
     (case find_server (server_id row) (fs_table s) of
        Some _ \<Rightarrow> (Inl UNKNOWN, s)
      | None \<Rightarrow> (Inr (), s\<lparr>fs_table := insort_key server_id row (fs_table s)\<rparr>))"

definition DeleteForeignServerByRel :: "int \<Rightarrow> (fs_state, unit) op" where
  "DeleteForeignServerByRel sid s =
     (case find_server sid (fs_table s) of
        None \<Rightarrow> (Inl ARGUMENT_ERROR, s)
      | Some _ \<Rightarrow> (Inr (), s\<lparr>fs_table := filter (\<lambda>r. server_id r \<noteq> sid) (fs_table s)\<rparr>))"

definition UpdateForeignServerByRel :: "int \<Rightarrow> string \<Rightarrow> int \<Rightarrow> (fs_state, unit) op" where
  "UpdateForeignServerByRel sid host port s =
     (case find_server sid (fs_table s) of
        None \<Rightarrow> (Inl ARGUMENT_ERROR, s)
      | Some _ \<Rightarrow> (Inr (), s\<lparr>fs_table :=
          map (\<lambda>r. if server_id r = sid then r\<lparr>server_host := host, server_port := port\<rparr> else r)
            (fs_table s)\<rparr>))"

definition cuckoo_insert_foreign_server :: "foreign_server \<Rightarrow> (fs_state, unit) op" where
  "cuckoo_insert_foreign_server row =
     op_bind (InsertForeignServerByRel row) (\<lambda>_ s. (Inr (), InvalidateForeignServerShmemCache s))"

definition cuckoo_delete_foreign_server :: "int \<Rightarrow> (fs_state, unit) op" where
  "cuckoo_delete_foreign_server sid =
     op_bind (DeleteForeignServerByRel sid) (\<lambda>_ s. (Inr (), InvalidateForeignServerShmemCache s))"

definition cuckoo_update_foreign_server :: "int \<Rightarrow> string \<Rightarrow> int \<Rightarrow> (fs_state, unit) op" where
  "cuckoo_update_foreign_server sid host port =
     op_bind (UpdateForeignServerByRel sid host port)
       (\<lambda>_ s. (Inr (), InvalidateForeignServerShmemCache s))"

section \<open>The shared copy\<close>

definition cached_row :: "(nat \<Rightarrow> string \<Rightarrow> string) \<Rightarrow> foreign_server \<Rightarrow> foreign_server" where
  "cached_row clip r = r\<lparr>server_name := clip FOREIGN_SERVER_NAME_MAX_LENGTH (server_name r),
                        server_host := clip HOST_MAX_LENGTH (server_host r),
                        user_name := clip FOREIGN_SERVER_NAME_MAX_LENGTH (user_name r)\<rparr>"

text \<open>
  \<^verbatim>\<open>hash_search\<close> with \<^verbatim>\<open>HASH_ENTER\<close> and the assignments behind it: the entry of the key is replaced.
\<close>

definition enter_row :: "foreign_server \<Rightarrow> foreign_server list \<Rightarrow> foreign_server list" where
  "enter_row e cache = filter (\<lambda>r. server_id r \<noteq> server_id e) cache @ [e]"

text \<open>The scan of \<^verbatim>\<open>ReloadForeignServerShmemCache\<close>: the new table and whether the limit was hit.\<close>

primrec reload_scan :: "(nat \<Rightarrow> string \<Rightarrow> string) \<Rightarrow> foreign_server list \<Rightarrow> foreign_server list
      \<Rightarrow> foreign_server list \<times> bool" where
  "reload_scan clip [] cache = (cache, False)"
| "reload_scan clip (row # rows) cache =
     (if length cache \<ge> FOREIGN_SERVER_NUM_MAX then (cache, True)
      else reload_scan clip rows (enter_row (cached_row clip row) cache))"

definition ReloadForeignServerShmemCache :: "(nat \<Rightarrow> string \<Rightarrow> string) \<Rightarrow> (fs_state, unit) op" where
  "ReloadForeignServerShmemCache clip s =
     (if \<not> fs_invalid s then (Inr (), s)
      else let s = s\<lparr>fs_invalid := False, fs_cache := []\<rparr>;
               (cache, exceedMaxNumOfForeignServer) = reload_scan clip (fs_table s) (fs_cache s);
               s = s\<lparr>fs_cache := cache\<rparr> in
        if exceedMaxNumOfForeignServer
        then (Inl PROGRAM_ERROR, InvalidateForeignServerShmemCache s)
        else (Inr (), s\<lparr>fs_version := fs_version s + 1\<rparr>))"

definition cuckoo_reload_foreign_server_cache :: "(nat \<Rightarrow> string \<Rightarrow> string) \<Rightarrow> (fs_state, unit) op" where
  "cuckoo_reload_foreign_server_cache clip s =
     ReloadForeignServerShmemCache clip (InvalidateForeignServerShmemCache s)"

text \<open>The loop before every reading access, followed by the access.\<close>

definition with_current_servers ::
    "(nat \<Rightarrow> string \<Rightarrow> string) \<Rightarrow> (fs_state, 'a) op \<Rightarrow> fs_state \<Rightarrow> ((CuckooErrorCode + 'a) \<times> fs_state) run" where
  "with_current_servers clip f s =
     (case reload_while fs_invalid (ReloadForeignServerShmemCache clip) s of
        None \<Rightarrow> Loops
      | Some (Inl e, s') \<Rightarrow> Returns (Inl e, s')
      | Some (Inr u, s') \<Rightarrow> Returns (f s'))"

definition GetForeignServerCount where
  "GetForeignServerCount clip = with_current_servers clip (\<lambda>s. (Inr (length (fs_cache s)), s))"

text \<open>
  \<^verbatim>\<open>GetForeignServerInfo\<close>: the entry found is copied without a test, an unknown id copies from NULL.
\<close>

primrec server_infos :: "foreign_server list \<Rightarrow> int list \<Rightarrow> foreign_server list run" where
  "server_infos cache [] = Returns []"
| "server_infos cache (sid # sids) =
     (case find_server sid cache of
        None \<Rightarrow> Faults
      | Some r \<Rightarrow> run_bind (server_infos cache sids) (\<lambda>rs. Returns (r # rs)))"

definition GetForeignServerInfo where
  "GetForeignServerInfo clip sids s =
     run_bind (with_current_servers clip (\<lambda>s. (Inr (), s)) s)
       (\<lambda>(r, s). case r of Inl e \<Rightarrow> Returns (Inl e, s)
          | Inr _ \<Rightarrow> run_bind (server_infos (fs_cache s) sids) (\<lambda>rs. Returns (Inr rs, s)))"

primrec connection_infos :: "foreign_server list \<Rightarrow> int list \<Rightarrow> CuckooErrorCode + (string \<times> int) list" where
  "connection_infos cache [] = Inr []"
| "connection_infos cache (sid # sids) =
     (case find_server sid cache of
        None \<Rightarrow> Inl PROGRAM_ERROR
      | Some r \<Rightarrow> (case connection_infos cache sids of
                     Inl e \<Rightarrow> Inl e
                   | Inr is \<Rightarrow> Inr ((server_host r, server_port r) # is)))"

definition GetForeignServerConnectionInfo where
  "GetForeignServerConnectionInfo clip sids =
     with_current_servers clip (\<lambda>s. (connection_infos (fs_cache s) sids, s))"

definition GetAllForeignServerId where
  "GetAllForeignServerId clip seq exceptSelf exceptCn =
     with_current_servers clip (\<lambda>s.
       (Inr (map server_id (filter (\<lambda>r. \<not> (exceptSelf \<and> is_local r) \<and> \<not> (exceptCn \<and> server_id r = 0))
              (seq (fs_cache s)))), s))"

section \<open>Connections of a backend\<close>

definition CleanupForeignServerConnections :: "fs_state \<Rightarrow> fs_state" where
  "CleanupForeignServerConnections s = s\<lparr>fs_conns := []\<rparr>"

text \<open>
  The test of \<^verbatim>\<open>RenewForeignServerLocalCache\<close>: the server is still registered, the connection is open
  and leads to the registered address.
\<close>

definition conn_matches :: "foreign_server list \<Rightarrow> int \<Rightarrow> pgconn option \<Rightarrow> bool" where
  "conn_matches cache sid conn =
     (case (find_server sid cache, conn) of
        (Some r, Some c) \<Rightarrow> conn_hostaddr c = server_host r \<and> conn_port c = server_port r
      | _ \<Rightarrow> False)"

definition RenewForeignServerLocalCache ::
    "(foreign_server list \<Rightarrow> foreign_server list) \<Rightarrow> (fs_state, unit) op" where
  "RenewForeignServerLocalCache seq s =
     (let s = s\<lparr>fs_conns := filter (\<lambda>(sid, conn). conn_matches (fs_cache s) sid conn) (fs_conns s)\<rparr> in
      if LocalServerId s = - 1 then
        (let s = (case find is_local (seq (fs_cache s)) of
                    Some r \<Rightarrow> s\<lparr>LocalServerId := server_id r, LocalServerName := server_name r\<rparr>
                  | None \<Rightarrow> s) in
         if LocalServerId s = - 1 then (Inl PROGRAM_ERROR, s)
         else (Inr (), s\<lparr>fs_localVersion := fs_version s\<rparr>))
      else (Inr (), s\<lparr>fs_localVersion := fs_version s\<rparr>))"

definition GetLocalServerId where
  "GetLocalServerId clip seq =
     op_bind (\<lambda>s. if LocalServerId s = - 1
                 then op_bind (if fs_invalid s then ReloadForeignServerShmemCache clip else (\<lambda>s. (Inr (), s)))
                        (\<lambda>_. RenewForeignServerLocalCache seq) s
                 else (Inr (), s))
       (\<lambda>_ s. (Inr (LocalServerId s), s))"

definition GetLocalServerName where
  "GetLocalServerName clip seq =
     op_bind (\<lambda>s. if LocalServerId s = - 1
                 then op_bind (if fs_invalid s then ReloadForeignServerShmemCache clip else (\<lambda>s. (Inr (), s)))
                        (\<lambda>_. RenewForeignServerLocalCache seq) s
                 else (Inr (), s))
       (\<lambda>_ s. (Inr (LocalServerName s), s))"

definition set_conn :: "int \<Rightarrow> pgconn option \<Rightarrow> (int \<times> pgconn option) list \<Rightarrow> (int \<times> pgconn option) list" where
  "set_conn sid c conns = (sid, c) # filter (\<lambda>(k, _). k \<noteq> sid) conns"

text \<open>
  The first loop of \<^verbatim>\<open>GetForeignServerConnection\<close> for one server: whether a connection was newly
  started.
\<close>

definition start_connection ::
    "(string \<Rightarrow> int \<Rightarrow> string \<Rightarrow> pgconn) \<Rightarrow> int \<Rightarrow> (fs_state, bool) op" where
  "start_connection start sid s =
     (let conn = (case map_of (fs_conns s) sid of
                    Some (Some c) \<Rightarrow> (if conn_bad c then None else Some c)
                  | _ \<Rightarrow> None);
          s = s\<lparr>fs_conns := set_conn sid conn (fs_conns s)\<rparr> in
      case conn of
        Some _ \<Rightarrow> (Inr False, s)
      | None \<Rightarrow>
          (case find_server sid (fs_cache s) of
             None \<Rightarrow> (Inl PROGRAM_ERROR, s)
           | Some r \<Rightarrow> (Inr True, s\<lparr>transactionState := (transactionState s)(sid := CUCKOO_REMOTE_TRANSACTION_NONE),
                fs_conns := set_conn sid
                (Some (start (server_host r) (server_port r) (user_name r))) (fs_conns s)\<rparr>)))"

primrec start_connections ::
    "(string \<Rightarrow> int \<Rightarrow> string \<Rightarrow> pgconn) \<Rightarrow> int list \<Rightarrow> (fs_state, (int \<times> bool) list) op" where
  "start_connections start [] = (\<lambda>s. (Inr [], s))"
| "start_connections start (sid # sids) =
     op_bind (start_connection start sid) (\<lambda>new.
       op_bind (start_connections start sids) (\<lambda>rest s. (Inr ((sid, new) # rest), s)))"

text \<open>The second loop: a newly started connection that cannot be established is closed.\<close>

fun finish_connections :: "(int \<Rightarrow> bool) \<Rightarrow> (int \<times> bool) list \<Rightarrow> fs_state \<Rightarrow> bool \<times> fs_state" where
  "finish_connections ready [] s = (True, s)"
| "finish_connections ready ((sid, new) # rest) s =
     (if new \<and> \<not> ready sid
      then (let (_, s') = finish_connections ready rest (s\<lparr>fs_conns := set_conn sid None (fs_conns s)\<rparr>)
            in (False, s'))
      else finish_connections ready rest s)"

definition GetForeignServerConnection ::
    "(nat \<Rightarrow> string \<Rightarrow> string) \<Rightarrow> (foreign_server list \<Rightarrow> foreign_server list)
      \<Rightarrow> (string \<Rightarrow> int \<Rightarrow> string \<Rightarrow> pgconn) \<Rightarrow> (int \<Rightarrow> bool) \<Rightarrow> int list \<Rightarrow> fs_state
      \<Rightarrow> ((CuckooErrorCode + pgconn option list) \<times> fs_state) run" where
  "GetForeignServerConnection clip seq start ready sids =
     with_current_servers clip
       (op_bind (\<lambda>s. if fs_localVersion s < fs_version s then RenewForeignServerLocalCache seq s
                     else (Inr (), s))
       (\<lambda>_. op_bind (start_connections start sids)
       (\<lambda>started s. let (connectSucceed, s) = finish_connections ready started s in
          if connectSucceed
          then (Inr (map (\<lambda>sid. case map_of (fs_conns s) sid of Some c \<Rightarrow> c | None \<Rightarrow> None) sids), s)
          else (Inl PROGRAM_ERROR, s))))"

section \<open>The shared copy reflects the catalog\<close>

lemma cached_row_id [simp]: "server_id (cached_row clip r) = server_id r"
  by (simp add: cached_row_def)

lemma reload_scan_eq:
  "distinct (map server_id (cache @ rows)) \<Longrightarrow>
   reload_scan clip rows cache =
     (cache @ map (cached_row clip) (take (FOREIGN_SERVER_NUM_MAX - length cache) rows),
      length cache + length rows > FOREIGN_SERVER_NUM_MAX \<and> rows \<noteq> [])"
proof (induction rows arbitrary: cache)
  case (Cons row rows)
  show ?case
  proof (cases "length cache \<ge> FOREIGN_SERVER_NUM_MAX")
    case False
    then obtain k where k: "FOREIGN_SERVER_NUM_MAX - length cache = Suc k"
      by (metis Suc_diff_Suc linorder_not_le)
    have "server_id row \<notin> server_id ` set cache" using Cons.prems by auto
    then have f: "filter (\<lambda>r. server_id r \<noteq> server_id row) cache = cache"
      by (metis (mono_tags, lifting) filter_True image_eqI)
    have d: "distinct (map server_id ((cache @ [cached_row clip row]) @ rows))"
      using Cons.prems by auto
    have "reload_scan clip (row # rows) cache = reload_scan clip rows (cache @ [cached_row clip row])"
      using False f by (simp add: enter_row_def)
    also have "\<dots> = (cache @ map (cached_row clip) (take (FOREIGN_SERVER_NUM_MAX - length cache) (row # rows)),
        length cache + length (row # rows) > FOREIGN_SERVER_NUM_MAX \<and> row # rows \<noteq> [])"
      unfolding Cons.IH [OF d] using k False
      by (cases rows) (simp_all add: diff_Suc split: nat.splits)
    finally show ?thesis .
  qed simp
qed simp

definition fs_wf :: "fs_state \<Rightarrow> bool" where
  "fs_wf s \<longleftrightarrow> distinct (map server_id (fs_table s))"

definition fs_current :: "(nat \<Rightarrow> string \<Rightarrow> string) \<Rightarrow> fs_state \<Rightarrow> bool" where
  "fs_current clip s \<longleftrightarrow> fs_cache s = map (cached_row clip) (fs_table s)"

text \<open>A reload never touches the catalog, the connections or the backend's variables.\<close>

lemma Reload_frame:
  assumes "ReloadForeignServerShmemCache clip s = (r, s')"
  shows "fs_table s' = fs_table s" "fs_conns s' = fs_conns s" "fs_localVersion s' = fs_localVersion s"
    "fs_version s \<le> fs_version s'"
  using assms
  by (auto simp: ReloadForeignServerShmemCache_def Let_def InvalidateForeignServerShmemCache_def
      split: if_splits prod.splits)

lemma Reload_invalid:
  assumes "fs_wf s" "fs_invalid s"
  shows "ReloadForeignServerShmemCache clip s =
     (if length (fs_table s) > FOREIGN_SERVER_NUM_MAX
      then (Inl PROGRAM_ERROR, s\<lparr>fs_cache := map (cached_row clip) (take FOREIGN_SERVER_NUM_MAX (fs_table s)),
                                fs_invalid := True\<rparr>)
      else (Inr (), s\<lparr>fs_invalid := False, fs_cache := map (cached_row clip) (fs_table s),
                     fs_version := fs_version s + 1\<rparr>))"
  using assms reload_scan_eq [of "[]" "fs_table s" clip]
  by (auto simp: ReloadForeignServerShmemCache_def Let_def fs_wf_def InvalidateForeignServerShmemCache_def)

interpretation servers: reloadable fs_invalid "ReloadForeignServerShmemCache clip"
    "\<lambda>s. fs_wf s \<longrightarrow> fs_current clip s" for clip
proof
  show "\<not> fs_invalid s \<Longrightarrow> ReloadForeignServerShmemCache clip s = (Inr (), s)" for s
    by (simp add: ReloadForeignServerShmemCache_def)
  show "\<not> fs_invalid s' \<and> (fs_wf s' \<longrightarrow> fs_current clip s')"
    if "fs_invalid s" "ReloadForeignServerShmemCache clip s = (Inr u, s')" for s u s'
  proof
    show "\<not> fs_invalid s'" using that
      by (auto simp: ReloadForeignServerShmemCache_def Let_def split: if_splits prod.splits)
    show "fs_wf s' \<longrightarrow> fs_current clip s'"
    proof
      assume "fs_wf s'"
      then have "fs_wf s" using Reload_frame(1) [OF that(2)] by (simp add: fs_wf_def)
      from Reload_invalid [OF this that(1), of clip] that(2) show "fs_current clip s'"
        by (auto simp: fs_current_def split: if_splits)
    qed
  qed
  show "fs_invalid s'" if "ReloadForeignServerShmemCache clip s = (Inl e, s')" for s e s'
    using that by (auto simp: ReloadForeignServerShmemCache_def Let_def
        InvalidateForeignServerShmemCache_def split: if_splits prod.splits)
qed

text \<open>
  What a reading access sees: the rows of the catalog, clipped, or the error of a catalog with too
  many rows.
\<close>

lemma with_current_servers_eq:
  assumes wf: "fs_wf s" and cur: "\<not> fs_invalid s \<Longrightarrow> fs_current clip s"
    and few: "length (fs_table s) \<le> FOREIGN_SERVER_NUM_MAX"
  obtains s' where "with_current_servers clip f s = Returns (f s')" "\<not> fs_invalid s'"
    "fs_cache s' = map (cached_row clip) (fs_table s)" "fs_table s' = fs_table s"
    "ReloadForeignServerShmemCache clip s = (Inr (), s')"
proof -
  obtain s' where s': "ReloadForeignServerShmemCache clip s = (Inr (), s')" "\<not> fs_invalid s'"
    "fs_cache s' = map (cached_row clip) (fs_table s)" "fs_table s' = fs_table s"
  proof (cases "fs_invalid s")
    case True
    then show thesis using that Reload_invalid [OF wf True, of clip] few by auto
  next
    case False
    then show thesis using that [of s] cur [OF False] servers.reload_idle [OF False]
      by (auto simp: fs_current_def)
  qed
  then have "with_current_servers clip f s = Returns (f s')"
    by (simp add: with_current_servers_def servers.reload_while_eq)
  then show thesis using that s' by blast
qed

lemma find_server_map:
  "find_server sid (map (cached_row clip) rows) = map_option (cached_row clip) (find_server sid rows)"
  by (induction rows) (auto simp: find_server_def)

lemma connection_infos_eq:
  "connection_infos rows sids =
     (if \<forall>sid \<in> set sids. find_server sid rows \<noteq> None
      then Inr (map (\<lambda>sid. let r = the (find_server sid rows) in (server_host r, server_port r)) sids)
      else Inl PROGRAM_ERROR)"
  by (induction sids) (auto split: option.splits simp: Let_def)

text \<open>
  a lookup of server addresses answers from the catalog. With at most 128 servers, whether the
  shared copy was valid or had been invalidated before, \<^verbatim>\<open>GetForeignServerConnectionInfo\<close> returns for
  each id asked for the host (as clipped to its 16 bytes) and port of the catalog row, in order, or
  \<^const>\<open>PROGRAM_ERROR\<close> when one of the ids is not in the catalog.
\<close>

theorem connection_info_reflects_catalog:
  assumes "fs_wf s" and "\<not> fs_invalid s \<longrightarrow> fs_current clip s"
    and "length (fs_table s) \<le> FOREIGN_SERVER_NUM_MAX"
  shows "\<exists>s'. GetForeignServerConnectionInfo clip sids s = Returns
     (if \<forall>sid \<in> set sids. find_server sid (fs_table s) \<noteq> None
      then Inr (map (\<lambda>sid. let r = the (find_server sid (fs_table s))
                           in (clip HOST_MAX_LENGTH (server_host r), server_port r)) sids)
      else Inl PROGRAM_ERROR, s')
     \<and> \<not> fs_invalid s' \<and> fs_current clip s' \<and> fs_table s' = fs_table s"
proof -
  obtain s' where w: "with_current_servers clip (\<lambda>s. (connection_infos (fs_cache s) sids, s)) s
      = Returns (connection_infos (fs_cache s') sids, s')" and s': "\<not> fs_invalid s'"
    "fs_cache s' = map (cached_row clip) (fs_table s)" "fs_table s' = fs_table s"
    by (rule with_current_servers_eq [OF assms(1) assms(2) [rule_format] assms(3),
          where f = "\<lambda>s. (connection_infos (fs_cache s) sids, s)"])
  have "connection_infos (fs_cache s') sids =
     (if \<forall>sid \<in> set sids. find_server sid (fs_table s) \<noteq> None
      then Inr (map (\<lambda>sid. let r = the (find_server sid (fs_table s))
                           in (clip HOST_MAX_LENGTH (server_host r), server_port r)) sids)
      else Inl PROGRAM_ERROR)"
    unfolding connection_infos_eq s'(2) find_server_map
    by (auto simp: Let_def cached_row_def option.map_sel)
  then show ?thesis
    using w s' by (auto simp: GetForeignServerConnectionInfo_def fs_current_def)
qed

text \<open>
  \<^verbatim>\<open>GetAllForeignServerId\<close> enumerates, in whatever order the hash table is walked, exactly the
  ids of the catalog, without the local server if asked to leave itself out and without server 0 if
  asked to leave the coordinator out.
\<close>

theorem all_server_ids_reflect_catalog:
  assumes "fs_wf s" and "\<not> fs_invalid s \<longrightarrow> fs_current clip s"
    and "length (fs_table s) \<le> FOREIGN_SERVER_NUM_MAX" and "\<forall>rows. mset (seq rows) = mset rows"
  shows "\<exists>ids s'. GetAllForeignServerId clip seq exceptSelf exceptCn s = Returns (Inr ids, s')
     \<and> distinct ids
     \<and> set ids = {server_id r | r. r \<in> set (fs_table s) \<and> \<not> (exceptSelf \<and> is_local r)
                     \<and> \<not> (exceptCn \<and> server_id r = 0)}"
proof -
  let ?keep = "\<lambda>r. \<not> (exceptSelf \<and> is_local r) \<and> \<not> (exceptCn \<and> server_id r = 0)"
  obtain s' where w: "GetAllForeignServerId clip seq exceptSelf exceptCn s
      = Returns (Inr (map server_id (filter ?keep (seq (fs_cache s')))), s')"
    and c: "fs_cache s' = map (cached_row clip) (fs_table s)"
    unfolding GetAllForeignServerId_def
    by (rule with_current_servers_eq [OF assms(1) assms(2) [rule_format] assms(3),
          where f = "\<lambda>s. (Inr (map server_id (filter ?keep (seq (fs_cache s)))), s)"])
  have m: "mset (seq (fs_cache s')) = mset (fs_cache s')" using assms(4) by blast
  then have "set (seq (fs_cache s')) = set (fs_cache s')" by (metis set_mset_mset)
  then have st: "set (seq (fs_cache s')) = cached_row clip ` set (fs_table s)" by (simp only: c set_map)
  have "mset (map server_id (seq (fs_cache s'))) = mset (map server_id (fs_cache s'))"
    using m by simp
  moreover have "map server_id (fs_cache s') = map server_id (fs_table s)"
    by (simp add: c comp_def)
  ultimately have "distinct (map server_id (seq (fs_cache s')))"
    using assms(1) unfolding fs_wf_def by (metis mset_eq_imp_distinct_iff)
  then have "distinct (map server_id (filter ?keep (seq (fs_cache s'))))"
    by (rule distinct_map_filter)
  moreover have "set (map server_id (filter ?keep (seq (fs_cache s'))))
      = {server_id r | r. r \<in> set (fs_table s) \<and> ?keep r}"
  proof (rule set_eqI)
    fix x
    have "x \<in> set (map server_id (filter ?keep (seq (fs_cache s'))))
        \<longleftrightarrow> x \<in> server_id ` {y \<in> cached_row clip ` set (fs_table s). ?keep y}"
      by (simp add: st)
    also have "\<dots> \<longleftrightarrow> (\<exists>r \<in> set (fs_table s). ?keep (cached_row clip r) \<and> x = server_id (cached_row clip r))"
      by blast
    also have "\<dots> \<longleftrightarrow> x \<in> {server_id r | r. r \<in> set (fs_table s) \<and> ?keep r}"
      by (auto simp: cached_row_def)
    finally show "x \<in> set (map server_id (filter ?keep (seq (fs_cache s'))))
        \<longleftrightarrow> x \<in> {server_id r | r. r \<in> set (fs_table s) \<and> ?keep r}" .
  qed
  ultimately show ?thesis using w by blast
qed

section \<open>Connections lead to the registered address\<close>

text \<open>
  Between accesses a backend may still have connections to old addresses, but only while its version
  is behind the shared one or the shared copy is invalid.
\<close>

definition conns_match :: "fs_state \<Rightarrow> bool" where
  "conns_match s \<longleftrightarrow> (\<forall>sid c. (sid, Some c) \<in> set (fs_conns s) \<longrightarrow> conn_matches (fs_cache s) sid (Some c))"

definition conn_inv :: "fs_state \<Rightarrow> bool" where
  "conn_inv s \<longleftrightarrow> fs_localVersion s \<le> fs_version s
     \<and> (\<not> fs_invalid s \<and> fs_localVersion s = fs_version s \<longrightarrow> conns_match s)"

definition start_ok :: "(string \<Rightarrow> int \<Rightarrow> string \<Rightarrow> pgconn) \<Rightarrow> bool" where
  "start_ok start \<longleftrightarrow> (\<forall>h p u. conn_hostaddr (start h p u) = h \<and> conn_port (start h p u) = p)"

lemma conn_inv_Reload:
  assumes "conn_inv s" "ReloadForeignServerShmemCache clip s = (r, s')"
  shows "conn_inv s'"
  using assms
  by (auto simp: ReloadForeignServerShmemCache_def conn_inv_def Let_def
      InvalidateForeignServerShmemCache_def split: if_splits prod.splits)

lemma conn_inv_Renew:
  assumes "conn_inv s" "RenewForeignServerLocalCache seq s = (r, s')"
  shows "conn_inv s' \<and> fs_cache s' = fs_cache s \<and> fs_invalid s' = fs_invalid s
     \<and> fs_table s' = fs_table s \<and> fs_version s' = fs_version s
     \<and> (r = Inr u \<longrightarrow> fs_localVersion s' = fs_version s' \<and> conns_match s')"
  using assms
  by (auto simp: RenewForeignServerLocalCache_def conn_inv_def conns_match_def Let_def
      split: if_splits option.splits)

lemma set_set_conn: "set (set_conn sid c conns) = insert (sid, c) {e \<in> set conns. fst e \<noteq> sid}"
  by (auto simp: set_conn_def)

lemma map_of_set_conn: "map_of (set_conn sid c conns) k = (if k = sid then Some c else map_of conns k)"
proof (cases "k = sid")
  case False
  have "map_of (filter (\<lambda>(k, _). k \<noteq> sid) conns) k = map_of conns k"
    using False by (induction conns) auto
  then show ?thesis using False by (simp add: set_conn_def)
qed (simp add: set_conn_def)

lemma start_connection_ok:
  assumes ok: "start_ok start" and match: "conns_match s"
    and st: "start_connection start sid s = (Inr new, s')"
  shows "conns_match s' \<and> (\<exists>c. map_of (fs_conns s') sid = Some (Some c))
     \<and> (\<forall>k c. k \<noteq> sid \<longrightarrow> map_of (fs_conns s') k = map_of (fs_conns s) k)
     \<and> fs_cache s' = fs_cache s \<and> fs_invalid s' = fs_invalid s \<and> fs_table s' = fs_table s
     \<and> fs_version s' = fs_version s \<and> fs_localVersion s' = fs_localVersion s"
proof -
  define conn where "conn = (case map_of (fs_conns s) sid of
      Some (Some c) \<Rightarrow> (if conn_bad c then None else Some c) | _ \<Rightarrow> None)"
  show ?thesis
  proof (cases conn)
    case (Some c)
    then have "map_of (fs_conns s) sid = Some (Some c)"
      unfolding conn_def by (auto split: option.splits if_splits)
    then have "(sid, Some c) \<in> set (fs_conns s)" by (rule map_of_SomeD)
    moreover have "s' = s\<lparr>fs_conns := set_conn sid (Some c) (fs_conns s)\<rparr>"
      using st Some unfolding start_connection_def conn_def [symmetric] Let_def by simp
    ultimately show ?thesis
      using match by (auto simp: conns_match_def set_set_conn map_of_set_conn)
  next
    case None
    then obtain r where r: "find_server sid (fs_cache s) = Some r"
      and s': "s' = s\<lparr>transactionState := (transactionState s)(sid := CUCKOO_REMOTE_TRANSACTION_NONE),
        fs_conns := set_conn sid (Some (start (server_host r) (server_port r) (user_name r)))
        (set_conn sid None (fs_conns s))\<rparr>"
      using st unfolding start_connection_def conn_def [symmetric] Let_def
      by (auto split: option.splits)
    then show ?thesis
      using match ok by (auto simp: conns_match_def set_set_conn map_of_set_conn conn_matches_def start_ok_def)
  qed
qed

lemma start_connections_ok:
  assumes ok: "start_ok start"
  shows "conns_match s \<Longrightarrow> start_connections start sids s = (Inr started, s') \<Longrightarrow>
     conns_match s' \<and> (\<forall>sid \<in> set sids. \<exists>c. map_of (fs_conns s') sid = Some (Some c))
     \<and> (\<forall>k. (\<exists>c. map_of (fs_conns s) k = Some (Some c)) \<longrightarrow> (\<exists>c. map_of (fs_conns s') k = Some (Some c)))
     \<and> fs_cache s' = fs_cache s \<and> fs_invalid s' = fs_invalid s \<and> fs_table s' = fs_table s
     \<and> fs_version s' = fs_version s \<and> fs_localVersion s' = fs_localVersion s"
proof (induction sids arbitrary: s started s')
  case (Cons sid sids)
  from Cons.prems(2) obtain new s1 rest s2 where 1: "start_connection start sid s = (Inr new, s1)"
    and 2: "start_connections start sids s1 = (Inr rest, s2)" and s': "s' = s2"
    by (auto elim!: op_bind_Inr)
  note a = start_connection_ok [OF ok Cons.prems(1) 1]
  then have "conns_match s1" by blast
  note b = Cons.IH [OF this 2]
  have "\<exists>c. map_of (fs_conns s2) sid = Some (Some c)" using a b by blast
  moreover have "\<exists>c. map_of (fs_conns s2) k = Some (Some c)" if "\<exists>c. map_of (fs_conns s) k = Some (Some c)" for k
    using a b that by (cases "k = sid") auto
  ultimately show ?case using a b unfolding s' by simp
qed simp

lemma finish_connections_ok:
  "finish_connections ready started s = (True, s') \<Longrightarrow> s' = s"
  by (induction started arbitrary: s) (auto split: if_splits prod.splits)


section \<open>A concrete cluster\<close>

definition worker1 :: foreign_server where
  "worker1 = \<lparr>server_id = 1, server_name = ''worker_1'', server_host = ''10.0.0.1'', server_port = 5432,
              is_local = True, user_name = ''u''\<rparr>"

definition small_cluster :: fs_state where
  "small_cluster = \<lparr>fs_table = [worker1], fs_cache = [], fs_version = 0, fs_invalid = True, fs_conns = [],
     transactionState = (\<lambda>_. CUCKOO_REMOTE_TRANSACTION_NONE),
     fs_localVersion = 0, LocalServerId = - 1, LocalServerName = []\<rparr>"

definition clip_bytes :: "nat \<Rightarrow> string \<Rightarrow> string" where
  "clip_bytes n str = take (n - 1) str"

definition start_good :: "string \<Rightarrow> int \<Rightarrow> string \<Rightarrow> pgconn" where
  "start_good h p u = \<lparr>conn_hostaddr = h, conn_port = p, conn_bad = False\<rparr>"

lemma small_cluster_ok:
  "fs_wf small_cluster" "\<not> fs_invalid small_cluster \<longrightarrow> fs_current clip small_cluster"
  "length (fs_table small_cluster) \<le> FOREIGN_SERVER_NUM_MAX" "conn_inv small_cluster" "start_ok start_good"
  by (simp_all add: fs_wf_def small_cluster_def FOREIGN_SERVER_NUM_MAX_def conn_inv_def conns_match_def
      start_ok_def start_good_def)

theorem connection_info_reflects_catalog_witness:
  "\<exists>s'. GetForeignServerConnectionInfo clip_bytes [1] small_cluster = Returns (Inr [(''10.0.0.1'', 5432)], s')"
  using connection_info_reflects_catalog [OF small_cluster_ok(1-3), of clip_bytes "[1]"]
  by (auto simp: small_cluster_def worker1_def find_server_def clip_bytes_def HOST_MAX_LENGTH_def)

theorem all_server_ids_reflect_catalog_witness:
  "\<exists>ids s'. GetAllForeignServerId clip_bytes rev False True small_cluster = Returns (Inr ids, s')
     \<and> set ids = {1}"
  using all_server_ids_reflect_catalog [OF small_cluster_ok(1-3), of rev clip_bytes False True]
  by (auto simp: small_cluster_def worker1_def)


end
