(* ===== verification/Meta_Ids.thy ===== *)
theory Meta_Ids
  imports Cuckoo_Prelude
begin

text \<open>
  The identifiers metadata rows are keyed and placed by: inode ids
  (\<^verbatim>\<open>GenerateInodeIdBySeqAndNodeId\<close>), the part id of a file name and its combination with the parent
  id (\<^verbatim>\<open>HashPartId\<close>, \<^verbatim>\<open>CombineParentIdWithPartId\<close> of \<^verbatim>\<open>metadb/meta_handle.c\<close>) and the hash that
  selects a shard (\<^verbatim>\<open>HashShard\<close> of \<^verbatim>\<open>utils/utils.c\<close>). PostgreSQL's \<^verbatim>\<open>hash_bytes_uint32\<close> is a
  parameter, as is whether plain \<^verbatim>\<open>char\<close> is signed on the host.
\<close>

definition FILENAMELENGTH :: nat where [cuckoo_defs]: "FILENAMELENGTH = 256"
definition PART_ID_MASK :: u16 where [cuckoo_defs]: "PART_ID_MASK = 0x1FFF"
definition PART_ID_BIT_COUNT :: nat where [cuckoo_defs]: "PART_ID_BIT_COUNT = 13"

definition GenerateInodeIdBySeqAndNodeId :: "u64 \<Rightarrow> u32 \<Rightarrow> u64" where
  "GenerateInodeIdBySeqAndNodeId seq nodeId = push_bit 12 seq OR ucast (nodeId AND 0xFFF)"

text \<open>The value of a plain \<^verbatim>\<open>char\<close> in an arithmetic expression.\<close>

definition char_int :: "bool \<Rightarrow> char \<Rightarrow> int" where
  "char_int char_signed c =
     (let v = of_char c in if char_signed \<and> v \<ge> 128 then v - 256 else v)"

primrec HashPartId_loop :: "bool \<Rightarrow> string \<Rightarrow> u16 \<Rightarrow> u16" where
  "HashPartId_loop char_signed [] hashValue = hashValue"
| "HashPartId_loop char_signed (c # s) hashValue =
     HashPartId_loop char_signed s (hashValue * 31 + word_of_int (char_int char_signed c))"

definition HashPartId :: "bool \<Rightarrow> string \<Rightarrow> u16" where
  "HashPartId char_signed fileName =
     HashPartId_loop char_signed (take FILENAMELENGTH fileName) 0 AND PART_ID_MASK"

definition CombineParentIdWithPartId :: "u64 \<Rightarrow> u16 \<Rightarrow> u64" where
  "CombineParentIdWithPartId parent_id part_id = push_bit PART_ID_BIT_COUNT parent_id OR ucast part_id"

definition HashShard :: "(u32 \<Rightarrow> u32) \<Rightarrow> u64 \<Rightarrow> int" where
  "HashShard hash_bytes_uint32 parentId_partId =
     (let val = parentId_partId AND ucast PART_ID_MASK;
          lohalf = ucast val :: u32;
          hihalf = ucast (drop_bit 32 val) :: u32;
          lohalf = lohalf XOR (if sint val \<ge> 0 then hihalf else NOT hihalf);
          res = hash_bytes_uint32 lohalf
      in sint (res AND NOT (push_bit 31 1)))"

section \<open>Inode ids\<close>

lemma and_0xFFF: "unat ((w :: u32) AND 0xFFF) = unat w mod 2 ^ 12"
  using unat_and_mask [of w 12] by (simp add: mask_eq_exp_minus_1)

lemma unat_inode_id:
  assumes "unat seq < 2 ^ 52"
  shows "unat (GenerateInodeIdBySeqAndNodeId seq nodeId) = unat seq * 2 ^ 12 + unat nodeId mod 2 ^ 12"
proof -
  have "unat nodeId mod 2 ^ 12 < 2 ^ 12" by simp
  then have u: "unat (ucast (nodeId AND 0xFFF) :: u64) = unat nodeId mod 2 ^ 12"
    by (simp add: unsigned_ucast_eq and_0xFFF take_bit_nat_eq_self)
  show ?thesis
    unfolding GenerateInodeIdBySeqAndNodeId_def using assms
    by (subst unat_pack) (simp_all add: u)
qed



section \<open>Part ids\<close>

lemma HashPartId_bound: "unat (HashPartId char_signed name) < 2 ^ 13"
  using unat_and_mask [of "HashPartId_loop char_signed (take FILENAMELENGTH name) 0" 13]
  by (simp add: HashPartId_def PART_ID_MASK_def mask_eq_exp_minus_1)

lemma unat_Combine:
  assumes "unat parent < 2 ^ 51" "unat part < 2 ^ 13"
  shows "unat (CombineParentIdWithPartId parent part) = unat parent * 2 ^ 13 + unat part"
proof -
  have u: "unat (ucast part :: u64) = unat part"
    using assms(2) by (simp add: unsigned_ucast_eq take_bit_nat_eq_self)
  show ?thesis
    unfolding CombineParentIdWithPartId_def PART_ID_BIT_COUNT_def using assms
    by (subst unat_pack) (simp_all add: u)
qed

text \<open>
  the keys of a directory's entries form one interval that no other directory touches: for
  parent ids below 2 to the 51, a combined key lies between the smallest and the largest key of a
  directory exactly when it was built for that directory. This is the range a directory listing and
  the emptiness check of a removal scan.
\<close>

theorem directory_key_range:
  assumes "unat parent < 2 ^ 51" "unat dir < 2 ^ 51"
  shows "CombineParentIdWithPartId dir 0 \<le> CombineParentIdWithPartId parent (HashPartId sg name)
       \<and> CombineParentIdWithPartId parent (HashPartId sg name)
           \<le> CombineParentIdWithPartId dir PART_ID_MASK
     \<longleftrightarrow> parent = dir"
proof -
  have p: "unat (HashPartId sg name) < 2 ^ 13" by (rule HashPartId_bound)
  have "unat dir * 8192 \<le> unat parent * 8192 + unat (HashPartId sg name)
      \<and> unat parent * 8192 + unat (HashPartId sg name) \<le> unat dir * 8192 + 8191
      \<longleftrightarrow> unat parent = unat dir"
    using p by auto
  then show ?thesis
    using unat_Combine [OF assms(1) p] unat_Combine [OF assms(2), of 0]
      unat_Combine [OF assms(2), of PART_ID_MASK]
    by (simp add: word_le_nat_alt PART_ID_MASK_def word_unat_eq_iff)
qed

theorem directory_key_range_witness:
  "\<not> (CombineParentIdWithPartId 5 0 \<le> CombineParentIdWithPartId 6 (HashPartId True ''f'')
      \<and> CombineParentIdWithPartId 6 (HashPartId True ''f'') \<le> CombineParentIdWithPartId 5 PART_ID_MASK)"
  using directory_key_range [of 6 5] by simp

section \<open>The shard hash\<close>

lemma sint_clear_sign:
  fixes w :: u32 shows "0 \<le> sint (w AND NOT (push_bit 31 1)) \<and> sint (w AND NOT (push_bit 31 1)) < 2 ^ 31"
proof -
  let ?v = "w AND NOT (push_bit 31 1)"
  have "\<not> bit ?v 31" by (simp add: bit_and_iff bit_not_iff bit_push_bit_iff)
  then have "\<not> bit (uint ?v) 31" by (simp add: bit_uint_iff)
  then have "sint ?v = take_bit 31 (uint ?v)"
    by (simp add: sint_uint signed_take_bit_eq_if_positive)
  then show ?thesis by (simp add: take_bit_eq_mod)
qed



end
