(* ===== verification/Shard_Table.thy ===== *)
theory Shard_Table
  imports Foreign_Server Meta_Ids
begin

text \<open>
  \<^verbatim>\<open>cuckoo/metadb/shard_table.c\<close>: the catalog that assigns hash ranges to servers, its copy in shared
  memory, and the lookups that route a key. A row holds the upper end of its range; the catalog is a
  list in index order with distinct range points. Every 32-bit value stays in range where the code
  computes with it, so they are \<open>int\<close>; positions in the copy are \<open>nat\<close>.
\<close>

definition SHARD_COUNT_MAX :: nat where "SHARD_COUNT_MAX = 100000000"
definition SHARD_TABLE_RANGE_MIN :: int where "SHARD_TABLE_RANGE_MIN = 0"
definition SHARD_TABLE_RANGE_MAX :: int where "SHARD_TABLE_RANGE_MAX = 2147483647"

record shard =
  range_point :: int
  shard_server :: int

record sh_state =
  st_table :: "shard list"
  st_cache :: "shard list"
  st_invalid :: bool

record cluster =
  cl_fs :: fs_state
  cl_sh :: sh_state

section \<open>The shared copy\<close>

definition InvalidateShardTableShmemCache :: "sh_state \<Rightarrow> sh_state" where
  "InvalidateShardTableShmemCache s = s\<lparr>st_invalid := True\<rparr>"

primrec shard_scan :: "shard list \<Rightarrow> shard list \<Rightarrow> shard list \<times> bool" where
  "shard_scan [] cache = (cache, False)"
| "shard_scan (row # rows) cache =
     (if length cache \<ge> SHARD_COUNT_MAX then (cache, True) else shard_scan rows (cache @ [row]))"

definition ReloadShardTableShmemCache :: "(sh_state, unit) op" where
  "ReloadShardTableShmemCache s =
     (if \<not> st_invalid s then (Inr (), s)
      else let s = s\<lparr>st_invalid := False, st_cache := []\<rparr>;
               (cache, exceedMaxNumOfShardTable) = shard_scan (st_table s) (st_cache s);
               s = s\<lparr>st_cache := cache\<rparr> in
        if exceedMaxNumOfShardTable
        then (Inl PROGRAM_ERROR, InvalidateShardTableShmemCache s)
        else (Inr (), s))"

definition cuckoo_reload_shard_table_cache :: "(sh_state, unit) op" where
  "cuckoo_reload_shard_table_cache s = ReloadShardTableShmemCache (InvalidateShardTableShmemCache s)"

definition with_current_shards ::
    "(sh_state, 'a) op \<Rightarrow> sh_state \<Rightarrow> ((CuckooErrorCode + 'a) \<times> sh_state) run" where
  "with_current_shards f s =
     (case reload_while st_invalid ReloadShardTableShmemCache s of
        None \<Rightarrow> Loops
      | Some (Inl e, s') \<Rightarrow> Returns (Inl e, s')
      | Some (Inr u, s') \<Rightarrow> Returns (f s'))"

definition GetShardTableData where
  "GetShardTableData = with_current_shards (\<lambda>s. (Inr (st_cache s), s))"

definition GetShardTableSize where
  "GetShardTableSize = with_current_shards (\<lambda>s. (Inr (length (st_cache s)), s))"

section \<open>Routing\<close>

text \<open>The binary search of \<^verbatim>\<open>SearchShardInfoByShardValue\<close>.\<close>

function search_loop :: "shard list \<Rightarrow> int \<Rightarrow> nat \<Rightarrow> nat \<Rightarrow> nat" where
  "search_loop cache hashvalue l r =
     (if l < r
      then let mid = (l + r) div 2 in
           if range_point (cache ! mid) < hashvalue then search_loop cache hashvalue (mid + 1) r
           else search_loop cache hashvalue l mid
      else l)"
  by pat_completeness auto
termination by (relation "measure (\<lambda>(_, _, l, r). r - l)") auto

declare search_loop.simps [simp del]

definition SearchShardInfoByShardValue ::
    "(u32 \<Rightarrow> u32) \<Rightarrow> u64 \<Rightarrow> sh_state \<Rightarrow> ((CuckooErrorCode + int \<times> int) \<times> sh_state) run" where
  "SearchShardInfoByShardValue h shardColValue =
     (let hashvalue = HashShard h shardColValue in
      with_current_shards (\<lambda>s.
        let l = search_loop (st_cache s) hashvalue 0 (length (st_cache s)) in
        if l = length (st_cache s) then (Inl PROGRAM_ERROR, s)
        else (Inr (range_point (st_cache s ! l), shard_server (st_cache s ! l)), s)))"

section \<open>Changing the catalog\<close>

definition find_shard :: "int \<Rightarrow> shard list \<Rightarrow> shard option" where
  "find_shard p rows = find (\<lambda>r. range_point r = p) rows"

definition insert_shard :: "shard \<Rightarrow> (sh_state, unit) op" where
  "insert_shard row s =
     (case find_shard (range_point row) (st_table s) of
        Some _ \<Rightarrow> (Inl UNKNOWN, s)
      | None \<Rightarrow> (Inr (), s\<lparr>st_table := insort_key range_point row (st_table s)\<rparr>))"

definition build_range_point :: "int \<Rightarrow> int \<Rightarrow> int" where
  "build_range_point shardCount i =
     (if i = shardCount - 1 then SHARD_TABLE_RANGE_MAX
      else (SHARD_TABLE_RANGE_MAX - SHARD_TABLE_RANGE_MIN) * (i + 1) div shardCount
           + SHARD_TABLE_RANGE_MIN)"

text \<open>The loop over \<open>i\<close>, the remaining iterations as a list.\<close>

primrec build_rows :: "int \<Rightarrow> int list \<Rightarrow> nat \<Rightarrow> nat list \<Rightarrow> (sh_state, unit) op" where
  "build_rows shardCount servers serverRound [] = (\<lambda>s. (Inr (), s))"
| "build_rows shardCount servers serverRound (i # is) =
     op_bind (insert_shard \<lparr>range_point = build_range_point shardCount (int i),
                            shard_server = servers ! serverRound\<rparr>)
       (\<lambda>_. build_rows shardCount servers ((serverRound + 1) mod length servers) is)"

definition cuckoo_build_shard_table ::
    "(nat \<Rightarrow> string \<Rightarrow> string) \<Rightarrow> (foreign_server list \<Rightarrow> foreign_server list) \<Rightarrow> int \<Rightarrow> cluster
      \<Rightarrow> ((CuckooErrorCode + unit) \<times> cluster) run" where
  "cuckoo_build_shard_table clip seq shardCount c =
     (if shardCount \<le> 0 \<or> shardCount > int SHARD_COUNT_MAX then Returns (Inl ARGUMENT_ERROR, c)
      else run_bind (GetAllForeignServerId clip seq False True (cl_fs c)) (\<lambda>(r, fs).
        let c = c\<lparr>cl_fs := fs\<rparr> in
        case r of
          Inl e \<Rightarrow> Returns (Inl e, c)
        | Inr serverIdList \<Rightarrow>
            if length serverIdList = 0 then Returns (Inl ARGUMENT_ERROR, c)
            else let (r, sh) = op_bind (build_rows shardCount serverIdList 0 [0 ..< nat shardCount])
                       (\<lambda>_ s. (Inr (), InvalidateShardTableShmemCache s)) (cl_sh c)
                 in Returns (r, c\<lparr>cl_sh := sh\<rparr>)))"

text \<open>One iteration of \<^verbatim>\<open>cuckoo_update_shard_table\<close>: insert or change the server of a range point.\<close>

definition put_shard :: "int \<Rightarrow> int \<Rightarrow> (sh_state, unit) op" where
  "put_shard p srv s =
     (case find_shard p (st_table s) of
        None \<Rightarrow> insert_shard \<lparr>range_point = p, shard_server = srv\<rparr> s
      | Some _ \<Rightarrow> (Inr (), s\<lparr>st_table :=
          map (\<lambda>r. if range_point r = p then r\<lparr>shard_server := srv\<rparr> else r) (st_table s)\<rparr>))"

fun put_shards :: "(int \<times> int) list \<Rightarrow> (sh_state, unit) op" where
  "put_shards [] = (\<lambda>s. (Inr (), s))"
| "put_shards ((p, srv) # rest) = op_bind (put_shard p srv) (\<lambda>_. put_shards rest)"

definition cuckoo_update_shard_table :: "int list \<Rightarrow> int list \<Rightarrow> (sh_state, unit) op" where
  "cuckoo_update_shard_table points servers s =
     (if length points \<noteq> length servers then (Inl ARGUMENT_ERROR, s)
      else op_bind (put_shards (zip points servers))
             (\<lambda>_ s. ReloadShardTableShmemCache (InvalidateShardTableShmemCache s)) s)"

section \<open>The table handed to clients\<close>

record ShardInfo =
  rangeMin :: int
  rangeMax :: int
  si_host :: string
  si_port :: int
  si_server :: int

fun renew_ranges :: "int \<Rightarrow> shard list \<Rightarrow> (int \<times> int \<times> int) list" where
  "renew_ranges rangeLow [] = []"
| "renew_ranges rangeLow (r # rs) =
     (rangeLow, range_point r, shard_server r) # renew_ranges (range_point r + 1) rs"

definition cuckoo_renew_shard_table ::
    "(nat \<Rightarrow> string \<Rightarrow> string) \<Rightarrow> cluster \<Rightarrow> ((CuckooErrorCode + ShardInfo list) \<times> cluster) run" where
  "cuckoo_renew_shard_table clip c =
     run_bind (with_current_shards (\<lambda>s. (Inr (renew_ranges SHARD_TABLE_RANGE_MIN (st_cache s)), s)) (cl_sh c))
       (\<lambda>(r, sh). let c = c\<lparr>cl_sh := sh\<rparr> in
          case r of
            Inl e \<Rightarrow> Returns (Inl e, c)
          | Inr ranges \<Rightarrow>
              run_bind (GetForeignServerConnectionInfo clip (map (\<lambda>(_, _, srv). srv) ranges) (cl_fs c))
                (\<lambda>(r, fs). let c = c\<lparr>cl_fs := fs\<rparr> in
                   case r of
                     Inl e \<Rightarrow> Returns (Inl e, c)
                   | Inr infos \<Rightarrow>
                       Returns (Inr (map (\<lambda>((lo, hi, srv), (host, port)).
                           \<lparr>rangeMin = lo, rangeMax = hi, si_host = host, si_port = port, si_server = srv\<rparr>)
                         (zip ranges infos)), c)))"

section \<open>The copy reflects the catalog\<close>

lemma shard_scan_eq:
  "length cache + length rows \<le> SHARD_COUNT_MAX \<Longrightarrow> shard_scan rows cache = (cache @ rows, False)"
  by (induction rows arbitrary: cache) auto

lemma Reload_shards_invalid:
  assumes "st_invalid s" "length (st_table s) \<le> SHARD_COUNT_MAX"
  shows "ReloadShardTableShmemCache s = (Inr (), s\<lparr>st_invalid := False, st_cache := st_table s\<rparr>)"
  using assms shard_scan_eq [of "[]" "st_table s"]
  by (simp add: ReloadShardTableShmemCache_def Let_def)

lemma shard_scan_prefix: "shard_scan rows cache = (cache', False) \<Longrightarrow> cache' = cache @ rows"
  by (induction rows arbitrary: cache) (fastforce split: if_splits)+

interpretation shards: reloadable st_invalid ReloadShardTableShmemCache "\<lambda>s. st_cache s = st_table s"
proof
  show "\<not> st_invalid s \<Longrightarrow> ReloadShardTableShmemCache s = (Inr (), s)" for s
    by (simp add: ReloadShardTableShmemCache_def)
  show "\<not> st_invalid s' \<and> st_cache s' = st_table s'"
    if "st_invalid s" "ReloadShardTableShmemCache s = (Inr u, s')" for s u s'
    using that by (auto simp: ReloadShardTableShmemCache_def Let_def split: if_splits prod.splits
        dest!: shard_scan_prefix)
  show "st_invalid s'" if "ReloadShardTableShmemCache s = (Inl e, s')" for s e s'
    using that by (auto simp: ReloadShardTableShmemCache_def Let_def InvalidateShardTableShmemCache_def
        split: if_splits prod.splits)
qed

definition shards_ok :: "sh_state \<Rightarrow> bool" where
  "shards_ok s \<longleftrightarrow> length (st_table s) \<le> SHARD_COUNT_MAX
     \<and> (\<not> st_invalid s \<longrightarrow> st_cache s = st_table s)"

lemma with_current_shards_eq:
  assumes "shards_ok s"
  shows "with_current_shards f s = Returns (f (s\<lparr>st_invalid := False, st_cache := st_table s\<rparr>))"
proof (cases "st_invalid s")
  case True
  then show ?thesis
    using assms Reload_shards_invalid [OF True]
    by (simp add: with_current_shards_def shards.reload_while_eq shards_ok_def)
next
  case False
  then have "s = s\<lparr>st_invalid := False, st_cache := st_table s\<rparr>" using assms by (simp add: shards_ok_def)
  then show ?thesis
    using False shards.reload_idle by (simp add: with_current_shards_def shards.reload_while_eq)
qed

section \<open>Routing finds the range of a key\<close>

definition shards_sorted :: "shard list \<Rightarrow> bool" where
  "shards_sorted rows \<longleftrightarrow> sorted_wrt (\<lambda>a b. range_point a < range_point b) rows"

text \<open>A table that covers the whole hash range: sorted, from 0 up to the largest value.\<close>

definition shards_cover :: "shard list \<Rightarrow> bool" where
  "shards_cover rows \<longleftrightarrow> shards_sorted rows \<and> rows \<noteq> [] \<and> range_point (last rows) = SHARD_TABLE_RANGE_MAX"

lemma search_loop_spec:
  assumes "shards_sorted cache" "l \<le> r" "r \<le> length cache"
    and "\<And>i. i < l \<Longrightarrow> range_point (cache ! i) < h"
    and "\<And>i. r \<le> i \<Longrightarrow> i < length cache \<Longrightarrow> h \<le> range_point (cache ! i)"
  shows "search_loop cache h l r \<le> length cache
     \<and> (\<forall>i < search_loop cache h l r. range_point (cache ! i) < h)
     \<and> (\<forall>i. search_loop cache h l r \<le> i \<and> i < length cache \<longrightarrow> h \<le> range_point (cache ! i))"
  using assms
proof (induction cache h l r rule: search_loop.induct)
  case (1 cache h l r)
  show ?case
  proof (cases "l < r")
    case False
    then have "search_loop cache h l r = l" by (subst search_loop.simps) simp
    moreover have "l = r" using False 1(4) by simp
    ultimately show ?thesis using 1(5,6,7) by simp
  next
    case True
    let ?m = "(l + r) div 2"
    have m: "l \<le> ?m" "?m < r" using True by auto
    have mono: "range_point (cache ! i) < range_point (cache ! j)" if "i < j" "j < length cache" for i j
      using 1(3) that by (simp add: shards_sorted_def sorted_wrt_iff_nth_less)
    show ?thesis
    proof (cases "range_point (cache ! ?m) < h")
      case lt: True
      have "range_point (cache ! i) < h" if "i < ?m + 1" for i
        using mono [of i ?m] lt that m 1(5) by (cases "i = ?m") simp_all
      then have "search_loop cache h (?m + 1) r \<le> length cache
         \<and> (\<forall>i < search_loop cache h (?m + 1) r. range_point (cache ! i) < h)
         \<and> (\<forall>i. search_loop cache h (?m + 1) r \<le> i \<and> i < length cache \<longrightarrow> h \<le> range_point (cache ! i))"
        using True lt m 1(3,5,7) by (intro 1(1)) simp_all
      moreover have "search_loop cache h l r = search_loop cache h (?m + 1) r"
        using True lt by (subst search_loop.simps) (simp add: Let_def)
      ultimately show ?thesis by simp
    next
      case ge: False
      have "h \<le> range_point (cache ! i)" if "?m \<le> i" "i < length cache" for i
        using mono [of ?m i] ge that by (cases "i = ?m") auto
      then have "search_loop cache h l ?m \<le> length cache
         \<and> (\<forall>i < search_loop cache h l ?m. range_point (cache ! i) < h)
         \<and> (\<forall>i. search_loop cache h l ?m \<le> i \<and> i < length cache \<longrightarrow> h \<le> range_point (cache ! i))"
        using True ge m 1(3,5,6) by (intro 1(2)) simp_all
      moreover have "search_loop cache h l r = search_loop cache h l ?m"
        using True ge by (subst search_loop.simps) (simp add: Let_def)
      ultimately show ?thesis by simp
    qed
  qed
qed

lemma search_loop_find:
  assumes "shards_sorted cache"
  shows "find (\<lambda>r. h \<le> range_point r) cache =
     (let l = search_loop cache h 0 (length cache) in if l = length cache then None else Some (cache ! l))"
proof -
  let ?l = "search_loop cache h 0 (length cache)"
  have sp: "?l \<le> length cache" "\<forall>i < ?l. range_point (cache ! i) < h"
    "\<forall>i. ?l \<le> i \<and> i < length cache \<longrightarrow> h \<le> range_point (cache ! i)"
    using search_loop_spec [OF assms, of 0 "length cache" h] by auto
  show ?thesis
  proof (cases "?l = length cache")
    case True
    then have "\<not> (\<exists>r. r \<in> set cache \<and> h \<le> range_point r)"
      using sp(2) by (auto simp: in_set_conv_nth not_le)
    then show ?thesis using True by (simp add: find_None_iff)
  next
    case False
    then have "find (\<lambda>r. h \<le> range_point r) cache = Some (cache ! ?l)"
      using sp by (subst find_Some_iff) (metis linorder_not_le order.order_iff_strict)
    then show ?thesis using False by simp
  qed
qed

lemma covered_value_found:
  assumes "shards_cover rows" "v \<le> SHARD_TABLE_RANGE_MAX"
  shows "\<exists>r \<in> set rows. find (\<lambda>r. v \<le> range_point r) rows = Some r"
proof -
  have "last rows \<in> set rows" "v \<le> range_point (last rows)"
    using assms by (auto simp: shards_cover_def)
  then have "find (\<lambda>r. v \<le> range_point r) rows \<noteq> None" by (auto simp: find_None_iff)
  then obtain r where r: "find (\<lambda>r. v \<le> range_point r) rows = Some r" by blast
  then have "r \<in> set rows" by (auto simp: find_Some_iff)
  then show ?thesis using r by blast
qed

lemma HashShard_le_max: "HashShard h key \<le> SHARD_TABLE_RANGE_MAX"
  using sint_clear_sign by (simp add: HashShard_def Let_def SHARD_TABLE_RANGE_MAX_def zle_diff1_eq [symmetric])

lemma HashShard_ge_min: "SHARD_TABLE_RANGE_MIN \<le> HashShard h key"
  using sint_clear_sign by (simp add: HashShard_def Let_def SHARD_TABLE_RANGE_MIN_def)

lemma SearchShard_eq:
  assumes "shards_ok s" "shards_cover (st_table s)"
  shows "\<exists>r s'. find (\<lambda>r. HashShard h key \<le> range_point r) (st_table s) = Some r \<and> r \<in> set (st_table s)
     \<and> SearchShardInfoByShardValue h key s = Returns (Inr (range_point r, shard_server r), s')
     \<and> shards_ok s' \<and> st_table s' = st_table s"
proof -
  obtain r where r: "r \<in> set (st_table s)"
    "find (\<lambda>r. HashShard h key \<le> range_point r) (st_table s) = Some r"
    using covered_value_found [OF assms(2) HashShard_le_max] by blast
  let ?l = "search_loop (st_table s) (HashShard h key) 0 (length (st_table s))"
  have "?l \<noteq> length (st_table s)" "st_table s ! ?l = r"
    using r(2) assms(2) search_loop_find [of "st_table s" "HashShard h key"]
    by (auto simp: shards_cover_def Let_def split: if_splits)
  then have "SearchShardInfoByShardValue h key s = Returns (Inr (range_point r, shard_server r),
      s\<lparr>st_invalid := False, st_cache := st_table s\<rparr>)"
    by (simp add: SearchShardInfoByShardValue_def with_current_shards_eq [OF assms(1)] Let_def)
  then show ?thesis using r assms(1) by (auto simp: shards_ok_def)
qed

text \<open>
  C31: \<^verbatim>\<open>SearchShardInfoByShardValue\<close> routes every key. If the catalog is sorted and its last range
  point is the largest 32-bit integer, then whatever the key, and whether or not the shared copy was
  valid, the lookup returns the row with the smallest range point not below the key's hash.
\<close>

theorem every_key_is_routed:
  assumes "shards_ok s" "shards_cover (st_table s)"
  shows "\<exists>r s'. SearchShardInfoByShardValue h key s = Returns (Inr (range_point r, shard_server r), s')
     \<and> r \<in> set (st_table s) \<and> HashShard h key \<le> range_point r
     \<and> (\<forall>q \<in> set (st_table s). HashShard h key \<le> range_point q \<longrightarrow> range_point r \<le> range_point q)"
proof -
  obtain r s' where r: "find (\<lambda>r. HashShard h key \<le> range_point r) (st_table s) = Some r"
    "SearchShardInfoByShardValue h key s = Returns (Inr (range_point r, shard_server r), s')"
    "r \<in> set (st_table s)"
    using SearchShard_eq [OF assms] by blast
  obtain i where i: "i < length (st_table s)" "r = st_table s ! i" "HashShard h key \<le> range_point r"
    "\<forall>j < i. \<not> HashShard h key \<le> range_point (st_table s ! j)"
    using r(1) unfolding find_Some_iff by blast
  have "range_point r \<le> range_point q" if "q \<in> set (st_table s)" "HashShard h key \<le> range_point q" for q
  proof -
    obtain j where j: "j < length (st_table s)" "q = st_table s ! j" using \<open>q \<in> _\<close> by (metis in_set_conv_nth)
    then have "i \<le> j" using i(4) that(2) not_le by blast
    moreover have "range_point (st_table s ! i) < range_point (st_table s ! j)" if "i < j"
      using assms(2) that j(1) by (simp add: shards_cover_def shards_sorted_def sorted_wrt_iff_nth_less)
    ultimately show ?thesis using i(2) j(2) by (cases "i = j") simp_all
  qed
  then show ?thesis using r i(3) by blast
qed

section \<open>Building the table\<close>

lemma int_div_less_self_bound:
  assumes "(a :: int) < b * n" "0 < n" shows "a div n < b"
proof (rule ccontr)
  assume "\<not> a div n < b"
  then have "b * n \<le> a div n * n" using assms(2) by (intro mult_right_mono) simp_all
  also have "a div n * n \<le> a" using assms(2) by (metis add_le_same_cancel1 div_mult_mod_eq pos_mod_sign le_add_same_cancel1)
  finally show False using assms(1) by simp
qed

lemma build_range_point_less:
  assumes "0 < n" "n \<le> int SHARD_COUNT_MAX" "0 \<le> i" "i < j" "j < n"
  shows "build_range_point n i < build_range_point n j"
proof -
  let ?M = "2147483647 :: int"
  have step: "?M * (i + 1) div n < ?M * (k + 1) div n" if "i < k" for k
  proof -
    have "?M * (i + 1) + n \<le> ?M * (i + 1) + ?M" using assms(2) by (simp add: SHARD_COUNT_MAX_def)
    also have "\<dots> = ?M * (i + 2)" by simp
    also have "\<dots> \<le> ?M * (k + 1)" using that by (intro mult_left_mono) simp_all
    finally have "(?M * (i + 1) + n) div n \<le> ?M * (k + 1) div n"
      using assms(1) by (intro zdiv_mono1) simp_all
    moreover have "(?M * (i + 1) + n) div n = ?M * (i + 1) div n + 1"
      using assms(1) by (intro div_add_self2) simp
    ultimately show ?thesis by simp
  qed
  have "?M * (i + 1) div n < ?M"
  proof -
    have "?M * (i + 1) < ?M * n" using assms by (intro mult_strict_left_mono) simp_all
    then show ?thesis using assms(1) by (metis int_div_less_self_bound)
  qed
  then show ?thesis using step [OF assms(4)] assms
    by (simp add: build_range_point_def SHARD_TABLE_RANGE_MAX_def SHARD_TABLE_RANGE_MIN_def)
qed

lemma insort_key_greatest: "\<forall>x \<in> set xs. f x < f a \<Longrightarrow> insort_key f a xs = xs @ [a]"
  by (induction xs) auto

definition built_row :: "int \<Rightarrow> int list \<Rightarrow> nat \<Rightarrow> shard" where
  "built_row n servers i = \<lparr>range_point = build_range_point n (int i),
                            shard_server = servers ! (i mod length servers)\<rparr>"

lemma build_rows_eq:
  assumes n: "0 < n" "n \<le> int SHARD_COUNT_MAX" and servers: "servers \<noteq> []"
    and k: "k \<le> nat n" and tab: "st_table s = map (built_row n servers) [0..<k]"
  shows "build_rows n servers (k mod length servers) [k..<nat n] s
       = (Inr (), s\<lparr>st_table := map (built_row n servers) [0..<nat n]\<rparr>)"
  using k tab
proof (induction "nat n - k" arbitrary: k s)
  case 0
  then show ?case by simp
next
  case (Suc d)
  then have k: "k < nat n" by simp
  let ?row = "\<lparr>range_point = build_range_point n (int k), shard_server = servers ! (k mod length servers)\<rparr>"
  have less: "\<forall>x \<in> set (st_table s). range_point x < range_point ?row"
    using Suc.prems(2) build_range_point_less [OF n] k by (auto simp: built_row_def)
  then have "find_shard (range_point ?row) (st_table s) = None"
    by (auto simp: find_shard_def find_None_iff)
  then have "insert_shard ?row s = (Inr (), s\<lparr>st_table := st_table s @ [?row]\<rparr>)"
    using insort_key_greatest [OF less] by (simp add: insert_shard_def)
  moreover have "st_table s @ [?row] = map (built_row n servers) [0..<Suc k]"
    using Suc.prems(2) by (simp add: built_row_def)
  moreover have "[k..<nat n] = k # [Suc k..<nat n]" using k by (rule upt_conv_Cons)
  moreover have "(k mod length servers + 1) mod length servers = Suc k mod length servers"
    by (simp add: mod_Suc_eq)
  ultimately show ?case using Suc(1) [of "Suc k"] Suc(2) k by simp
qed

lemma built_rows_cover:
  assumes "0 < n" "n \<le> int SHARD_COUNT_MAX"
  shows "shards_cover (map (built_row n servers) [0..<nat n])"
proof -
  have "sorted_wrt (\<lambda>a b. range_point a < range_point b) (map (built_row n servers) [0..<nat n])"
    unfolding sorted_wrt_map
    by (rule sorted_wrt_mono_rel [OF _ sorted_wrt_upt])
      (use assms build_range_point_less [OF assms] in \<open>auto simp: built_row_def\<close>)
  moreover have "last (map (built_row n servers) [0..<nat n]) = built_row n servers (nat n - 1)"
    using assms by (simp add: last_map)
  ultimately show ?thesis using assms
    by (simp add: shards_cover_def shards_sorted_def built_row_def build_range_point_def)
qed

text \<open>
  C32: \<^verbatim>\<open>cuckoo_build_shard_table\<close> on an empty catalog, for a legal shard count and at least one
  worker, creates exactly that many shards, their range points strictly increasing and ending at the
  largest 32-bit integer, assigned to the workers in turn, and invalidates the shared copy; an illegal
  count is refused with \<^const>\<open>ARGUMENT_ERROR\<close> and changes nothing.
\<close>

theorem build_covers_range_round_robin:
  assumes servers: "GetAllForeignServerId clip seq False True (cl_fs c) = Returns (Inr ids, fs')"
    and empty: "st_table (cl_sh c) = []" and ids: "ids \<noteq> []"
  shows "if 0 < n \<and> n \<le> int SHARD_COUNT_MAX
     then \<exists>c'. cuckoo_build_shard_table clip seq n c = Returns (Inr (), c')
        \<and> length (st_table (cl_sh c')) = nat n \<and> shards_cover (st_table (cl_sh c'))
        \<and> (\<forall>i < nat n. shard_server (st_table (cl_sh c') ! i) = ids ! (i mod length ids))
        \<and> st_invalid (cl_sh c')
     else cuckoo_build_shard_table clip seq n c = Returns (Inl ARGUMENT_ERROR, c)"
proof (cases "0 < n \<and> n \<le> int SHARD_COUNT_MAX")
  case True
  then have b: "build_rows n ids 0 [0..<nat n] (cl_sh c)
      = (Inr (), (cl_sh c)\<lparr>st_table := map (built_row n ids) [0..<nat n]\<rparr>)"
    using build_rows_eq [of n ids 0 "cl_sh c"] ids empty by simp
  let ?c' = "c\<lparr>cl_fs := fs', cl_sh := (cl_sh c)\<lparr>st_table := map (built_row n ids) [0..<nat n],
      st_invalid := True\<rparr>\<rparr>"
  have "cuckoo_build_shard_table clip seq n c = Returns (Inr (), ?c')"
    using True servers ids b
    by (simp add: cuckoo_build_shard_table_def Let_def InvalidateShardTableShmemCache_def)
  moreover have "shards_cover (map (built_row n ids) [0..<nat n])" using True by (simp add: built_rows_cover)
  ultimately show ?thesis using True by (auto simp: built_row_def)
next
  case False
  then show ?thesis by (auto simp: cuckoo_build_shard_table_def)
qed

section \<open>Clients and servers agree\<close>

lemma renew_ranges_above:
  "v < lo \<Longrightarrow> \<forall>x \<in> set rows. v < range_point x \<Longrightarrow>
   filter (\<lambda>(l, h, srv). l \<le> v \<and> v \<le> h) (renew_ranges lo rows) = []"
  by (induction lo rows rule: renew_ranges.induct) auto

lemma renew_ranges_exactly_one:
  assumes "shards_sorted rows" "lo \<le> v" "find (\<lambda>r. v \<le> range_point r) rows = Some r"
  shows "\<exists>l. filter (\<lambda>(l, h, srv). l \<le> v \<and> v \<le> h) (renew_ranges lo rows)
     = [(l, range_point r, shard_server r)]"
  using assms
proof (induction lo rows rule: renew_ranges.induct)
  case (2 lo q rows)
  have srt: "shards_sorted rows" "\<forall>x \<in> set rows. range_point q < range_point x"
    using 2(2) by (auto simp: shards_sorted_def)
  show ?case
  proof (cases "v \<le> range_point q")
    case True
    then have "filter (\<lambda>(l, h, srv). l \<le> v \<and> v \<le> h) (renew_ranges (range_point q + 1) rows) = []"
      using srt(2) by (intro renew_ranges_above) auto
    then show ?thesis using 2 True by simp
  next
    case False
    then show ?thesis using 2(1) [OF srt(1)] 2(4) by simp
  qed
qed simp

lemma renew_ranges_servers: "map (\<lambda>(_, _, srv). srv) (renew_ranges lo rows) = map shard_server rows"
  by (induction lo rows rule: renew_ranges.induct) auto

lemma find_server_Some: "find_server sid rows \<noteq> None \<longleftrightarrow> sid \<in> server_id ` set rows"
  by (auto simp: find_server_def find_None_iff)

lemma connection_infos_exist:
  assumes "fs_wf fs" "\<not> fs_invalid fs \<longrightarrow> fs_current clip fs"
    "length (fs_table fs) \<le> FOREIGN_SERVER_NUM_MAX" "set sids \<subseteq> server_id ` set (fs_table fs)"
  obtains fs' where "GetForeignServerConnectionInfo clip sids fs = Returns
     (Inr (map (\<lambda>sid. let r = the (find_server sid (fs_table fs))
                in (clip HOST_MAX_LENGTH (server_host r), server_port r)) sids), fs')"
proof -
  obtain s' where w: "with_current_servers clip (\<lambda>s. (connection_infos (fs_cache s) sids, s)) fs
      = Returns (connection_infos (fs_cache s') sids, s')"
    and c: "fs_cache s' = map (cached_row clip) (fs_table fs)"
    by (rule with_current_servers_eq [OF assms(1) assms(2) [rule_format] assms(3),
          where f = "\<lambda>s. (connection_infos (fs_cache s) sids, s)"])
  have all: "\<forall>sid \<in> set sids. find_server sid (fs_table fs) \<noteq> None"
    using assms(4) find_server_Some by blast
  then have "connection_infos (fs_cache s') sids =
     Inr (map (\<lambda>sid. let r = the (find_server sid (fs_table fs))
                in (clip HOST_MAX_LENGTH (server_host r), server_port r)) sids)"
    unfolding connection_infos_eq c find_server_map
    by (auto simp: Let_def cached_row_def option.map_sel)
  then show thesis using that w by (simp add: GetForeignServerConnectionInfo_def)
qed

text \<open>The row of the client table for a range.\<close>

definition client_row :: "(nat \<Rightarrow> string \<Rightarrow> string) \<Rightarrow> foreign_server list \<Rightarrow> int \<times> int \<times> int \<Rightarrow> ShardInfo" where
  "client_row clip tab = (\<lambda>(lo, hi, srv). let r = the (find_server srv tab) in
     \<lparr>rangeMin = lo, rangeMax = hi, si_host = clip HOST_MAX_LENGTH (server_host r),
      si_port = server_port r, si_server = srv\<rparr>)"

lemma renew_shard_table_eq:
  assumes sh: "shards_ok (cl_sh c)"
    and fs: "fs_wf (cl_fs c)" "\<not> fs_invalid (cl_fs c) \<longrightarrow> fs_current clip (cl_fs c)"
      "length (fs_table (cl_fs c)) \<le> FOREIGN_SERVER_NUM_MAX"
    and known: "shard_server ` set (st_table (cl_sh c)) \<subseteq> server_id ` set (fs_table (cl_fs c))"
  shows "\<exists>c'. cuckoo_renew_shard_table clip c = Returns (Inr (map (client_row clip (fs_table (cl_fs c)))
     (renew_ranges SHARD_TABLE_RANGE_MIN (st_table (cl_sh c)))), c')"
proof -
  let ?ranges = "renew_ranges SHARD_TABLE_RANGE_MIN (st_table (cl_sh c))"
  let ?addr = "\<lambda>sid. let r = the (find_server sid (fs_table (cl_fs c)))
      in (clip HOST_MAX_LENGTH (server_host r), server_port r)"
  have "set (map (\<lambda>(_, _, srv). srv) ?ranges) \<subseteq> server_id ` set (fs_table (cl_fs c))"
    unfolding renew_ranges_servers using known by simp
  from connection_infos_exist [OF fs this] obtain fs' where
    ci: "GetForeignServerConnectionInfo clip (map (\<lambda>(_, _, srv). srv) ?ranges) (cl_fs c)
      = Returns (Inr (map ?addr (map (\<lambda>(_, _, srv). srv) ?ranges)), fs')" by blast
  have "map (\<lambda>((lo, hi, srv), (host, port)).
        \<lparr>rangeMin = lo, rangeMax = hi, si_host = host, si_port = port, si_server = srv\<rparr>)
      (zip rs (map ?addr (map (\<lambda>(_, _, srv). srv) rs))) = map (client_row clip (fs_table (cl_fs c))) rs" for rs
    by (induction rs) (auto simp: client_row_def Let_def)
  then show ?thesis
    by (simp add: cuckoo_renew_shard_table_def with_current_shards_eq [OF sh] ci del: map_map)
qed

text \<open>
  C15: clients and servers route alike. If the shard catalog covers the hash range and every server
  it names is registered, the table \<^verbatim>\<open>cuckoo_renew_shard_table\<close> hands to clients has for every key
  exactly one range that contains its hash, and that range names the server
  \<^verbatim>\<open>SearchShardInfoByShardValue\<close> finds for the key, with its registered host and port.
\<close>

theorem client_table_agrees_with_routing:
  assumes sh: "shards_ok (cl_sh c)" "shards_cover (st_table (cl_sh c))"
    and fs: "fs_wf (cl_fs c)" "\<not> fs_invalid (cl_fs c) \<longrightarrow> fs_current clip (cl_fs c)"
      "length (fs_table (cl_fs c)) \<le> FOREIGN_SERVER_NUM_MAX"
    and known: "shard_server ` set (st_table (cl_sh c)) \<subseteq> server_id ` set (fs_table (cl_fs c))"
  shows "\<exists>infos c' i sh' p. cuckoo_renew_shard_table clip c = Returns (Inr infos, c')
     \<and> filter (\<lambda>i. rangeMin i \<le> HashShard h key \<and> HashShard h key \<le> rangeMax i) infos = [i]
     \<and> SearchShardInfoByShardValue h key (cl_sh c) = Returns (Inr (p, si_server i), sh')
     \<and> p = rangeMax i
     \<and> (\<exists>r \<in> set (fs_table (cl_fs c)). server_id r = si_server i
          \<and> si_host i = clip HOST_MAX_LENGTH (server_host r) \<and> si_port i = server_port r)"
proof -
  let ?rows = "st_table (cl_sh c)" and ?v = "HashShard h key" and ?tab = "fs_table (cl_fs c)"
  obtain r sh' where r: "find (\<lambda>r. ?v \<le> range_point r) ?rows = Some r" "r \<in> set ?rows"
    and search: "SearchShardInfoByShardValue h key (cl_sh c) = Returns (Inr (range_point r, shard_server r), sh')"
    using SearchShard_eq [OF sh] by metis
  let ?ranges = "renew_ranges SHARD_TABLE_RANGE_MIN ?rows" and ?mk = "client_row clip ?tab"
  obtain c' where renew: "cuckoo_renew_shard_table clip c = Returns (Inr (map ?mk ?ranges), c')"
    using renew_shard_table_eq [OF sh(1) fs known] by blast
  obtain l where one: "filter (\<lambda>(l, h, srv). l \<le> ?v \<and> ?v \<le> h) ?ranges = [(l, range_point r, shard_server r)]"
    using renew_ranges_exactly_one [OF _ _ r(1), of SHARD_TABLE_RANGE_MIN] sh(2) HashShard_ge_min
    unfolding shards_cover_def by blast
  let ?i = "?mk (l, range_point r, shard_server r)"
  have "(\<lambda>i. rangeMin i \<le> ?v \<and> ?v \<le> rangeMax i) \<circ> ?mk = (\<lambda>(l, h, srv). l \<le> ?v \<and> ?v \<le> h)"
    by (auto simp: client_row_def Let_def fun_eq_iff)
  then have f: "filter (\<lambda>i. rangeMin i \<le> ?v \<and> ?v \<le> rangeMax i) (map ?mk ?ranges) = [?i]"
    unfolding filter_map using one by simp
  obtain q where q: "find_server (shard_server r) ?tab = Some q"
    using known r(2) find_server_Some [of "shard_server r" ?tab] by blast
  then have qr: "q \<in> set ?tab" "server_id q = shard_server r"
    unfolding find_server_def find_Some_iff by auto
  have i: "si_host ?i = clip HOST_MAX_LENGTH (server_host q)" "si_port ?i = server_port q"
    "si_server ?i = shard_server r" "rangeMax ?i = range_point r"
    by (simp_all add: client_row_def q Let_def)
  show ?thesis
    by (intro exI [of _ "map ?mk ?ranges"] exI [of _ c'] exI [of _ ?i] exI [of _ sh']
        exI [of _ "range_point r"] conjI bexI [OF _ qr(1)])
      (use renew f search i qr(2) in \<open>simp_all only:\<close>)
qed

section \<open>Updating the table\<close>

definition shard_map :: "shard list \<Rightarrow> int \<rightharpoonup> int" where
  "shard_map rows p = map_option shard_server (find_shard p rows)"

lemma shard_map_simps [simp]:
  "shard_map [] = Map.empty"
  "shard_map (r # rows) = (shard_map rows)(range_point r \<mapsto> shard_server r)"
  by (auto simp: shard_map_def find_shard_def fun_eq_iff)

lemma insort_shard:
  assumes "shards_sorted rows" "range_point row \<notin> range_point ` set rows"
  shows "shards_sorted (insort_key range_point row rows)
     \<and> shard_map (insort_key range_point row rows) = (shard_map rows)(range_point row \<mapsto> shard_server row)"
  using assms
proof (induction rows)
  case (Cons r rows)
  then show ?case
    by (auto simp: shards_sorted_def set_insort_key fun_eq_iff intro: less_trans)
qed (simp add: shards_sorted_def)

lemma map_shard_server:
  "shard_map (map (\<lambda>r. if range_point r = p then r\<lparr>shard_server := srv\<rparr> else r) rows)
     = (if p \<in> range_point ` set rows then (shard_map rows)(p \<mapsto> srv) else shard_map rows)"
  by (induction rows) (auto simp: fun_eq_iff)

lemma map_shard_sorted:
  "shards_sorted rows \<Longrightarrow>
   shards_sorted (map (\<lambda>r. if range_point r = p then r\<lparr>shard_server := srv\<rparr> else r) rows)"
  unfolding shards_sorted_def sorted_wrt_map by (erule sorted_wrt_mono_rel [rotated]) auto

lemma put_shard_ok:
  assumes "shards_sorted (st_table s)"
  shows "\<exists>s'. put_shard p srv s = (Inr (), s') \<and> shards_sorted (st_table s')
     \<and> shard_map (st_table s') = (shard_map (st_table s))(p \<mapsto> srv)
     \<and> length (st_table s') \<le> Suc (length (st_table s))"
proof (cases "p \<in> range_point ` set (st_table s)")
  case True
  then have "find_shard p (st_table s) \<noteq> None" by (auto simp: find_shard_def find_None_iff)
  then show ?thesis using True assms
    by (auto simp: put_shard_def map_shard_server map_shard_sorted)
next
  case False
  then have "find_shard p (st_table s) = None" by (auto simp: find_shard_def find_None_iff)
  then show ?thesis
    using insort_shard [OF assms, of "\<lparr>range_point = p, shard_server = srv\<rparr>"] False
    by (simp add: put_shard_def insert_shard_def)
qed

lemma put_shards_ok:
  "shards_sorted (st_table s) \<Longrightarrow>
   \<exists>s'. put_shards ps s = (Inr (), s') \<and> shards_sorted (st_table s')
     \<and> shard_map (st_table s') = shard_map (st_table s) ++ map_of (rev ps)
     \<and> length (st_table s') \<le> length (st_table s) + length ps"
proof (induction ps arbitrary: s)
  case (Cons x ps)
  obtain p srv where x: "x = (p, srv)" by (cases x)
  obtain s1 where s1: "put_shard p srv s = (Inr (), s1)" "shards_sorted (st_table s1)"
    "shard_map (st_table s1) = (shard_map (st_table s))(p \<mapsto> srv)"
    "length (st_table s1) \<le> Suc (length (st_table s))"
    using put_shard_ok [OF Cons.prems] by metis
  obtain s2 where "put_shards ps s1 = (Inr (), s2)" "shards_sorted (st_table s2)"
    "shard_map (st_table s2) = shard_map (st_table s1) ++ map_of (rev ps)"
    "length (st_table s2) \<le> length (st_table s1) + length ps"
    using Cons.IH [OF s1(2)] by metis
  then show ?case using s1 x
    by (intro exI [of _ s2]) (auto simp: map_add_def fun_eq_iff split: option.splits)
qed simp

text \<open>
  \<^verbatim>\<open>cuckoo_update_shard_table\<close> assigns each given range point to its given server, later entries
  winning, keeps all other rows and the order of the table, and leaves the shared copy valid and equal
  to the catalog; arrays of different lengths are refused with \<^const>\<open>ARGUMENT_ERROR\<close> and change nothing.
\<close>

theorem update_assigns_range_points:
  assumes "shards_sorted (st_table s)" "length (st_table s) + length points \<le> SHARD_COUNT_MAX"
  shows "if length points = length servers
     then \<exists>s'. cuckoo_update_shard_table points servers s = (Inr (), s')
        \<and> shards_sorted (st_table s')
        \<and> shard_map (st_table s') = shard_map (st_table s) ++ map_of (rev (zip points servers))
        \<and> \<not> st_invalid s' \<and> st_cache s' = st_table s'
     else cuckoo_update_shard_table points servers s = (Inl ARGUMENT_ERROR, s)"
proof (cases "length points = length servers")
  case True
  obtain s1 where s1: "put_shards (zip points servers) s = (Inr (), s1)" "shards_sorted (st_table s1)"
    "shard_map (st_table s1) = shard_map (st_table s) ++ map_of (rev (zip points servers))"
    "length (st_table s1) \<le> length (st_table s) + length (zip points servers)"
    using put_shards_ok [OF assms(1)] by metis
  have "ReloadShardTableShmemCache (InvalidateShardTableShmemCache s1)
      = (Inr (), s1\<lparr>st_invalid := False, st_cache := st_table s1\<rparr>)"
    using Reload_shards_invalid [of "InvalidateShardTableShmemCache s1"] s1(4) assms(2) True
    by (simp add: InvalidateShardTableShmemCache_def)
  then show ?thesis using True s1 by (simp add: cuckoo_update_shard_table_def)
qed (simp add: cuckoo_update_shard_table_def)

section \<open>A concrete table\<close>

definition two_shards :: sh_state where
  "two_shards = \<lparr>st_table = [\<lparr>range_point = 1000, shard_server = 1\<rparr>, \<lparr>range_point = 2147483647, shard_server = 2\<rparr>],
                 st_cache = [], st_invalid = True\<rparr>"

lemma two_shards_ok: "shards_ok two_shards" "shards_cover (st_table two_shards)"
  by (simp_all add: shards_ok_def shards_cover_def shards_sorted_def two_shards_def SHARD_COUNT_MAX_def
      SHARD_TABLE_RANGE_MAX_def)

theorem every_key_is_routed_witness:
  "\<exists>(r :: shard) s'. SearchShardInfoByShardValue (\<lambda>x. x) 7 two_shards = Returns (Inr (range_point r, shard_server r), s')"
  using every_key_is_routed [OF two_shards_ok, of "\<lambda>x. x" 7] by blast

definition small_cluster_state :: cluster where
  "small_cluster_state = \<lparr>cl_fs = small_cluster, cl_sh = \<lparr>st_table = [], st_cache = [], st_invalid = True\<rparr>\<rparr>"

lemma small_cluster_ids:
  "\<exists>fs'. GetAllForeignServerId clip_bytes rev False True small_cluster = Returns (Inr [1], fs')"
  by (simp add: GetAllForeignServerId_def with_current_servers_def servers.reload_while_eq Reload_invalid
      small_cluster_def fs_wf_def FOREIGN_SERVER_NUM_MAX_def worker1_def cached_row_def)

theorem build_covers_range_round_robin_witness:
  "\<exists>c'. cuckoo_build_shard_table clip_bytes rev 3 small_cluster_state = Returns (Inr (), c')
     \<and> length (st_table (cl_sh c')) = 3 \<and> shards_cover (st_table (cl_sh c'))"
proof -
  obtain fs' where "GetAllForeignServerId clip_bytes rev False True (cl_fs small_cluster_state) = Returns (Inr [1], fs')"
    using small_cluster_ids by (auto simp: small_cluster_state_def)
  from build_covers_range_round_robin [OF this, of 3] show ?thesis
    by (auto simp: small_cluster_state_def SHARD_COUNT_MAX_def)
qed

definition one_worker_cluster :: cluster where
  "one_worker_cluster = \<lparr>cl_fs = small_cluster, cl_sh = two_shards\<lparr>st_table :=
     [\<lparr>range_point = 2147483647, shard_server = 1\<rparr>]\<rparr>\<rparr>"

lemma one_worker_cluster_ok:
  "shards_ok (cl_sh one_worker_cluster)" "shards_cover (st_table (cl_sh one_worker_cluster))"
  "cl_fs one_worker_cluster = small_cluster"
  "shard_server ` set (st_table (cl_sh one_worker_cluster)) \<subseteq> server_id ` set (fs_table small_cluster)"
  by (simp_all add: one_worker_cluster_def two_shards_def shards_ok_def shards_cover_def shards_sorted_def
      SHARD_COUNT_MAX_def SHARD_TABLE_RANGE_MAX_def small_cluster_def worker1_def)

theorem client_table_agrees_with_routing_witness:
  "\<exists>infos c' i sh' p. cuckoo_renew_shard_table clip_bytes one_worker_cluster = Returns (Inr infos, c')
     \<and> filter (\<lambda>i. rangeMin i \<le> HashShard (\<lambda>x. x) 7 \<and> HashShard (\<lambda>x. x) 7 \<le> rangeMax i) infos = [i]
     \<and> SearchShardInfoByShardValue (\<lambda>x. x) 7 (cl_sh one_worker_cluster) = Returns (Inr (p, si_server i), sh')
     \<and> p = rangeMax i
     \<and> (\<exists>r \<in> set (fs_table (cl_fs one_worker_cluster)). server_id r = si_server i
          \<and> si_host i = clip_bytes HOST_MAX_LENGTH (server_host r) \<and> si_port i = server_port r)"
  by (rule client_table_agrees_with_routing)
    (use one_worker_cluster_ok small_cluster_ok(1-3) in simp_all)

theorem update_assigns_range_points_witness:
  "\<exists>s'. cuckoo_update_shard_table [1000, 5] [9, 8] two_shards = (Inr (), s')
     \<and> shard_map (st_table s') 1000 = Some 9 \<and> shard_map (st_table s') 2147483647 = Some 2"
proof -
  have "shards_sorted (st_table two_shards)" "length (st_table two_shards) + length [1000 :: int, 5] \<le> SHARD_COUNT_MAX"
    by (simp_all add: two_shards_def shards_sorted_def SHARD_COUNT_MAX_def)
  from update_assigns_range_points [OF this, of "[9, 8]"] show ?thesis
    by (auto simp: two_shards_def)
qed

end
