(* ===== verification/Heap_Table.thy ===== *)
theory Heap_Table
  imports Error_Code
begin

text \<open>
  A table of the database as one transaction sees it. The rows of the tables are declared in
  \<^verbatim>\<open>cuckoo--1.0.sql\<close>, each with a unique index on its key. A scan sees the rows as they were when the
  current command began; what the command itself writes becomes visible to the scans of the next one,
  that is after \<^verbatim>\<open>CommandCounterIncrement\<close>, while the unique index already counts it. Writing twice to
  the same row version in one command is refused by the server, as is a duplicate key; both reach the
  caller as \<^const>\<open>UNKNOWN\<close>. Commit makes the writes permanent, abort drops them.

  \<^item> \<open>h_base\<close>: the committed rows;
  \<^item> \<open>h_seen\<close>: the rows the scans of the current command see;
  \<^item> \<open>h_now\<close>: the rows with the writes of the current command;
  \<^item> \<open>h_touched\<close>: the keys whose visible row the current command has already changed.
\<close>

record ('k, 'v) heap =
  h_base :: "('k \<times> 'v) list"
  h_seen :: "('k \<times> 'v) list"
  h_now :: "('k \<times> 'v) list"
  h_touched :: "'k list"

definition heap_fetch :: "('k, 'v) heap \<Rightarrow> 'k \<Rightarrow> 'v option" where
  "heap_fetch h k = map_of (h_seen h) k"

definition heap_insert :: "'k \<Rightarrow> 'v \<Rightarrow> (('k, 'v) heap, unit) op" where
  "heap_insert k v h =
     (if map_of (h_now h) k \<noteq> None then (Inl UNKNOWN, h)
      else (Inr (), h\<lparr>h_now := h_now h @ [(k, v)]\<rparr>))"

definition heap_delete :: "'k \<Rightarrow> (('k, 'v) heap, unit) op" where
  "heap_delete k h =
     (if k \<in> set (h_touched h) then (Inl UNKNOWN, h)
      else (Inr (), h\<lparr>h_now := filter (\<lambda>r. fst r \<noteq> k) (h_now h), h_touched := k # h_touched h\<rparr>))"

definition heap_update :: "'k \<Rightarrow> 'v \<Rightarrow> (('k, 'v) heap, unit) op" where
  "heap_update k v h =
     (if k \<in> set (h_touched h) then (Inl UNKNOWN, h)
      else (Inr (), h\<lparr>h_now := map (\<lambda>r. if fst r = k then (k, v) else r) (h_now h),
                      h_touched := k # h_touched h\<rparr>))"

definition heap_next_command :: "('k, 'v) heap \<Rightarrow> ('k, 'v) heap" where
  "heap_next_command h = h\<lparr>h_seen := h_now h, h_touched := []\<rparr>"

definition heap_commit :: "('k, 'v) heap \<Rightarrow> ('k, 'v) heap" where
  "heap_commit h = h\<lparr>h_base := h_now h, h_seen := h_now h, h_touched := []\<rparr>"

definition heap_abort :: "('k, 'v) heap \<Rightarrow> ('k, 'v) heap" where
  "heap_abort h = h\<lparr>h_seen := h_base h, h_now := h_base h, h_touched := []\<rparr>"

definition heap_of :: "('k \<times> 'v) list \<Rightarrow> ('k, 'v) heap" where
  "heap_of rows = \<lparr>h_base = rows, h_seen = rows, h_now = rows, h_touched = []\<rparr>"

section \<open>What the operations do to the rows\<close>

lemma map_of_filter_neq [simp]:
  "map_of (filter (\<lambda>r. fst r \<noteq> k) rows) = (map_of rows)(k := None)"
  by (induction rows) (auto simp: fun_eq_iff)

lemma map_of_map_update [simp]:
  "map_of (map (\<lambda>r. if fst r = k then (k, v) else r) rows)
     = (if map_of rows k = None then map_of rows else (map_of rows)(k \<mapsto> v))"
  by (induction rows) (auto simp: fun_eq_iff)

lemma heap_insert_Inr:
  assumes "heap_insert k v h = (Inr u, h')"
  shows "map_of (h_now h) k = None" "map_of (h_now h') = (map_of (h_now h))(k \<mapsto> v)"
    "h_base h' = h_base h" "h_seen h' = h_seen h" "h_touched h' = h_touched h"
  using assms by (auto simp: heap_insert_def map_add_def fun_eq_iff split: if_splits option.splits)

lemma heap_delete_Inr:
  assumes "heap_delete k h = (Inr u, h')"
  shows "map_of (h_now h') = (map_of (h_now h))(k := None)"
    "h_base h' = h_base h" "h_seen h' = h_seen h" "k \<notin> set (h_touched h)"
  using assms by (auto simp: heap_delete_def split: if_splits)

lemma heap_update_Inr:
  assumes "heap_update k v h = (Inr u, h')"
  shows "map_of (h_now h') = (if map_of (h_now h) k = None then map_of (h_now h) else (map_of (h_now h))(k \<mapsto> v))"
    "h_base h' = h_base h" "h_seen h' = h_seen h" "k \<notin> set (h_touched h)"
  using assms by (auto simp: heap_update_def split: if_splits)

lemma heap_fail_unchanged:
  "heap_insert k v h = (Inl e, h') \<Longrightarrow> h' = h"
  "heap_delete k h = (Inl e, h') \<Longrightarrow> h' = h"
  "heap_update k v h = (Inl e, h') \<Longrightarrow> h' = h"
  by (auto simp: heap_insert_def heap_delete_def heap_update_def split: if_splits)

text \<open>The unique index, and that the touched rows are those of the current command.\<close>

definition heap_ok :: "('k, 'v) heap \<Rightarrow> bool" where
  "heap_ok h \<longleftrightarrow> distinct (map fst (h_base h)) \<and> distinct (map fst (h_seen h)) \<and> distinct (map fst (h_now h))
     \<and> (\<forall>k. k \<notin> set (h_touched h) \<longrightarrow> map_of (h_seen h) k \<noteq> None \<longrightarrow> map_of (h_now h) k = map_of (h_seen h) k)"

lemma distinct_fst_filter: "distinct (map fst rows) \<Longrightarrow> distinct (map fst (filter P rows))"
  by (metis distinct_map_filter)

lemma map_fst_update [simp]: "map fst (map (\<lambda>r. if fst r = k then (k, v) else r) rows) = map fst rows"
  by (induction rows) auto

lemma heap_insert_ok: "heap_ok h \<Longrightarrow> heap_ok (snd (heap_insert k v h))"
  by (auto simp: heap_ok_def heap_insert_def map_of_eq_None_iff map_add_def split: option.splits)

lemma heap_delete_ok: "heap_ok h \<Longrightarrow> heap_ok (snd (heap_delete k h))"
  by (auto simp: heap_ok_def heap_delete_def distinct_fst_filter)

lemma heap_update_ok: "heap_ok h \<Longrightarrow> heap_ok (snd (heap_update k v h))"
  by (auto simp: heap_ok_def heap_update_def simp del: map_map)

lemma heap_end_ok:
  "heap_ok h \<Longrightarrow> heap_ok (heap_next_command h)"
  "heap_ok h \<Longrightarrow> heap_ok (heap_commit h)"
  "heap_ok h \<Longrightarrow> heap_ok (heap_abort h)"
  by (simp_all add: heap_ok_def heap_next_command_def heap_commit_def heap_abort_def)

lemma heap_of_ok: "distinct (map fst rows) \<Longrightarrow> heap_ok (heap_of rows)"
  by (simp add: heap_ok_def heap_of_def)

end
