(* ===== verification/Remote_Comm.thy ===== *)
theory Remote_Comm
  imports Foreign_Server Heap_Table "HOL-Library.AList" "HOL-Library.Sublist"
begin

unbundle bit_operations_syntax

text \<open>
  \<^verbatim>\<open>cuckoo/distributed_backend/remote_comm_cuckoo.c\<close>: the commands a transaction sends to other
  servers and the two phases in which it commits there, with the helpers of
  \<^verbatim>\<open>cuckoo/transaction/transaction.c\<close> and \<^verbatim>\<open>cuckoo/transaction/transaction_cleanup.c\<close> it calls: the name
  of the distributed transaction, the set of transactions in progress and the table of prepared
  participants.

  libpq and the other servers are the parameter \<open>pq_env\<close>. Every answer is a function of the calls
  made before it, which the state keeps as a trace with their outcomes; no behaviour is assumed in
  the definitions. Connections are named by the id of their server.
\<close>

section \<open>Commands, results and the environment\<close>

datatype (plugins only: code size) CuckooSupportMetaService =
    PLAIN_COMMAND | MKDIR | MKDIR_SUB_MKDIR | MKDIR_SUB_CREATE | CREATE | STAT | OPEN | CLOSE | UNLINK
  | READDIR | OPENDIR | RMDIR | RMDIR_SUB_RMDIR | RMDIR_SUB_UNLINK | RENAME | RENAME_SUB_RENAME_LOCALLY
  | RENAME_SUB_CREATE | UTIMENS | CHOWN | CHMOD | NOT_SUPPORTED

definition REMOTE_COMMAND_FLAG_BEGIN_TYPE_MASK :: u32 where "REMOTE_COMMAND_FLAG_BEGIN_TYPE_MASK = 3"
definition REMOTE_COMMAND_FLAG_NO_BEGIN :: u32 where "REMOTE_COMMAND_FLAG_NO_BEGIN = 0"
definition REMOTE_COMMAND_FLAG_NEED_TRANSACTION_SNAPSHOT :: u32 where
  "REMOTE_COMMAND_FLAG_NEED_TRANSACTION_SNAPSHOT = 1"
definition REMOTE_COMMAND_FLAG_WRITE :: u32 where "REMOTE_COMMAND_FLAG_WRITE = 2"

datatype command_data = plainCommand string | command_param "u8 list"

record RemoteCommand =
  metaService :: CuckooSupportMetaService
  command_count :: int
  command_data :: command_data

record RemoteConnectionCommandData =
  commandFlag :: u32
  remoteCommandList :: "RemoteCommand list"

datatype ExecStatusType =
    PGRES_EMPTY_QUERY | PGRES_COMMAND_OK | PGRES_TUPLES_OK | PGRES_FATAL_ERROR | PGRES_PIPELINE_SYNC
  | PGRES_PIPELINE_ABORTED

record PGresult =
  res_status :: ExecStatusType
  res_rows :: "string list list"

text \<open>\<^verbatim>\<open>PQresultStatus\<close> reads a null pointer as a fatal error.\<close>

definition PQresultStatus :: "PGresult option \<Rightarrow> ExecStatusType" where
  "PQresultStatus res = (case res of None \<Rightarrow> PGRES_FATAL_ERROR | Some r \<Rightarrow> res_status r)"

datatype query = QueryParams string | MetaCall CuckooSupportMetaService int "u8 list"

datatype pq_event =
    Conns "int list" "pgconn option list"
  | Send int query bool
  | Sync int bool
  | Got int "PGresult option"

record pq_env =
  text_clip :: "nat \<Rightarrow> string \<Rightarrow> string"
  server_seq :: "foreign_server list \<Rightarrow> foreign_server list"
  command_seq :: "(int \<times> RemoteConnectionCommandData) list \<Rightarrow> (int \<times> RemoteConnectionCommandData) list"
  connect_start :: "string \<Rightarrow> int \<Rightarrow> string \<Rightarrow> pgconn"
  connect_ready :: "pq_event list \<Rightarrow> int \<Rightarrow> bool"
  conn_broken :: "pq_event list \<Rightarrow> int \<Rightarrow> bool"
  send_ok :: "pq_event list \<Rightarrow> int \<Rightarrow> query \<Rightarrow> bool"
  sync_ok :: "pq_event list \<Rightarrow> int \<Rightarrow> bool"
  next_result :: "pq_event list \<Rightarrow> int \<Rightarrow> PGresult option"
  enter_ok :: "string list \<Rightarrow> bool"

record rc_state =
  rc_servers :: fs_state
  RemoteConnectionCommandCache :: "(int \<times> RemoteConnectionCommandData) list option"
  PGresultToBeCleared :: "PGresult list"
  LocalServerWrite :: bool
  RemoteTransactionGid :: string
  InprogressTransactions :: "string list"
  distributed_transaction :: "(int \<times> string, unit) heap"
  TopTransactionId :: u32
  rc_trace :: "pq_event list"

definition trace_event :: "pq_event \<Rightarrow> rc_state \<Rightarrow> rc_state" where
  "trace_event e s = s\<lparr>rc_trace := rc_trace s @ [e]\<rparr>"

section \<open>The set of transactions in progress and the table of prepared participants\<close>

text \<open>
  \<^verbatim>\<open>hash_search\<close> with \<^verbatim>\<open>HASH_ENTER\<close> on the shared table raises an error of the server when no memory
  is left for a new entry.
\<close>

definition AddInprogressTransaction :: "pq_env \<Rightarrow> string \<Rightarrow> (rc_state, unit) op" where
  "AddInprogressTransaction E transactionName s =
     (if transactionName \<in> set (InprogressTransactions s) then (Inl PROGRAM_ERROR, s)
      else if \<not> enter_ok E (InprogressTransactions s) then (Inl UNKNOWN, s)
      else (Inr (), s\<lparr>InprogressTransactions := transactionName # InprogressTransactions s\<rparr>))"

definition RemoveInprogressTransaction :: "string \<Rightarrow> rc_state \<Rightarrow> rc_state" where
  "RemoveInprogressTransaction transactionName s =
     s\<lparr>InprogressTransactions := filter (\<lambda>g. g \<noteq> transactionName) (InprogressTransactions s)\<rparr>"

definition Write2PCRecord :: "int \<Rightarrow> string \<Rightarrow> (rc_state, unit) op" where
  "Write2PCRecord serverId gid s =
     (case heap_insert (serverId, gid) () (distributed_transaction s) of
        (Inl e, h) \<Rightarrow> (Inl e, s\<lparr>distributed_transaction := h\<rparr>)
      | (Inr u, h) \<Rightarrow> (Inr (), s\<lparr>distributed_transaction := h\<rparr>))"

section \<open>The name of a distributed transaction\<close>

definition CUCKOO_TRANSACTION_2PC_HEAD :: string where "CUCKOO_TRANSACTION_2PC_HEAD = ''cuckoo_xact_''"
definition MAX_TRANSACTION_GID_LENGTH :: nat where "MAX_TRANSACTION_GID_LENGTH = 127"

text \<open>The conversions \<^verbatim>\<open>%u\<close> and \<^verbatim>\<open>%d\<close>.\<close>

function decimal :: "nat \<Rightarrow> string" where
  "decimal n = (if n < 10 then [char_of (48 + n)] else decimal (n div 10) @ [char_of (48 + n mod 10)])"
  by auto
termination by (relation "measure id") auto

declare decimal.simps [simp del]

definition signed_decimal :: "int \<Rightarrow> string" where
  "signed_decimal i = (if i < 0 then CHR ''-'' # decimal (nat (- i)) else decimal (nat i))"

definition transaction_gid :: "u32 \<Rightarrow> int \<Rightarrow> bool \<Rightarrow> string" where
  "transaction_gid xid serverId localWrite =
     CUCKOO_TRANSACTION_2PC_HEAD @ decimal (unat xid) @ '':'' @ signed_decimal serverId @ '':''
       @ (if localWrite then ''T'' else ''F'')"

definition on_servers :: "(fs_state, 'a) op \<Rightarrow> (rc_state, 'a) op" where
  "on_servers f s = (case f (rc_servers s) of (r, fs) \<Rightarrow> (r, s\<lparr>rc_servers := fs\<rparr>))"

definition GetImplicitTransactionGid :: "pq_env \<Rightarrow> (rc_state, string) op" where
  "GetImplicitTransactionGid E =
     op_bind (on_servers (GetLocalServerId (text_clip E) (server_seq E))) (\<lambda>serverId s.
       let gid = transaction_gid (TopTransactionId s) serverId (LocalServerWrite s) in
       if length gid > MAX_TRANSACTION_GID_LENGTH then (Inl PROGRAM_ERROR, s) else (Inr gid, s))"

section \<open>Collecting commands\<close>

definition RemoteConnectionCommandCacheInit :: "rc_state \<Rightarrow> rc_state" where
  "RemoteConnectionCommandCacheInit s = s\<lparr>RemoteConnectionCommandCache := Some []\<rparr>"

definition ensure_cache :: "rc_state \<Rightarrow> rc_state" where
  "ensure_cache s = (if RemoteConnectionCommandCache s = None then RemoteConnectionCommandCacheInit s else s)"

definition ClearRemoteConnectionCommand :: "rc_state \<Rightarrow> rc_state" where
  "ClearRemoteConnectionCommand s =
     s\<lparr>PGresultToBeCleared := [], RemoteConnectionCommandCache := None, LocalServerWrite := False,
       RemoteTransactionGid := []\<rparr>"

definition RegisterLocalProcessFlag :: "bool \<Rightarrow> rc_state \<Rightarrow> rc_state" where
  "RegisterLocalProcessFlag readOnly s = (if \<not> readOnly then s\<lparr>LocalServerWrite := True\<rparr> else s)"

definition IsLocalWrite :: "rc_state \<Rightarrow> bool" where
  "IsLocalWrite s = LocalServerWrite s"

text \<open>The entry of a server, found or entered, with the command appended.\<close>

definition append_command :: "RemoteCommand \<Rightarrow> u32 \<Rightarrow> (int \<times> RemoteConnectionCommandData) list \<Rightarrow> int
      \<Rightarrow> (int \<times> RemoteConnectionCommandData) list" where
  "append_command remoteCommand remoteCommandFlag cache serverId =
     (let data = (case map_of cache serverId of
                    None \<Rightarrow> \<lparr>commandFlag = 0, remoteCommandList = []\<rparr>
                  | Some d \<Rightarrow> d) in
      AList.update serverId
        (data\<lparr>commandFlag := commandFlag data OR remoteCommandFlag,
              remoteCommandList := remoteCommandList data @ [remoteCommand]\<rparr>) cache)"

definition CuckooAppendRemoteCommandToWorkerList ::
    "RemoteCommand \<Rightarrow> u32 \<Rightarrow> int list \<Rightarrow> rc_state \<Rightarrow> rc_state" where
  "CuckooAppendRemoteCommandToWorkerList remoteCommand remoteCommandFlag workerIdList s =
     (let s = ensure_cache s in
      s\<lparr>RemoteConnectionCommandCache := map_option
          (\<lambda>cache. foldl (append_command remoteCommand remoteCommandFlag) cache workerIdList)
          (RemoteConnectionCommandCache s)\<rparr>)"

definition CuckooPlainCommandOnWorkerList :: "string \<Rightarrow> u32 \<Rightarrow> int list \<Rightarrow> rc_state \<Rightarrow> rc_state" where
  "CuckooPlainCommandOnWorkerList command remoteCommandFlag workerIdList s =
     CuckooAppendRemoteCommandToWorkerList
       \<lparr>metaService = PLAIN_COMMAND, command_count = 1, command_data = plainCommand command\<rparr>
       remoteCommandFlag workerIdList (ensure_cache s)"

definition CuckooMetaCallOnWorkerList ::
    "CuckooSupportMetaService \<Rightarrow> int \<Rightarrow> u8 list \<Rightarrow> u32 \<Rightarrow> int list \<Rightarrow> (rc_state, unit) op" where
  "CuckooMetaCallOnWorkerList service cnt param remoteCommandFlag workerIdList s =
     (if service = PLAIN_COMMAND then (Inl PROGRAM_ERROR, s)
      else (Inr (), CuckooAppendRemoteCommandToWorkerList
        \<lparr>metaService = service, command_count = cnt, command_data = command_param param\<rparr>
        remoteCommandFlag workerIdList (ensure_cache s)))"

section \<open>Talking to a server\<close>

definition PQsend :: "pq_env \<Rightarrow> int \<Rightarrow> query \<Rightarrow> rc_state \<Rightarrow> bool \<times> rc_state" where
  "PQsend E sid q s = (let ok = send_ok E (rc_trace s) sid q in (ok, trace_event (Send sid q ok) s))"

definition PQpipelineSync :: "pq_env \<Rightarrow> int \<Rightarrow> rc_state \<Rightarrow> bool \<times> rc_state" where
  "PQpipelineSync E sid s = (let ok = sync_ok E (rc_trace s) sid in (ok, trace_event (Sync sid ok) s))"

definition FetchPGresultAndMark :: "pq_env \<Rightarrow> int \<Rightarrow> rc_state \<Rightarrow> PGresult option \<times> rc_state" where
  "FetchPGresultAndMark E sid s =
     (let res = next_result E (rc_trace s) sid; s = trace_event (Got sid res) s in
      (res, case res of None \<Rightarrow> s | Some r \<Rightarrow> s\<lparr>PGresultToBeCleared := PGresultToBeCleared s @ [r]\<rparr>))"

text \<open>A call whose failure is raised as an error, and one that fetches a result.\<close>

definition must :: "CuckooErrorCode \<Rightarrow> ('s \<Rightarrow> bool \<times> 's) \<Rightarrow> ('s, unit) exec" where
  "must e m s = (case m s of (ok, s') \<Rightarrow> Returns (if ok then Inr () else Inl e, s'))"

definition fetch :: "pq_env \<Rightarrow> int \<Rightarrow> (rc_state, PGresult option) exec" where
  "fetch E sid s = (case FetchPGresultAndMark E sid s of (res, s') \<Rightarrow> Returns (Inr res, s'))"

definition check_that :: "bool \<Rightarrow> CuckooErrorCode \<Rightarrow> ('s, unit) exec" where
  "check_that b e = (if b then exec_return () else exec_raise e)"

definition CheckPQpipelineSyncFinished :: "pq_env \<Rightarrow> int \<Rightarrow> (rc_state, unit) exec" where
  "CheckPQpipelineSyncFinished E sid =
     exec_bind (fetch E sid) (\<lambda>res.
     exec_bind (check_that (PQresultStatus res = PGRES_PIPELINE_SYNC) PROGRAM_ERROR) (\<lambda>_.
     exec_bind (fetch E sid) (\<lambda>res. check_that (res = None) PROGRAM_ERROR)))"

partial_function (option) clear_loop :: "pq_env \<Rightarrow> int \<Rightarrow> bool \<Rightarrow> rc_state \<Rightarrow> (bool \<times> rc_state) option" where
  "clear_loop E sid hasUnfetchedPGresult s =
     (case FetchPGresultAndMark E sid s of
        (Some r, s1) \<Rightarrow> clear_loop E sid True s1
      | (None, s1) \<Rightarrow>
          (case FetchPGresultAndMark E sid s1 of
             (Some r, s2) \<Rightarrow> clear_loop E sid True s2
           | (None, s2) \<Rightarrow> Some (hasUnfetchedPGresult, s2)))"

definition ClearPGresultInPGconn :: "pq_env \<Rightarrow> int \<Rightarrow> (rc_state, bool) exec" where
  "ClearPGresultInPGconn E sid s =
     (case clear_loop E sid False s of None \<Rightarrow> Loops | Some (b, s') \<Rightarrow> Returns (Inr b, s'))"

text \<open>
  \<^verbatim>\<open>GetForeignServerConnection\<close> for a list of servers. libpq has marked the connections it found broken
  by then.
\<close>

definition mark_broken :: "pq_env \<Rightarrow> pq_event list \<Rightarrow> fs_state \<Rightarrow> fs_state" where
  "mark_broken E tr fs = fs\<lparr>fs_conns := map (\<lambda>(sid, conn).
     (sid, map_option (\<lambda>c. c\<lparr>conn_bad := conn_broken E tr sid\<rparr>) conn)) (fs_conns fs)\<rparr>"

definition get_connections :: "pq_env \<Rightarrow> int list \<Rightarrow> (rc_state, unit) exec" where
  "get_connections E sids s =
     run_bind (GetForeignServerConnection (text_clip E) (server_seq E) (connect_start E)
         (connect_ready E (rc_trace s)) sids (mark_broken E (rc_trace s) (rc_servers s)))
       (\<lambda>(r, fs). let s = s\<lparr>rc_servers := fs\<rparr> in
          case r of Inl e \<Rightarrow> Returns (Inl e, s)
          | Inr conns \<Rightarrow> Returns (Inr (), trace_event (Conns sids conns) s))"

definition conn_state :: "rc_state \<Rightarrow> int \<Rightarrow> CuckooRemoteTransactionState" where
  "conn_state s sid = transactionState (rc_servers s) sid"

definition set_conn_state :: "int \<Rightarrow> CuckooRemoteTransactionState \<Rightarrow> rc_state \<Rightarrow> rc_state" where
  "set_conn_state sid st s =
     s\<lparr>rc_servers := (rc_servers s)\<lparr>transactionState := (transactionState (rc_servers s))(sid := st)\<rparr>\<rparr>"

section \<open>Sending the collected commands\<close>

definition send_or_fail :: "pq_env \<Rightarrow> int \<Rightarrow> query \<Rightarrow> (rc_state, unit) exec" where
  "send_or_fail E sid q = must REMOTE_QUERY_FAILED (PQsend E sid q)"

definition sync_or_fail :: "pq_env \<Rightarrow> int \<Rightarrow> (rc_state, unit) exec" where
  "sync_or_fail E sid = must REMOTE_QUERY_FAILED (PQpipelineSync E sid)"

definition command_query :: "RemoteCommand \<Rightarrow> query" where
  "command_query remoteCommand =
     (case command_data remoteCommand of
        plainCommand command \<Rightarrow> QueryParams command
      | command_param param \<Rightarrow> MetaCall (metaService remoteCommand) (command_count remoteCommand) param)"

primrec send_commands :: "pq_env \<Rightarrow> int \<Rightarrow> RemoteCommand list \<Rightarrow> (rc_state, unit) exec" where
  "send_commands E sid [] = exec_return ()"
| "send_commands E sid (c # cs) =
     exec_bind (send_or_fail E sid (command_query c)) (\<lambda>_. send_commands E sid cs)"

text \<open>The body of the first loop: what is sent to one server, and whether that began with BEGIN.\<close>

definition flag_set :: "u32 \<Rightarrow> u32 \<Rightarrow> bool" where
  "flag_set flag m \<longleftrightarrow> flag AND m \<noteq> 0"

definition begun_state :: "u32 \<Rightarrow> CuckooRemoteTransactionState \<Rightarrow> CuckooRemoteTransactionState" where
  "begun_state flag st =
     (if st = CUCKOO_REMOTE_TRANSACTION_NONE then
        if flag_set flag REMOTE_COMMAND_FLAG_WRITE then CUCKOO_REMOTE_TRANSACTION_BEGIN_FOR_WRITE
        else if flag_set flag REMOTE_COMMAND_FLAG_NEED_TRANSACTION_SNAPSHOT
        then CUCKOO_REMOTE_TRANSACTION_BEGIN_FOR_SNAPSHOT
        else st
      else st)"

definition clear_command_list :: "int \<Rightarrow> rc_state \<Rightarrow> rc_state" where
  "clear_command_list sid s =
     s\<lparr>RemoteConnectionCommandCache := map_option
         (AList.map_entry sid (\<lambda>d. d\<lparr>remoteCommandList := []\<rparr>)) (RemoteConnectionCommandCache s)\<rparr>"

definition send_to_server :: "pq_env \<Rightarrow> int \<Rightarrow> RemoteConnectionCommandData \<Rightarrow> (rc_state, bool) exec" where
  "send_to_server E sid data =
     exec_bind (ClearPGresultInPGconn E sid) (\<lambda>_.
     exec_bind (exec_gets (\<lambda>s. conn_state s sid = CUCKOO_REMOTE_TRANSACTION_NONE \<and>
         commandFlag data AND REMOTE_COMMAND_FLAG_BEGIN_TYPE_MASK \<noteq> REMOTE_COMMAND_FLAG_NO_BEGIN)) (\<lambda>begins.
     exec_bind (if begins then send_or_fail E sid (QueryParams ''BEGIN;'') else exec_return ()) (\<lambda>_.
     exec_bind (send_commands E sid (remoteCommandList data)) (\<lambda>_.
     exec_bind (sync_or_fail E sid) (\<lambda>_.
     exec_bind (exec_modify (\<lambda>s. set_conn_state sid (begun_state (commandFlag data) (conn_state s sid)) s)) (\<lambda>_.
     exec_bind (exec_modify (clear_command_list sid)) (\<lambda>_.
     exec_return begins)))))))"

primrec send_to_servers ::
    "pq_env \<Rightarrow> (int \<times> RemoteConnectionCommandData) list \<Rightarrow> (rc_state, (int \<times> bool) list) exec" where
  "send_to_servers E [] = exec_return []"
| "send_to_servers E (d # ds) =
     exec_bind (send_to_server E (fst d) (snd d)) (\<lambda>begins.
     exec_bind (send_to_servers E ds) (\<lambda>rest. exec_return ((fst d, begins) # rest)))"

text \<open>The loop that reads the results of one server up to the synchronisation point.\<close>

partial_function (option) result_loop ::
    "pq_env \<Rightarrow> int \<Rightarrow> PGresult list \<Rightarrow> rc_state \<Rightarrow> ((CuckooErrorCode + PGresult list) \<times> rc_state) option" where
  "result_loop E sid results s =
     (case FetchPGresultAndMark E sid s of
        (res, s1) \<Rightarrow>
          if PQresultStatus res \<notin> {PGRES_COMMAND_OK, PGRES_TUPLES_OK, PGRES_PIPELINE_SYNC}
          then Some (Inl REMOTE_QUERY_FAILED, s1)
          else let over = (PQresultStatus res = PGRES_PIPELINE_SYNC);
                   results1 = (if over then results else results @ [the res]) in
            (case FetchPGresultAndMark E sid s1 of
               (Some r, s2) \<Rightarrow> Some (Inl PROGRAM_ERROR, s2)
             | (None, s2) \<Rightarrow> if over then Some (Inr results1, s2) else result_loop E sid results1 s2))"

definition results_of_server :: "pq_env \<Rightarrow> int \<Rightarrow> bool \<Rightarrow> (rc_state, PGresult list) exec" where
  "results_of_server E sid needHandleTransactionControl =
     exec_bind
       (if needHandleTransactionControl then
          exec_bind (fetch E sid) (\<lambda>res.
          exec_bind (check_that (PQresultStatus res = PGRES_COMMAND_OK) REMOTE_QUERY_FAILED) (\<lambda>_.
          exec_bind (fetch E sid) (\<lambda>res. check_that (res = None) PROGRAM_ERROR)))
        else exec_return ())
       (\<lambda>_. exec_loop (result_loop E sid []))"

primrec results_of_servers ::
    "pq_env \<Rightarrow> (int \<times> bool) list \<Rightarrow> (rc_state, (int \<times> PGresult list) list) exec" where
  "results_of_servers E [] = exec_return []"
| "results_of_servers E (d # ds) =
     exec_bind (results_of_server E (fst d) (snd d)) (\<lambda>results.
     exec_bind (results_of_servers E ds) (\<lambda>rest. exec_return ((fst d, results) # rest)))"

text \<open>The scan of a table that was never created reads through a null pointer.\<close>

definition CuckooSendCommandAndWaitForResult :: "pq_env \<Rightarrow> (rc_state, (int \<times> PGresult list) list) exec" where
  "CuckooSendCommandAndWaitForResult E s =
     (case RemoteConnectionCommandCache s of
        None \<Rightarrow> Faults
      | Some cache \<Rightarrow>
          let todo = filter (\<lambda>(sid, d). remoteCommandList d \<noteq> []) (command_seq E cache) in
          exec_bind (get_connections E (map fst todo)) (\<lambda>_.
          exec_bind (send_to_servers E todo) (\<lambda>sent.
          results_of_servers E sent)) s)"

section \<open>First phase\<close>

definition worker_ids :: "pq_env \<Rightarrow> (int \<times> RemoteConnectionCommandData) list \<Rightarrow> int list" where
  "worker_ids E cache = map fst (command_seq E cache)"

definition writeServerCount :: "int list \<Rightarrow> rc_state \<Rightarrow> nat" where
  "writeServerCount sids s =
     (if LocalServerWrite s then 1 else 0)
       + length (filter (\<lambda>sid. conn_state s sid = CUCKOO_REMOTE_TRANSACTION_BEGIN_FOR_WRITE) sids)"

definition quoted :: "string \<Rightarrow> string" where
  "quoted gid = CHR 0x27 # gid @ [CHR 0x27]"

definition prepare_command :: "string \<Rightarrow> string" where
  "prepare_command gid = ''PREPARE TRANSACTION '' @ quoted gid @ '';''"

definition prepare_send :: "pq_env \<Rightarrow> string \<Rightarrow> int \<Rightarrow> (rc_state, unit) exec" where
  "prepare_send E command sid =
     exec_bind (ClearPGresultInPGconn E sid) (\<lambda>unfetched.
     exec_bind (check_that (\<not> unfetched) PROGRAM_ERROR) (\<lambda>_.
     exec_bind (exec_gets (\<lambda>s. conn_state s sid)) (\<lambda>st.
     if st = CUCKOO_REMOTE_TRANSACTION_BEGIN_FOR_WRITE
     then exec_bind (send_or_fail E sid (QueryParams command)) (\<lambda>_. sync_or_fail E sid)
     else exec_return ())))"

primrec prepare_sends :: "pq_env \<Rightarrow> string \<Rightarrow> int list \<Rightarrow> (rc_state, unit) exec" where
  "prepare_sends E command [] = exec_return ()"
| "prepare_sends E command (sid # sids) =
     exec_bind (prepare_send E command sid) (\<lambda>_. prepare_sends E command sids)"

text \<open>The answer of one server; the result tells whether it adds to the error message.\<close>

definition prepare_answer :: "pq_env \<Rightarrow> string \<Rightarrow> int \<Rightarrow> (rc_state, bool) exec" where
  "prepare_answer E gid sid =
     exec_bind (fetch E sid) (\<lambda>res.
     if res = None then exec_return False
     else if PQresultStatus res \<in> {PGRES_COMMAND_OK, PGRES_TUPLES_OK} then
       exec_bind (fetch E sid) (\<lambda>res.
       exec_bind (check_that (res = None) PROGRAM_ERROR) (\<lambda>_.
       exec_bind (CheckPQpipelineSyncFinished E sid) (\<lambda>_.
       exec_bind (exec_gets (\<lambda>s. conn_state s sid)) (\<lambda>st.
       if st = CUCKOO_REMOTE_TRANSACTION_BEGIN_FOR_WRITE
       then exec_bind (exec_modify (set_conn_state sid CUCKOO_REMOTE_TRANSACTION_PREPARE)) (\<lambda>_.
            exec_bind (exec_op (Write2PCRecord sid gid)) (\<lambda>_. exec_return False))
       else exec_return False))))
     else exec_return True)"

primrec prepare_answers :: "pq_env \<Rightarrow> string \<Rightarrow> int list \<Rightarrow> (rc_state, bool) exec" where
  "prepare_answers E gid [] = exec_return False"
| "prepare_answers E gid (sid # sids) =
     exec_bind (prepare_answer E gid sid) (\<lambda>failed.
     exec_bind (prepare_answers E gid sids) (\<lambda>rest. exec_return (failed \<or> rest)))"

definition CuckooRemoteCommandPrepare :: "pq_env \<Rightarrow> (rc_state, unit) exec" where
  "CuckooRemoteCommandPrepare E s =
     (case RemoteConnectionCommandCache s of
        None \<Rightarrow> Returns (Inr (), s)
      | Some cache \<Rightarrow>
          let workerIdList = worker_ids E cache in
          exec_bind (get_connections E workerIdList) (\<lambda>_.
          exec_bind (exec_gets (\<lambda>s. 2 \<le> writeServerCount workerIdList s)) (\<lambda>need2pc.
          if \<not> need2pc then exec_return ()
          else
            exec_bind (exec_op (GetImplicitTransactionGid E)) (\<lambda>gid.
            exec_bind (exec_modify (\<lambda>s. s\<lparr>RemoteTransactionGid := gid\<rparr>)) (\<lambda>_.
            exec_bind (exec_op (AddInprogressTransaction E gid)) (\<lambda>_.
            exec_bind (prepare_sends E (prepare_command gid) workerIdList) (\<lambda>_.
            exec_bind (prepare_answers E gid workerIdList) (\<lambda>failed.
            check_that (\<not> failed) REMOTE_QUERY_FAILED))))))) s)"

section \<open>Second phase\<close>

text \<open>
  A failure is only logged and ends the loop, which the result tells: \<open>True\<close> means go on. The buffer
  of the second command stays uninitialised when no transaction name is set.
\<close>

definition commit_prepared_command :: "string \<Rightarrow> string" where
  "commit_prepared_command gid = ''COMMIT PREPARED '' @ quoted gid @ '';''"

definition try_query :: "pq_env \<Rightarrow> int \<Rightarrow> string \<Rightarrow> (rc_state, bool) exec" where
  "try_query E sid command s =
     (case PQsend E sid (QueryParams command) s of
        (False, s1) \<Rightarrow> Returns (Inr False, s1)
      | (True, s1) \<Rightarrow> (case PQpipelineSync E sid s1 of (ok, s2) \<Rightarrow> Returns (Inr ok, s2)))"

definition commit_send :: "pq_env \<Rightarrow> int \<Rightarrow> (rc_state, bool) exec" where
  "commit_send E sid =
     exec_bind (ClearPGresultInPGconn E sid) (\<lambda>unfetched.
     if unfetched then exec_return False
     else
       exec_bind (exec_gets (\<lambda>s. (conn_state s sid, RemoteTransactionGid s))) (\<lambda>(st, gid).
       case st of
         CUCKOO_REMOTE_TRANSACTION_BEGIN_FOR_SNAPSHOT \<Rightarrow> try_query E sid ''COMMIT;''
       | CUCKOO_REMOTE_TRANSACTION_BEGIN_FOR_WRITE \<Rightarrow> try_query E sid ''COMMIT;''
       | CUCKOO_REMOTE_TRANSACTION_PREPARE \<Rightarrow>
           if gid = [] then (\<lambda>s. Faults) else try_query E sid (commit_prepared_command gid)
       | CUCKOO_REMOTE_TRANSACTION_NONE \<Rightarrow> exec_return True))"

primrec commit_sends :: "pq_env \<Rightarrow> int list \<Rightarrow> (rc_state, bool) exec" where
  "commit_sends E [] = exec_return True"
| "commit_sends E (sid # sids) =
     exec_bind (commit_send E sid) (\<lambda>go_on. if go_on then commit_sends E sids else exec_return False)"

definition commit_answer :: "pq_env \<Rightarrow> int \<Rightarrow> (rc_state, bool) exec" where
  "commit_answer E sid =
     exec_bind (fetch E sid) (\<lambda>res.
     if res = None then exec_return True
     else if PQresultStatus res \<in> {PGRES_COMMAND_OK, PGRES_TUPLES_OK} then
       exec_bind (fetch E sid) (\<lambda>res.
       if res \<noteq> None then exec_return False
       else
         exec_bind (CheckPQpipelineSyncFinished E sid) (\<lambda>_.
         exec_bind (exec_modify (set_conn_state sid CUCKOO_REMOTE_TRANSACTION_NONE)) (\<lambda>_.
         exec_return True)))
     else exec_return False)"

primrec commit_answers :: "pq_env \<Rightarrow> int list \<Rightarrow> (rc_state, unit) exec" where
  "commit_answers E [] = exec_return ()"
| "commit_answers E (sid # sids) =
     exec_bind (commit_answer E sid) (\<lambda>go_on. if go_on then commit_answers E sids else exec_return ())"

definition CuckooRemoteCommandCommit :: "pq_env \<Rightarrow> (rc_state, unit) exec" where
  "CuckooRemoteCommandCommit E s =
     (case RemoteConnectionCommandCache s of
        None \<Rightarrow> Returns (Inr (), s)
      | Some cache \<Rightarrow>
          let workerIdList = worker_ids E cache in
          exec_bind (get_connections E workerIdList) (\<lambda>_.
          exec_bind (commit_sends E workerIdList) (\<lambda>go_on.
          if go_on then commit_answers E workerIdList else exec_return ())) s)"

section \<open>Giving up\<close>

definition rollback_prepared_command :: "string \<Rightarrow> string" where
  "rollback_prepared_command gid = ''ROLLBACK PREPARED '' @ quoted gid @ '';''"

definition abort_send :: "pq_env \<Rightarrow> int \<Rightarrow> (rc_state, bool) exec" where
  "abort_send E sid =
     exec_bind (ClearPGresultInPGconn E sid) (\<lambda>_.
     exec_bind (exec_gets (\<lambda>s. (conn_state s sid, RemoteTransactionGid s))) (\<lambda>(st, gid).
     case st of
       CUCKOO_REMOTE_TRANSACTION_BEGIN_FOR_SNAPSHOT \<Rightarrow> try_query E sid ''ROLLBACK;''
     | CUCKOO_REMOTE_TRANSACTION_BEGIN_FOR_WRITE \<Rightarrow> try_query E sid ''ROLLBACK;''
     | CUCKOO_REMOTE_TRANSACTION_PREPARE \<Rightarrow>
         if gid = [] then (\<lambda>s. Faults) else try_query E sid (rollback_prepared_command gid)
     | CUCKOO_REMOTE_TRANSACTION_NONE \<Rightarrow> exec_return True))"

primrec abort_sends :: "pq_env \<Rightarrow> int list \<Rightarrow> (rc_state, bool) exec" where
  "abort_sends E [] = exec_return True"
| "abort_sends E (sid # sids) =
     exec_bind (abort_send E sid) (\<lambda>ok. exec_bind (abort_sends E sids) (\<lambda>rest. exec_return (ok \<and> rest)))"

text \<open>The inner \<^verbatim>\<open>while\<close> runs at most once: each of its paths ends in \<^verbatim>\<open>break\<close>.\<close>

definition abort_answer :: "pq_env \<Rightarrow> int \<Rightarrow> (rc_state, bool) exec" where
  "abort_answer E sid =
     exec_bind
       (exec_bind (fetch E sid) (\<lambda>res.
        if res = None then exec_return True
        else if PQresultStatus res \<noteq> PGRES_COMMAND_OK then exec_return False
        else
          exec_bind (fetch E sid) (\<lambda>res.
          if res \<noteq> None then exec_return False
          else
            exec_bind (fetch E sid) (\<lambda>res.
            if PQresultStatus res \<noteq> PGRES_PIPELINE_SYNC then exec_return False
            else exec_bind (fetch E sid) (\<lambda>res. exec_return (res = None))))))
       (\<lambda>ok. exec_bind (exec_modify (set_conn_state sid CUCKOO_REMOTE_TRANSACTION_NONE)) (\<lambda>_. exec_return ok))"

primrec abort_answers :: "pq_env \<Rightarrow> int list \<Rightarrow> (rc_state, bool) exec" where
  "abort_answers E [] = exec_return True"
| "abort_answers E (sid # sids) =
     exec_bind (abort_answer E sid) (\<lambda>ok. exec_bind (abort_answers E sids) (\<lambda>rest. exec_return (ok \<and> rest)))"

definition CuckooRemoteCommandAbort :: "pq_env \<Rightarrow> (rc_state, bool) exec" where
  "CuckooRemoteCommandAbort E s =
     (case RemoteConnectionCommandCache s of
        None \<Rightarrow> Returns (Inr True, s)
      | Some cache \<Rightarrow>
          let workerIdList = worker_ids E cache in
          exec_bind (get_connections E workerIdList) (\<lambda>_.
          exec_bind (abort_sends E workerIdList) (\<lambda>sent.
          exec_bind (abort_answers E workerIdList) (\<lambda>answered.
          exec_return (sent \<and> answered)))) s)"


section \<open>What a conversation changes\<close>

text \<open>
  Talking to servers extends the trace and the list of results to be freed, nothing else. \<open>sends\<close>
  reads the queries off a trace.
\<close>

definition talked :: "pq_event list \<Rightarrow> rc_state \<Rightarrow> rc_state \<Rightarrow> bool" where
  "talked tr s s' \<longleftrightarrow> (\<exists>rs. s' = s\<lparr>rc_trace := rc_trace s @ tr, PGresultToBeCleared := rs\<rparr>)"

fun sends :: "pq_event list \<Rightarrow> (int \<times> query) list" where
  "sends [] = []"
| "sends (Send sid q ok # tr) = (sid, q) # sends tr"
| "sends (_ # tr) = sends tr"

primrec event_of :: "int \<Rightarrow> pq_event \<Rightarrow> bool" where
  "event_of sid (Conns sids conns) = False"
| "event_of sid (Send k q ok) = (k = sid)"
| "event_of sid (Sync k ok) = (k = sid)"
| "event_of sid (Got k r) = (k = sid)"

lemma sends_append [simp]: "sends (tr @ tr') = sends tr @ sends tr'"
  by (induction tr rule: sends.induct) auto

lemma talked_refl: "talked [] s s"
  by (auto simp: talked_def intro: exI [of _ "PGresultToBeCleared s"])

lemma talked_trans: "talked tr s s1 \<Longrightarrow> talked tr' s1 s2 \<Longrightarrow> talked (tr @ tr') s s2"
  by (auto simp: talked_def)

lemma talked_simps:
  assumes "talked tr s s'"
  shows "rc_servers s' = rc_servers s"
    "RemoteConnectionCommandCache s' = RemoteConnectionCommandCache s"
    "LocalServerWrite s' = LocalServerWrite s"
    "RemoteTransactionGid s' = RemoteTransactionGid s"
    "InprogressTransactions s' = InprogressTransactions s"
    "distributed_transaction s' = distributed_transaction s"
    "TopTransactionId s' = TopTransactionId s"
    "rc_trace s' = rc_trace s @ tr" "conn_state s' sid = conn_state s sid"
  using assms by (auto simp: talked_def conn_state_def)

lemma talked_setI: "s' = s\<lparr>rc_trace := rc_trace s @ tr, PGresultToBeCleared := rs\<rparr> \<Longrightarrow> talked tr s s'"
  by (auto simp: talked_def)

text \<open>A conversation all of whose events satisfy a predicate.\<close>

definition chat :: "(pq_event \<Rightarrow> bool) \<Rightarrow> rc_state \<Rightarrow> rc_state \<Rightarrow> bool" where
  "chat P s s' \<longleftrightarrow> (\<exists>tr. talked tr s s' \<and> list_all P tr)"

abbreviation chats :: "(pq_event \<Rightarrow> bool) \<Rightarrow> (rc_state, 'a) exec \<Rightarrow> bool" where
  "chats P \<equiv> exec_keeps (chat P)"

lemma chatI: "talked tr s s' \<Longrightarrow> list_all P tr \<Longrightarrow> chat P s s'"
  by (auto simp: chat_def)

lemma chat_refl: "chat P s s"
  by (rule chatI [OF talked_refl]) simp

lemma chat_trans: "chat P s s1 \<Longrightarrow> chat P s1 s2 \<Longrightarrow> chat P s s2"
  unfolding chat_def by (elim exE conjE) (rule exI, rule conjI, erule talked_trans, assumption, simp)

lemma chatsD:
  assumes "chats P m" "m s = Returns (r, s')"
  obtains tr where "talked tr s s'" "list_all P tr"
  using assms unfolding exec_keeps_def chat_def by blast

lemma chats_silent [intro!]:
  "chats P (exec_return x)" "chats P (exec_raise e)" "chats P (check_that b e)" "chats P (exec_gets f)"
  by (auto simp: check_that_def chat_refl intro!: exec_keepsI)

lemma chats_bind [intro!]: "chats P m \<Longrightarrow> (\<And>x. chats P (f x)) \<Longrightarrow> chats P (exec_bind m f)"
  by (rule exec_keeps_bind) (auto intro: chat_trans)

lemma chats_if [intro!]: "chats P m \<Longrightarrow> chats P m' \<Longrightarrow> chats P (if b then m else m')"
  by simp

definition receives :: "int \<Rightarrow> pq_event \<Rightarrow> bool" where
  "receives sid e \<longleftrightarrow> (\<exists>r. e = Got sid r)"

lemma receives_sends: "list_all (receives sid) tr \<Longrightarrow> sends tr = []"
  by (induction tr) (auto simp: receives_def)

lemma Fetch_talked:
  assumes "FetchPGresultAndMark E sid s = (res, s')"
  shows "talked [Got sid res] s s'"
proof (rule talked_setI)
  show "s' = s\<lparr>rc_trace := rc_trace s @ [Got sid res], PGresultToBeCleared := PGresultToBeCleared s'\<rparr>"
    using assms by (auto simp: FetchPGresultAndMark_def Let_def trace_event_def split: option.splits)
qed

lemma Fetch_result: "fst (FetchPGresultAndMark E sid s) = next_result E (rc_trace s) sid"
  by (simp add: FetchPGresultAndMark_def Let_def)

lemma fetch_Returns:
  assumes "fetch E sid s = Returns (r, s')"
  obtains res where "r = Inr res" "res = next_result E (rc_trace s) sid" "talked [Got sid res] s s'"
  using assms Fetch_talked Fetch_result [of E sid s]
  by (cases "FetchPGresultAndMark E sid s") (auto simp: fetch_def)

lemma fetch_chats [intro!]: "chats (receives sid) (fetch E sid)"
proof (rule exec_keepsI)
  fix s r s' assume "fetch E sid s = Returns (r, s')"
  then obtain res where "talked [Got sid res] s s'" by (rule fetch_Returns)
  then show "chat (receives sid) s s'" by (rule chatI) (simp add: receives_def)
qed

lemma clear_loop_talked:
  assumes "clear_loop E sid b s = Some r"
  shows "\<exists>tr. talked tr s (snd r) \<and> list_all (receives sid) tr"
  using assms
proof (rule clear_loop.raw_induct [rotated, where
      P = "\<lambda>E sid b s r. \<exists>tr. talked tr s (snd r) \<and> list_all (receives sid) tr"])
  fix loop E sid b s r
  assume IH: "\<And>E sid b s r. loop E sid b s = Some r \<Longrightarrow> \<exists>tr. talked tr s (snd r) \<and> list_all (receives sid) tr"
    and step: "(case FetchPGresultAndMark E sid s of
        (None, s1) \<Rightarrow> (case FetchPGresultAndMark E sid s1 of (None, s2) \<Rightarrow> Some (b, s2) | (Some r, s2) \<Rightarrow> loop E sid True s2)
      | (Some r, s1) \<Rightarrow> loop E sid True s1) = Some r"
  obtain r1 s1 where f1: "FetchPGresultAndMark E sid s = (r1, s1)" by fastforce
  obtain r2 s2 where f2: "FetchPGresultAndMark E sid s1 = (r2, s2)" by fastforce
  note t1 = Fetch_talked [OF f1] and t2 = Fetch_talked [OF f2]
  have t12: "talked [Got sid r1, Got sid r2] s s2" using talked_trans [OF t1 t2] by simp
  have rec: "\<exists>tr. talked tr s (snd r) \<and> list_all (receives sid) tr"
    if l: "loop E sid True s' = Some r" and t: "talked tr s s'" "list_all (receives sid) tr" for s' tr
  proof -
    obtain tr' where "talked tr' s' (snd r)" "list_all (receives sid) tr'" using IH [OF l] by blast
    then have "talked (tr @ tr') s (snd r) \<and> list_all (receives sid) (tr @ tr')"
      using talked_trans [OF t(1)] t(2) by simp
    then show ?thesis by blast
  qed
  show "\<exists>tr. talked tr s (snd r) \<and> list_all (receives sid) tr"
  proof (cases r1)
    case (Some r1')
    then show ?thesis using step f1 rec [OF _ t1] by (simp add: receives_def)
  next
    case None
    show ?thesis
    proof (cases r2)
      case (Some r2')
      then show ?thesis using step f1 f2 None rec [OF _ t12] by (simp add: receives_def)
    next
      case (None)
      then have "snd r = s2" using step f1 f2 \<open>r1 = None\<close> by auto
      then show ?thesis using t12 by (intro exI [of _ "[Got sid r1, Got sid r2]"]) (simp add: receives_def)
    qed
  qed
qed

lemma Clear_chats [intro!]: "chats (receives sid) (ClearPGresultInPGconn E sid)"
proof (rule exec_keepsI)
  fix s r s' assume "ClearPGresultInPGconn E sid s = Returns (r, s')"
  then obtain b where "clear_loop E sid False s = Some (b, s')"
    by (auto simp: ClearPGresultInPGconn_def split: option.splits)
  from clear_loop_talked [OF this] show "chat (receives sid) s s'" by (auto simp: chat_def)
qed

lemma CheckSync_chats [intro!]: "chats (receives sid) (CheckPQpipelineSyncFinished E sid)"
  unfolding CheckPQpipelineSyncFinished_def by blast


section \<open>The votes of the first phase\<close>

text \<open>
  The last call about a server synchronised its queries. libpq documents that the results of the
  queries of a pipeline up to a synchronisation point can then be fetched: \<^verbatim>\<open>PQgetResult\<close> does not
  return a null pointer.
\<close>

definition awaits :: "pq_event list \<Rightarrow> int \<Rightarrow> bool" where
  "awaits tr sid \<longleftrightarrow> (let es = filter (event_of sid) tr in es \<noteq> [] \<and> last es = Sync sid True)"

definition answered :: "pq_env \<Rightarrow> bool" where
  "answered E \<longleftrightarrow> (\<forall>tr sid. awaits tr sid \<longrightarrow> next_result E tr sid \<noteq> None)"

abbreviation writes_on :: "rc_state \<Rightarrow> int \<Rightarrow> bool" where
  "writes_on s sid \<equiv> conn_state s sid = CUCKOO_REMOTE_TRANSACTION_BEGIN_FOR_WRITE"

lemma awaits_sync: "awaits (tr @ [Sync sid True]) sid"
  by (simp add: awaits_def)

lemma awaits_append:
  assumes "awaits tr sid" "\<forall>e \<in> set tr'. \<not> event_of sid e"
  shows "awaits (tr @ tr') sid"
proof -
  have "filter (event_of sid) tr' = []" using assms(2) by (simp add: filter_empty_conv)
  then show ?thesis using assms(1) by (simp add: awaits_def)
qed

lemma event_of_unique: "event_of sid e \<Longrightarrow> event_of sid' e \<Longrightarrow> sid = sid'"
  by (cases e) auto

lemma receives_event: "receives sid e \<Longrightarrow> event_of sid e"
  by (auto simp: receives_def)

lemma talked_traceI: "s' = s\<lparr>rc_trace := rc_trace s @ tr\<rparr> \<Longrightarrow> talked tr s s'"
  by (rule talked_setI [where rs = "PGresultToBeCleared s"]) simp

lemma check_that_Returns:
  "check_that b e s = Returns (r, s') \<longleftrightarrow> s' = s \<and> r = (if b then Inr () else Inl e)"
  by (auto simp: check_that_def)

lemma PQsend_talked: "PQsend E sid q s = (ok, s') \<Longrightarrow> talked [Send sid q ok] s s'"
  by (auto simp: PQsend_def Let_def trace_event_def intro!: talked_traceI)

lemma PQsync_talked: "PQpipelineSync E sid s = (ok, s') \<Longrightarrow> talked [Sync sid ok] s s'"
  by (auto simp: PQpipelineSync_def Let_def trace_event_def intro!: talked_traceI)

lemma send_or_fail_Returns:
  assumes "send_or_fail E sid q s = Returns (r, s')"
  obtains ok where "talked [Send sid q ok] s s'" "r = (if ok then Inr () else Inl REMOTE_QUERY_FAILED)"
proof (cases "PQsend E sid q s")
  case (Pair ok s1)
  then show thesis using that [of ok] assms PQsend_talked [OF Pair] by (simp add: send_or_fail_def must_def)
qed

lemma sync_or_fail_Returns:
  assumes "sync_or_fail E sid s = Returns (r, s')"
  obtains ok where "talked [Sync sid ok] s s'" "r = (if ok then Inr () else Inl REMOTE_QUERY_FAILED)"
proof (cases "PQpipelineSync E sid s")
  case (Pair ok s1)
  then show thesis using that [of ok] assms PQsync_talked [OF Pair] by (simp add: sync_or_fail_def must_def)
qed

lemma prepare_send_ok:
  assumes "prepare_send E command sid s = Returns (Inr u, s')"
  obtains tr where "talked tr s s'" "\<forall>e \<in> set tr. event_of sid e"
    "sends tr = (if writes_on s sid then [(sid, QueryParams command)] else [])"
    "writes_on s sid \<longrightarrow> awaits (rc_trace s') sid"
proof -
  from assms obtain b s1 where c: "ClearPGresultInPGconn E sid s = Returns (Inr b, s1)"
    and rest: "(if writes_on s1 sid
      then exec_bind (send_or_fail E sid (QueryParams command)) (\<lambda>_. sync_or_fail E sid)
      else exec_return ()) s1 = Returns (Inr u, s')"
    unfolding prepare_send_def by (auto elim!: exec_bind_Inr simp: check_that_Returns split: if_splits)
  from c obtain tr1 where t1: "talked tr1 s s1" "list_all (receives sid) tr1"
    by (rule chatsD [OF Clear_chats])
  have ev1: "\<forall>e \<in> set tr1. event_of sid e" and no1: "sends tr1 = []"
    using t1(2) receives_event receives_sends by (auto simp: list_all_iff)
  show thesis
  proof (cases "writes_on s sid")
    case True
    with rest talked_simps [OF t1(1)] obtain s2 where
      2: "send_or_fail E sid (QueryParams command) s1 = Returns (Inr (), s2)"
      and 3: "sync_or_fail E sid s2 = Returns (Inr u, s')"
      by (auto elim: exec_bind_Inr)
    from 2 have t2: "talked [Send sid (QueryParams command) True] s1 s2"
      by (rule send_or_fail_Returns) (auto split: if_splits)
    from 3 have t3: "talked [Sync sid True] s2 s'" by (rule sync_or_fail_Returns) (auto split: if_splits)
    have t: "talked (tr1 @ [Send sid (QueryParams command) True] @ [Sync sid True]) s s'"
      by (rule talked_trans [OF t1(1) talked_trans [OF t2 t3]])
    have "awaits (rc_trace s') sid"
      using talked_simps(8) [OF t3] by (simp add: awaits_sync)
    then show thesis using that [OF t] ev1 no1 True by simp
  next
    case False
    then have "s' = s1" using rest talked_simps [OF t1(1)] by simp
    then show thesis using that [of tr1] t1 ev1 no1 False by simp
  qed
qed

lemma prepare_sends_ok:
  assumes "distinct sids" "prepare_sends E command sids s = Returns (Inr u, s')"
  shows "\<exists>tr. talked tr s s' \<and> (\<forall>e \<in> set tr. \<exists>sid \<in> set sids. event_of sid e)
     \<and> sends tr = map (\<lambda>sid. (sid, QueryParams command)) (filter (writes_on s) sids)
     \<and> (\<forall>sid \<in> set sids. writes_on s sid \<longrightarrow> awaits (rc_trace s') sid)"
  using assms
proof (induction sids arbitrary: s)
  case Nil
  then show ?case using talked_refl by (intro exI [of _ "[]"]) simp
next
  case (Cons sid sids)
  then obtain x s1 where 1: "prepare_send E command sid s = Returns (Inr x, s1)"
    and 2: "prepare_sends E command sids s1 = Returns (Inr u, s')" by (auto elim: exec_bind_Inr)
  from 1 obtain tr1 where t1: "talked tr1 s s1" "\<forall>e \<in> set tr1. event_of sid e"
      "sends tr1 = (if writes_on s sid then [(sid, QueryParams command)] else [])"
      "writes_on s sid \<longrightarrow> awaits (rc_trace s1) sid"
    by (rule prepare_send_ok)
  have w: "conn_state s1 = conn_state s" using talked_simps(9) [OF t1(1)] by (simp add: fun_eq_iff)
  from Cons.IH [OF _ 2] Cons.prems(1) obtain tr2 where t2: "talked tr2 s1 s'"
      "\<forall>e \<in> set tr2. \<exists>sid \<in> set sids. event_of sid e"
      "sends tr2 = map (\<lambda>sid. (sid, QueryParams command)) (filter (writes_on s) sids)"
      "\<forall>sid \<in> set sids. writes_on s sid \<longrightarrow> awaits (rc_trace s') sid"
    unfolding w by auto
  have "\<forall>e \<in> set tr2. \<not> event_of sid e" using t2(2) Cons.prems(1) event_of_unique by fastforce
  then have "writes_on s sid \<Longrightarrow> awaits (rc_trace s') sid"
    using t1(4) awaits_append talked_simps(8) [OF t2(1)] by simp
  then show ?case using talked_trans [OF t1(1) t2(1)] t1(2,3) t2(2,3,4)
    by (intro exI [of _ "tr1 @ tr2"]) auto
qed

text \<open>The participants \<open>ws\<close> have answered that they are prepared, and are recorded as such.\<close>

definition with_prepared ::
    "int list \<Rightarrow> (int \<Rightarrow> CuckooRemoteTransactionState) \<Rightarrow> int \<Rightarrow> CuckooRemoteTransactionState" where
  "with_prepared ws t = (\<lambda>k. if k \<in> set ws then CUCKOO_REMOTE_TRANSACTION_PREPARE else t k)"

lemma with_prepared_simps [simp]:
  "with_prepared [] t = t"
  "with_prepared ws' (with_prepared ws t) = with_prepared (ws @ ws') t"
  by (auto simp: with_prepared_def)

definition voted :: "string \<Rightarrow> int list \<Rightarrow> pq_event list \<Rightarrow> rc_state \<Rightarrow> rc_state \<Rightarrow> bool" where
  "voted gid ws tr s s' \<longleftrightarrow>
     (\<exists>rs. s' = s\<lparr>rc_trace := rc_trace s @ tr, PGresultToBeCleared := rs,
        rc_servers := (rc_servers s)\<lparr>transactionState := with_prepared ws (transactionState (rc_servers s))\<rparr>,
        distributed_transaction := (distributed_transaction s)\<lparr>h_now :=
          h_now (distributed_transaction s) @ map (\<lambda>sid. ((sid, gid), ())) ws\<rparr>\<rparr>)
     \<and> sends tr = []
     \<and> (\<forall>sid \<in> set ws. \<exists>r. Got sid (Some r) \<in> set tr \<and> res_status r \<in> {PGRES_COMMAND_OK, PGRES_TUPLES_OK})"

lemma voted_trans:
  assumes "voted gid ws tr s s1" "voted gid ws' tr' s1 s2"
  shows "voted gid (ws @ ws') (tr @ tr') s s2"
  using assms unfolding voted_def by auto

lemma talked_voted:
  assumes "talked tr s s'" "sends tr = []"
  shows "voted gid [] tr s s'"
  using assms unfolding talked_def voted_def by auto

lemma voted_simps:
  assumes "voted gid ws tr s s'"
  shows "conn_state s' sid = (if sid \<in> set ws then CUCKOO_REMOTE_TRANSACTION_PREPARE else conn_state s sid)"
    "rc_trace s' = rc_trace s @ tr"
  using assms unfolding voted_def by (auto simp: conn_state_def with_prepared_def)


lemma Write2PCRecord_Inr:
  assumes "Write2PCRecord sid gid s = (Inr u, s')"
  shows "s' = s\<lparr>distributed_transaction := (distributed_transaction s)\<lparr>h_now :=
     h_now (distributed_transaction s) @ [((sid, gid), ())]\<rparr>\<rparr>"
  using assms by (auto simp: Write2PCRecord_def heap_insert_def split: if_splits)

lemma prepared_voted:
  assumes "talked tr s s1" "sends tr = []" "Got sid (Some r) \<in> set tr"
    "res_status r \<in> {PGRES_COMMAND_OK, PGRES_TUPLES_OK}"
    "Write2PCRecord sid gid (set_conn_state sid CUCKOO_REMOTE_TRANSACTION_PREPARE s1) = (Inr u, s')"
  shows "voted gid [sid] tr s s'"
proof -
  have w: "with_prepared [sid] t = t(sid := CUCKOO_REMOTE_TRANSACTION_PREPARE)" for t
    by (auto simp: with_prepared_def)
  from assms(1) obtain rs where "s1 = s\<lparr>rc_trace := rc_trace s @ tr, PGresultToBeCleared := rs\<rparr>"
    unfolding talked_def by blast
  then have "s' = s\<lparr>rc_trace := rc_trace s @ tr, PGresultToBeCleared := rs,
      rc_servers := (rc_servers s)\<lparr>transactionState := with_prepared [sid] (transactionState (rc_servers s))\<rparr>,
      distributed_transaction := (distributed_transaction s)\<lparr>h_now :=
        h_now (distributed_transaction s) @ map (\<lambda>sid. ((sid, gid), ())) [sid]\<rparr>\<rparr>"
    unfolding w using Write2PCRecord_Inr [OF assms(5)] by (simp add: set_conn_state_def)
  then show ?thesis unfolding voted_def using assms(2,3,4) by auto
qed

lemma prepare_answer_ok:
  assumes "prepare_answer E gid sid s = Returns (Inr False, s')"
    and "answered E" "writes_on s sid \<longrightarrow> awaits (rc_trace s) sid"
  obtains tr where "voted gid (filter (writes_on s) [sid]) tr s s'" "\<forall>e \<in> set tr. event_of sid e"
proof -
  from assms(1) obtain res s1 where f: "fetch E sid s = Returns (Inr res, s1)"
    and rest: "(if res = None then exec_return False
     else if PQresultStatus res \<in> {PGRES_COMMAND_OK, PGRES_TUPLES_OK} then
       exec_bind (fetch E sid) (\<lambda>res.
       exec_bind (check_that (res = None) PROGRAM_ERROR) (\<lambda>_.
       exec_bind (CheckPQpipelineSyncFinished E sid) (\<lambda>_.
       exec_bind (exec_gets (\<lambda>s. conn_state s sid)) (\<lambda>st.
       if st = CUCKOO_REMOTE_TRANSACTION_BEGIN_FOR_WRITE
       then exec_bind (exec_modify (set_conn_state sid CUCKOO_REMOTE_TRANSACTION_PREPARE)) (\<lambda>_.
            exec_bind (exec_op (Write2PCRecord sid gid)) (\<lambda>_. exec_return False))
       else exec_return False))))
     else exec_return True) s1 = Returns (Inr False, s')"
    unfolding prepare_answer_def by (rule exec_bind_Inr)
  from f have t1: "talked [Got sid res] s s1" and res: "res = next_result E (rc_trace s) sid"
    by (auto elim: fetch_Returns)
  show thesis
  proof (cases res)
    case None
    then have "\<not> awaits (rc_trace s) sid" using assms(2) res unfolding answered_def by metis
    then have "\<not> writes_on s sid" using assms(3) by simp
    moreover have "s' = s1" using rest None by simp
    ultimately show thesis using that [of "[Got sid res]"] talked_voted [OF t1] by simp
  next
    case (Some r)
    with rest have st: "res_status r \<in> {PGRES_COMMAND_OK, PGRES_TUPLES_OK}"
      by (auto simp: PQresultStatus_def split: if_splits)
    with rest Some have rest': "exec_bind (fetch E sid) (\<lambda>res.
       exec_bind (check_that (res = None) PROGRAM_ERROR) (\<lambda>_.
       exec_bind (CheckPQpipelineSyncFinished E sid) (\<lambda>_.
       exec_bind (exec_gets (\<lambda>s. conn_state s sid)) (\<lambda>st.
       if st = CUCKOO_REMOTE_TRANSACTION_BEGIN_FOR_WRITE
       then exec_bind (exec_modify (set_conn_state sid CUCKOO_REMOTE_TRANSACTION_PREPARE)) (\<lambda>_.
            exec_bind (exec_op (Write2PCRecord sid gid)) (\<lambda>_. exec_return False))
       else exec_return False)))) s1 = Returns (Inr False, s')"
      by (simp only: PQresultStatus_def option.simps if_True if_False simp_thms)
    obtain res' s2 x s3 where 2: "fetch E sid s1 = Returns (Inr res', s2)"
      and 3: "CheckPQpipelineSyncFinished E sid s2 = Returns (Inr x, s3)"
      and 4: "(if writes_on s3 sid
       then exec_bind (exec_modify (set_conn_state sid CUCKOO_REMOTE_TRANSACTION_PREPARE)) (\<lambda>_.
            exec_bind (exec_op (Write2PCRecord sid gid)) (\<lambda>_. exec_return False))
       else exec_return False) s3 = Returns (Inr False, s')"
    proof (rule exec_bind_Inr [OF rest'], elim exec_bind_Inr, goal_cases)
      case (1 res' s2 y s2' x s3 st s3')
      then show ?case by (simp add: check_that_Returns split: if_splits)
    qed
    from 2 have t2: "talked [Got sid res'] s1 s2" by (rule fetch_Returns) simp
    from 3 obtain tr3 where t3: "talked tr3 s2 s3" "list_all (receives sid) tr3"
      by (rule chatsD [OF CheckSync_chats])
    define tr where "tr = [Got sid res] @ [Got sid res'] @ tr3"
    have t: "talked tr s s3" unfolding tr_def by (rule talked_trans [OF t1 talked_trans [OF t2 t3(1)]])
    have no: "sends tr = []" using receives_sends [OF t3(2)] by (simp add: tr_def)
    have ev: "\<forall>e \<in> set tr. event_of sid e"
      using t3(2) receives_event by (auto simp: tr_def list_all_iff)
    show thesis
    proof (cases "writes_on s sid")
      case True
      then obtain u where "Write2PCRecord sid gid (set_conn_state sid CUCKOO_REMOTE_TRANSACTION_PREPARE s3) = (Inr u, s')"
        using 4 talked_simps [OF t] by (auto elim!: exec_bind_Inr simp: exec_bind_run)
      from prepared_voted [OF t no _ st this] have "voted gid [sid] tr s s'" by (simp add: tr_def Some)
      then show thesis using that ev True by simp
    next
      case False
      then have "s' = s3" using 4 talked_simps [OF t] by simp
      then show thesis using that [of tr] talked_voted [OF t no] ev False by simp
    qed
  qed
qed

lemma prepare_answers_ok:
  assumes "distinct sids" "answered E" "prepare_answers E gid sids s = Returns (Inr False, s')"
    "\<forall>sid \<in> set sids. writes_on s sid \<longrightarrow> awaits (rc_trace s) sid"
  shows "\<exists>tr. voted gid (filter (writes_on s) sids) tr s s'"
  using assms(1,3,4)
proof (induction sids arbitrary: s)
  case Nil
  then show ?case using talked_voted [OF talked_refl] by (intro exI [of _ "[]"]) simp
next
  case (Cons sid sids)
  then obtain s1 where 1: "prepare_answer E gid sid s = Returns (Inr False, s1)"
    and 2: "prepare_answers E gid sids s1 = Returns (Inr False, s')"
    by (fastforce elim!: exec_bind_Inr)
  have aw: "writes_on s sid \<longrightarrow> awaits (rc_trace s) sid" using Cons.prems(3) by simp
  obtain tr1 where t1: "voted gid (filter (writes_on s) [sid]) tr1 s s1" "\<forall>e \<in> set tr1. event_of sid e"
    by (rule prepare_answer_ok [OF 1 assms(2) aw])
  have st: "conn_state s1 k = conn_state s k" if "k \<in> set sids" for k
    using voted_simps(1) [OF t1(1)] that Cons.prems(1) by auto
  have "awaits (rc_trace s1) k" if "k \<in> set sids" "writes_on s1 k" for k
  proof -
    have "k \<noteq> sid" using that(1) Cons.prems(1) by auto
    then have "\<forall>e \<in> set tr1. \<not> event_of k e" using t1(2) event_of_unique by blast
    then show ?thesis
      using awaits_append that st [OF that(1)] Cons.prems(3) voted_simps(2) [OF t1(1)] by simp
  qed
  then obtain tr2 where "voted gid (filter (writes_on s1) sids) tr2 s1 s'"
    using Cons.IH [OF _ 2] Cons.prems(1) by auto
  moreover have "filter (writes_on s1) sids = filter (writes_on s) sids" using st by (auto intro: filter_cong)
  ultimately have "voted gid (filter (writes_on s) [sid] @ filter (writes_on s) sids) (tr1 @ tr2) s s'"
    using voted_trans [OF t1(1)] by simp
  then show ?case by (cases "writes_on s sid") auto
qed

lemma on_servers_frame:
  assumes "on_servers f s = (r, s')"
  shows "s' = s\<lparr>rc_servers := rc_servers s'\<rparr>"
  using assms by (auto simp: on_servers_def split: prod.splits)


lemma get_connections_Returns:
  assumes "get_connections E sids s = Returns (r, s')"
  obtains x fs tr where "GetForeignServerConnection (text_clip E) (server_seq E) (connect_start E)
         (connect_ready E (rc_trace s)) sids (mark_broken E (rc_trace s) (rc_servers s)) = Returns (x, fs)"
    "s' = s\<lparr>rc_servers := fs, rc_trace := rc_trace s @ tr\<rparr>" "sends tr = []"
proof -
  from assms obtain x fs where g: "GetForeignServerConnection (text_clip E) (server_seq E) (connect_start E)
         (connect_ready E (rc_trace s)) sids (mark_broken E (rc_trace s) (rc_servers s)) = Returns (x, fs)"
    and "(let s = s\<lparr>rc_servers := fs\<rparr> in
      case x of Inl e \<Rightarrow> Returns (Inl e, s) | Inr conns \<Rightarrow> Returns (Inr (), trace_event (Conns sids conns) s))
      = Returns (r, s')"
    unfolding get_connections_def run_bind_Returns_iff by auto
  then show thesis using that [OF g, where tr = "[]"] that [OF g, where tr = "[Conns sids (projr x)]"]
    by (cases x) (auto simp: trace_event_def Let_def)
qed

lemma get_connections_frame:
  assumes "get_connections E sids s = Returns (r, s')"
  obtains fs tr where "s' = s\<lparr>rc_servers := fs, rc_trace := rc_trace s @ tr\<rparr>" "sends tr = []"
  using assms by (rule get_connections_Returns)

lemma Renew_transactionState:
  "RenewForeignServerLocalCache seq fs = (r, fs') \<Longrightarrow> transactionState fs' = transactionState fs"
  by (auto simp: RenewForeignServerLocalCache_def Let_def split: if_splits option.splits)

lemma Reload_transactionState:
  "ReloadForeignServerShmemCache clip fs = (r, fs') \<Longrightarrow> transactionState fs' = transactionState fs"
  by (auto simp: ReloadForeignServerShmemCache_def Let_def InvalidateForeignServerShmemCache_def
      split: if_splits prod.splits)

lemma GetLocalServerId_transactionState:
  "GetLocalServerId clip seq fs = (r, fs') \<Longrightarrow> transactionState fs' = transactionState fs"
  using Renew_transactionState Reload_transactionState
  by (fastforce simp: GetLocalServerId_def op_bind_def split: if_splits sum.splits prod.splits)

lemma GetImplicitTransactionGid_frame:
  assumes "GetImplicitTransactionGid E s = (r, s')"
  obtains fs where "s' = s\<lparr>rc_servers := fs\<rparr>" "transactionState fs = transactionState (rc_servers s)"
    "\<And>gid. r = Inr gid \<Longrightarrow> \<exists>serverId. gid = transaction_gid (TopTransactionId s) serverId (LocalServerWrite s)"
proof -
  obtain x fs where x: "GetLocalServerId (text_clip E) (server_seq E) (rc_servers s) = (x, fs)" by fastforce
  then show thesis using that [of fs] assms GetLocalServerId_transactionState [OF x]
    by (auto simp: GetImplicitTransactionGid_def on_servers_def op_bind_def Let_def
        split: sum.splits if_splits)
qed

lemma AddInprogress_Inr:
  assumes "AddInprogressTransaction E gid s = (Inr u, s')"
  shows "gid \<notin> set (InprogressTransactions s)"
    "s' = s\<lparr>InprogressTransactions := gid # InprogressTransactions s\<rparr>"
  using assms by (auto simp: AddInprogressTransaction_def split: if_splits)

text \<open>What the first phase has done when it returns.\<close>

lemma Prepare_votes:
  assumes "answered E" "RemoteConnectionCommandCache s = Some cache" "distinct (worker_ids E cache)"
    and "CuckooRemoteCommandPrepare E s = Returns (Inr (), s')"
  shows "\<exists>s1. get_connections E (worker_ids E cache) s = Returns (Inr (), s1)
     \<and> (let ws = filter (writes_on s1) (worker_ids E cache) in
        if (if LocalServerWrite s then 1 else 0) + length ws < 2 then s' = s1
        else \<exists>gid tr. RemoteTransactionGid s' = gid \<and> gid \<in> set (InprogressTransactions s')
           \<and> (\<exists>serverId. gid = transaction_gid (TopTransactionId s) serverId (LocalServerWrite s))
           \<and> (\<forall>sid. conn_state s' sid
                 = (if sid \<in> set ws then CUCKOO_REMOTE_TRANSACTION_PREPARE else conn_state s1 sid))
           \<and> h_now (distributed_transaction s')
               = h_now (distributed_transaction s1) @ map (\<lambda>sid. ((sid, gid), ())) ws
           \<and> rc_trace s' = rc_trace s1 @ tr
           \<and> sends tr = map (\<lambda>sid. (sid, QueryParams (prepare_command gid))) ws
           \<and> (\<forall>sid \<in> set ws. \<exists>r. Got sid (Some r) \<in> set tr
                 \<and> res_status r \<in> {PGRES_COMMAND_OK, PGRES_TUPLES_OK}))"
proof -
  let ?ids = "worker_ids E cache"
  from assms(2,4) obtain s1 where c: "get_connections E ?ids s = Returns (Inr (), s1)"
    and rest: "(if \<not> 2 \<le> writeServerCount ?ids s1 then exec_return ()
      else
        exec_bind (exec_op (GetImplicitTransactionGid E)) (\<lambda>gid.
        exec_bind (exec_modify (\<lambda>s. s\<lparr>RemoteTransactionGid := gid\<rparr>)) (\<lambda>_.
        exec_bind (exec_op (AddInprogressTransaction E gid)) (\<lambda>_.
        exec_bind (prepare_sends E (prepare_command gid) ?ids) (\<lambda>_.
        exec_bind (prepare_answers E gid ?ids) (\<lambda>failed.
        check_that (\<not> failed) REMOTE_QUERY_FAILED)))))) s1 = Returns (Inr (), s')"
    by (auto simp: CuckooRemoteCommandPrepare_def Let_def elim!: exec_bind_Inr)
  from c obtain fs tr0 where f: "s1 = s\<lparr>rc_servers := fs, rc_trace := rc_trace s @ tr0\<rparr>"
    by (rule get_connections_frame)
  let ?ws = "filter (writes_on s1) ?ids"
  have cnt: "writeServerCount ?ids s1 = (if LocalServerWrite s then 1 else 0) + length ?ws"
    by (simp add: writeServerCount_def f)
  show ?thesis
  proof (cases "writeServerCount ?ids s1 < 2")
    case True
    then show ?thesis using c rest cnt by (simp add: Let_def)
  next
    case False
    with rest have rest': "exec_bind (exec_op (GetImplicitTransactionGid E)) (\<lambda>gid.
        exec_bind (exec_modify (\<lambda>s. s\<lparr>RemoteTransactionGid := gid\<rparr>)) (\<lambda>_.
        exec_bind (exec_op (AddInprogressTransaction E gid)) (\<lambda>_.
        exec_bind (prepare_sends E (prepare_command gid) ?ids) (\<lambda>_.
        exec_bind (prepare_answers E gid ?ids) (\<lambda>failed.
        check_that (\<not> failed) REMOTE_QUERY_FAILED))))) s1 = Returns (Inr (), s')"
      by simp
    obtain gid s2 u3 s3 u4 s4 where 2: "GetImplicitTransactionGid E s1 = (Inr gid, s2)"
      and 3: "AddInprogressTransaction E gid (s2\<lparr>RemoteTransactionGid := gid\<rparr>) = (Inr u3, s3)"
      and 4: "prepare_sends E (prepare_command gid) ?ids s3 = Returns (Inr u4, s4)"
      and 5: "prepare_answers E gid ?ids s4 = Returns (Inr False, s')"
    proof (rule exec_bind_Inr [OF rest'], elim exec_bind_Inr, goal_cases)
      case (1 gid s2 u2 s2' u3 s3 u4 s4 b s5)
      then show ?case by (simp add: check_that_Returns split: if_splits)
    qed
    obtain fs2 where f2: "s2 = s1\<lparr>rc_servers := fs2\<rparr>" "transactionState fs2 = transactionState (rc_servers s1)"
      "\<exists>serverId. gid = transaction_gid (TopTransactionId s1) serverId (LocalServerWrite s1)"
      by (rule GetImplicitTransactionGid_frame [OF 2]) blast
    note f3 = AddInprogress_Inr(2) [OF 3]
    have w3: "conn_state s3 = conn_state s1" using f2 f3 by (simp add: conn_state_def fun_eq_iff)
    obtain tr4 where t4: "talked tr4 s3 s4"
      "sends tr4 = map (\<lambda>sid. (sid, QueryParams (prepare_command gid))) ?ws"
      "\<forall>sid \<in> set ?ids. writes_on s3 sid \<longrightarrow> awaits (rc_trace s4) sid"
      using prepare_sends_ok [OF assms(3) 4] unfolding w3 by blast
    have w4: "conn_state s4 = conn_state s1" using talked_simps(9) [OF t4(1)] w3 by (simp add: fun_eq_iff)
    have aw: "\<forall>sid \<in> set ?ids. writes_on s4 sid \<longrightarrow> awaits (rc_trace s4) sid" using t4(3) w3 w4 by simp
    obtain tr5 where v: "voted gid ?ws tr5 s4 s'"
      using prepare_answers_ok [OF assms(3,1) 5 aw] unfolding w4 by blast
    have "\<forall>sid. conn_state s' sid = (if sid \<in> set ?ws then CUCKOO_REMOTE_TRANSACTION_PREPARE else conn_state s1 sid)"
      using voted_simps(1) [OF v] w4 by simp
    have "rc_trace s' = rc_trace s1 @ (tr4 @ tr5)"
      using voted_simps(2) [OF v] talked_simps(8) [OF t4(1)] f3 f2(1) by simp
    have "RemoteTransactionGid s' = gid" "gid \<in> set (InprogressTransactions s')"
      "h_now (distributed_transaction s') = h_now (distributed_transaction s1) @ map (\<lambda>sid. ((sid, gid), ())) ?ws"
      using v talked_simps [OF t4(1)] f3 f2(1) unfolding voted_def by auto
    have "sends (tr4 @ tr5) = map (\<lambda>sid. (sid, QueryParams (prepare_command gid))) ?ws"
      using t4(2) v by (simp add: voted_def)
    have "\<forall>sid \<in> set ?ws. \<exists>r. Got sid (Some r) \<in> set (tr4 @ tr5)
        \<and> res_status r \<in> {PGRES_COMMAND_OK, PGRES_TUPLES_OK}"
      using v unfolding voted_def by fastforce
    have "\<exists>serverId. gid = transaction_gid (TopTransactionId s) serverId (LocalServerWrite s)"
      using f2(3) f by simp
    have many: "\<not> (if LocalServerWrite s then 1 else 0) + length ?ws < 2" using False cnt by simp
    show ?thesis unfolding Let_def
      by (intro exI [of _ s1] conjI, rule c, unfold if_not_P [OF many],
          intro exI [of _ gid] exI [of _ "tr4 @ tr5"] conjI; fact)
  qed
qed


section \<open>What the second phase and a rollback send\<close>

definition commit_command :: "string \<Rightarrow> CuckooRemoteTransactionState \<Rightarrow> query" where
  "commit_command gid st = QueryParams
     (if st = CUCKOO_REMOTE_TRANSACTION_PREPARE then commit_prepared_command gid else ''COMMIT;'')"

definition rollback_command :: "string \<Rightarrow> CuckooRemoteTransactionState \<Rightarrow> query" where
  "rollback_command gid st = QueryParams
     (if st = CUCKOO_REMOTE_TRANSACTION_PREPARE then rollback_prepared_command gid else ''ROLLBACK;'')"

definition ending1 :: "(string \<Rightarrow> CuckooRemoteTransactionState \<Rightarrow> query) \<Rightarrow> rc_state \<Rightarrow> int \<Rightarrow> (int \<times> query) list" where
  "ending1 command s sid =
     (if conn_state s sid = CUCKOO_REMOTE_TRANSACTION_NONE then []
      else [(sid, command (RemoteTransactionGid s) (conn_state s sid))])"

definition ending :: "(string \<Rightarrow> CuckooRemoteTransactionState \<Rightarrow> query) \<Rightarrow> rc_state \<Rightarrow> int list \<Rightarrow> (int \<times> query) list" where
  "ending command s sids = concat (map (ending1 command s) sids)"

lemma ending_simps [simp]:
  "ending command s [] = []"
  "ending command s (sid # sids) = ending1 command s sid @ ending command s sids"
  by (simp_all add: ending_def)

lemma ending1_talked: "talked tr s s' \<Longrightarrow> ending1 command s' = ending1 command s"
  by (simp add: fun_eq_iff ending1_def talked_simps)

lemma ending_talked: "talked tr s s' \<Longrightarrow> ending command s' sids = ending command s sids"
  by (simp add: ending_def ending1_talked)

lemma try_query_Returns:
  assumes "try_query E sid command s = Returns (r, s')"
  obtains b tr where "r = Inr b" "talked tr s s'" "sends tr = [(sid, QueryParams command)]"
proof -
  obtain ok s1 where 1: "PQsend E sid (QueryParams command) s = (ok, s1)" by fastforce
  obtain ok' s2 where 2: "PQpipelineSync E sid s1 = (ok', s2)" by fastforce
  note t1 = PQsend_talked [OF 1] and t2 = PQsync_talked [OF 2]
  show thesis
  proof (cases ok)
    case True
    then have "r = Inr ok'" "s' = s2" using assms 1 2 by (simp_all add: try_query_def)
    then show thesis using that [OF _ talked_trans [OF t1 t2, folded \<open>s' = s2\<close>]] by simp
  next
    case False
    then have "r = Inr False" "s' = s1" using assms 1 by (simp_all add: try_query_def)
    then show thesis using that [of False, OF _ t1 [folded \<open>s' = s1\<close>]] by simp
  qed
qed

lemma commit_send_Returns:
  assumes "commit_send E sid s = Returns (r, s')"
  obtains b tr where "r = Inr b" "talked tr s s'" "prefix (sends tr) (ending1 commit_command s sid)"
    "b \<Longrightarrow> sends tr = ending1 commit_command s sid"
proof -
  from assms obtain u s1 where c: "ClearPGresultInPGconn E sid s = Returns (Inr u, s1)"
    and rest: "(if u then exec_return False
      else
        exec_bind (exec_gets (\<lambda>s. (conn_state s sid, RemoteTransactionGid s))) (\<lambda>(st, gid).
        case st of
          CUCKOO_REMOTE_TRANSACTION_BEGIN_FOR_SNAPSHOT \<Rightarrow> try_query E sid ''COMMIT;''
        | CUCKOO_REMOTE_TRANSACTION_BEGIN_FOR_WRITE \<Rightarrow> try_query E sid ''COMMIT;''
        | CUCKOO_REMOTE_TRANSACTION_PREPARE \<Rightarrow>
            if gid = [] then (\<lambda>s. Faults) else try_query E sid (commit_prepared_command gid)
        | CUCKOO_REMOTE_TRANSACTION_NONE \<Rightarrow> exec_return True)) s1 = Returns (r, s')"
    unfolding commit_send_def
    by (rule exec_bind_Returns) (auto simp: ClearPGresultInPGconn_def split: option.splits prod.splits)
  from c obtain tr1 where t1: "talked tr1 s s1" "list_all (receives sid) tr1"
    by (rule chatsD [OF Clear_chats])
  note no1 = receives_sends [OF t1(2)]
  show thesis
  proof (cases u)
    case True
    then show thesis using that [of False tr1] rest t1(1) no1 by simp
  next
    case False
    show thesis
    proof (cases "conn_state s sid = CUCKOO_REMOTE_TRANSACTION_NONE")
      case True
      then show thesis using that [of True tr1] rest False t1(1) no1 talked_simps [OF t1(1)]
        by (simp add: exec_bind_run ending1_def)
    next
      case begun: False
      define command where "command = (if conn_state s sid = CUCKOO_REMOTE_TRANSACTION_PREPARE
        then commit_prepared_command (RemoteTransactionGid s) else ''COMMIT;'')"
      have "try_query E sid command s1 = Returns (r, s')"
        using rest False begun talked_simps [OF t1(1)]
        by (cases "conn_state s sid") (auto simp: exec_bind_run command_def split: if_splits)
      then obtain b tr2 where "r = Inr b" "talked tr2 s1 s'" "sends tr2 = [(sid, QueryParams command)]"
        by (rule try_query_Returns)
      then show thesis using that [of b "tr1 @ tr2"] talked_trans [OF t1(1)] no1 begun
        by (simp add: ending1_def commit_command_def command_def)
    qed
  qed
qed

lemma commit_sends_Returns:
  assumes "commit_sends E sids s = Returns (r, s')"
  shows "\<exists>b tr. r = Inr b \<and> talked tr s s' \<and> prefix (sends tr) (ending commit_command s sids)
     \<and> (b \<longrightarrow> sends tr = ending commit_command s sids)"
  using assms
proof (induction sids arbitrary: s)
  case Nil
  then show ?case using talked_refl by (intro exI [of _ True] exI [of _ "[]"]) auto
next
  case (Cons sid sids)
  have "\<exists>b tr s1. commit_send E sid s = Returns (Inr b, s1) \<and> talked tr s s1
      \<and> prefix (sends tr) (ending1 commit_command s sid) \<and> (b \<longrightarrow> sends tr = ending1 commit_command s sid)
      \<and> (if b then commit_sends E sids else exec_return False) s1 = Returns (r, s')"
    using Cons.prems unfolding commit_sends.simps
    by (rule exec_bind_Returns) (auto elim!: commit_send_Returns)
  then obtain b tr s1 where 1: "talked tr s s1" "prefix (sends tr) (ending1 commit_command s sid)"
      "b \<longrightarrow> sends tr = ending1 commit_command s sid"
      "(if b then commit_sends E sids else exec_return False) s1 = Returns (r, s')"
    by blast
  show ?case
  proof (cases b)
    case True
    then obtain b' tr' where "r = Inr b'" "talked tr' s1 s'" "prefix (sends tr') (ending commit_command s sids)"
      "b' \<longrightarrow> sends tr' = ending commit_command s sids"
      using Cons.IH [of s1] 1(4) ending_talked [OF 1(1)] by auto
    then show ?thesis using talked_trans [OF 1(1)] 1(3) True
      by (intro exI [of _ b'] exI [of _ "tr @ tr'"]) auto
  next
    case False
    then show ?thesis using 1 by (intro exI [of _ False] exI [of _ tr]) (auto intro: prefix_order.trans prefixI)
  qed
qed

lemma abort_send_Returns:
  assumes "abort_send E sid s = Returns (r, s')"
  obtains b tr where "r = Inr b" "talked tr s s'" "sends tr = ending1 rollback_command s sid"
proof -
  from assms obtain u s1 where c: "ClearPGresultInPGconn E sid s = Returns (Inr u, s1)"
    and rest: "(exec_bind (exec_gets (\<lambda>s. (conn_state s sid, RemoteTransactionGid s))) (\<lambda>(st, gid).
        case st of
          CUCKOO_REMOTE_TRANSACTION_BEGIN_FOR_SNAPSHOT \<Rightarrow> try_query E sid ''ROLLBACK;''
        | CUCKOO_REMOTE_TRANSACTION_BEGIN_FOR_WRITE \<Rightarrow> try_query E sid ''ROLLBACK;''
        | CUCKOO_REMOTE_TRANSACTION_PREPARE \<Rightarrow>
            if gid = [] then (\<lambda>s. Faults) else try_query E sid (rollback_prepared_command gid)
        | CUCKOO_REMOTE_TRANSACTION_NONE \<Rightarrow> exec_return True)) s1 = Returns (r, s')"
    unfolding abort_send_def
    by (rule exec_bind_Returns) (auto simp: ClearPGresultInPGconn_def split: option.splits prod.splits)
  from c obtain tr1 where t1: "talked tr1 s s1" "list_all (receives sid) tr1"
    by (rule chatsD [OF Clear_chats])
  note no1 = receives_sends [OF t1(2)]
  show thesis
  proof (cases "conn_state s sid = CUCKOO_REMOTE_TRANSACTION_NONE")
    case True
    then show thesis using that [of True tr1] rest t1(1) no1 talked_simps [OF t1(1)]
      by (simp add: exec_bind_run ending1_def)
  next
    case begun: False
    define command where "command = (if conn_state s sid = CUCKOO_REMOTE_TRANSACTION_PREPARE
      then rollback_prepared_command (RemoteTransactionGid s) else ''ROLLBACK;'')"
    have "try_query E sid command s1 = Returns (r, s')"
      using rest begun talked_simps [OF t1(1)]
      by (cases "conn_state s sid") (auto simp: exec_bind_run command_def split: if_splits)
    then obtain b tr2 where "r = Inr b" "talked tr2 s1 s'" "sends tr2 = [(sid, QueryParams command)]"
      by (rule try_query_Returns)
    then show thesis using that [of b "tr1 @ tr2"] talked_trans [OF t1(1)] no1 begun
      by (simp add: ending1_def rollback_command_def command_def)
  qed
qed

lemma abort_sends_Returns:
  assumes "abort_sends E sids s = Returns (r, s')"
  shows "\<exists>b tr. r = Inr b \<and> talked tr s s' \<and> sends tr = ending rollback_command s sids"
  using assms
proof (induction sids arbitrary: s r)
  case Nil
  then show ?case using talked_refl by (intro exI [of _ True] exI [of _ "[]"]) auto
next
  case (Cons sid sids)
  have "\<exists>tr s1 b x. talked tr s s1 \<and> sends tr = ending1 rollback_command s sid
      \<and> abort_sends E sids s1 = Returns (Inr b, s') \<and> r = Inr x"
    using Cons.prems unfolding abort_sends.simps
  proof (rule exec_bind_Returns)
    fix e assume "abort_send E sid s = Returns (Inl e, s')"
    then show ?thesis by (auto elim: abort_send_Returns)
  next
    fix b s1 assume "abort_send E sid s = Returns (Inr b, s1)"
      and 2: "exec_bind (abort_sends E sids) (\<lambda>rest. exec_return (b \<and> rest)) s1 = Returns (r, s')"
    then obtain tr where "talked tr s s1" "sends tr = ending1 rollback_command s sid"
      by (auto elim: abort_send_Returns)
    moreover have "\<exists>b x. abort_sends E sids s1 = Returns (Inr b, s') \<and> r = Inr x"
      using 2 by (rule exec_bind_Returns) (auto dest: Cons.IH)
    ultimately show ?thesis by blast
  qed
  then obtain tr s1 b x where 1: "talked tr s s1" "sends tr = ending1 rollback_command s sid"
      "abort_sends E sids s1 = Returns (Inr b, s')" "r = Inr x"
    by blast
  obtain tr' where "talked tr' s1 s'" "sends tr' = ending rollback_command s sids"
    using Cons.IH [OF 1(3)] ending_talked [OF 1(1)] by auto
  then show ?case using talked_trans [OF 1(1)] 1(2,4) by (intro exI [of _ x] exI [of _ "tr @ tr'"]) simp
qed

text \<open>Reading the answers sends nothing and closes the transactions of some of the servers.\<close>

definition settled :: "(int \<Rightarrow> bool) \<Rightarrow> rc_state \<Rightarrow> rc_state \<Rightarrow> bool" where
  "settled P s s' \<longleftrightarrow> (\<exists>tr rs t. s' = s\<lparr>rc_trace := rc_trace s @ tr, PGresultToBeCleared := rs,
        rc_servers := (rc_servers s)\<lparr>transactionState := t\<rparr>\<rparr> \<and> sends tr = []
     \<and> (\<forall>k. t k = transactionState (rc_servers s) k \<or> P k \<and> t k = CUCKOO_REMOTE_TRANSACTION_NONE))"

lemma settled_trans: "settled P s s1 \<Longrightarrow> settled P s1 s2 \<Longrightarrow> settled P s s2"
  unfolding settled_def
proof (elim exE conjE)
  fix tr rs t tr' rs' t'
  assume 1: "s1 = s\<lparr>rc_trace := rc_trace s @ tr, PGresultToBeCleared := rs,
        rc_servers := (rc_servers s)\<lparr>transactionState := t\<rparr>\<rparr>" "sends tr = []"
      "\<forall>k. t k = transactionState (rc_servers s) k \<or> P k \<and> t k = CUCKOO_REMOTE_TRANSACTION_NONE"
    and 2: "s2 = s1\<lparr>rc_trace := rc_trace s1 @ tr', PGresultToBeCleared := rs',
        rc_servers := (rc_servers s1)\<lparr>transactionState := t'\<rparr>\<rparr>" "sends tr' = []"
      "\<forall>k. t' k = transactionState (rc_servers s1) k \<or> P k \<and> t' k = CUCKOO_REMOTE_TRANSACTION_NONE"
  have "s2 = s\<lparr>rc_trace := rc_trace s @ (tr @ tr'), PGresultToBeCleared := rs',
        rc_servers := (rc_servers s)\<lparr>transactionState := t'\<rparr>\<rparr>" "sends (tr @ tr') = []"
    using 1 2 by simp_all
  moreover have "\<forall>k. t' k = transactionState (rc_servers s) k \<or> P k \<and> t' k = CUCKOO_REMOTE_TRANSACTION_NONE"
  proof
    fix k show "t' k = transactionState (rc_servers s) k \<or> P k \<and> t' k = CUCKOO_REMOTE_TRANSACTION_NONE"
      using 1(1) spec [OF 1(3), of k] spec [OF 2(3), of k] by auto
  qed
  ultimately show "\<exists>tr rs t. s2 = s\<lparr>rc_trace := rc_trace s @ tr, PGresultToBeCleared := rs,
        rc_servers := (rc_servers s)\<lparr>transactionState := t\<rparr>\<rparr> \<and> sends tr = []
     \<and> (\<forall>k. t k = transactionState (rc_servers s) k \<or> P k \<and> t k = CUCKOO_REMOTE_TRANSACTION_NONE)"
    by blast
qed

lemma talked_settled: "talked tr s s' \<Longrightarrow> sends tr = [] \<Longrightarrow> settled P s s'"
  unfolding talked_def settled_def
  by (auto intro!: exI [of _ tr] exI [of _ "transactionState (rc_servers s)"])

lemma close_settled: "P sid \<Longrightarrow> settled P s (set_conn_state sid CUCKOO_REMOTE_TRANSACTION_NONE s)"
  unfolding settled_def set_conn_state_def
  by (intro exI [of _ "[]"] exI [of _ "PGresultToBeCleared s"]
      exI [of _ "(transactionState (rc_servers s))(sid := CUCKOO_REMOTE_TRANSACTION_NONE)"]) auto

abbreviation settles :: "(int \<Rightarrow> bool) \<Rightarrow> (rc_state, 'a) exec \<Rightarrow> bool" where
  "settles P \<equiv> exec_keeps (settled P)"

lemma settles_chats: "chats (receives sid) m \<Longrightarrow> settles P m"
  by (erule exec_keeps_mono) (auto simp: chat_def intro: talked_settled dest: receives_sends)

lemma settles_bind [intro!]: "settles P m \<Longrightarrow> (\<And>x. settles P (f x)) \<Longrightarrow> settles P (exec_bind m f)"
  by (rule exec_keeps_bind) (auto intro: settled_trans)

lemma settles_if [intro!]: "settles P m \<Longrightarrow> settles P m' \<Longrightarrow> settles P (if b then m else m')"
  by simp

lemma settles_silent [intro!]:
  "settles P (exec_return x)" "settles P (fetch E sid)" "settles P (CheckPQpipelineSyncFinished E sid)"
  by (rule settles_chats [OF chats_silent(1)] settles_chats [OF fetch_chats]
      settles_chats [OF CheckSync_chats])+

lemma settles_close: "P sid \<Longrightarrow> settles P (exec_modify (set_conn_state sid CUCKOO_REMOTE_TRANSACTION_NONE))"
  by (rule exec_keepsI) (auto intro: close_settled)

lemma answers_settle:
  "set sids \<subseteq> {k. P k} \<Longrightarrow> settles P (commit_answers E sids)"
  "set sids \<subseteq> {k. P k} \<Longrightarrow> settles P (abort_answers E sids)"
proof -
  have "settles P (commit_answer E sid)" "settles P (abort_answer E sid)" if "P sid" for sid
    unfolding commit_answer_def abort_answer_def using settles_close [of P, OF that] by blast+
  then show "set sids \<subseteq> {k. P k} \<Longrightarrow> settles P (commit_answers E sids)"
    "set sids \<subseteq> {k. P k} \<Longrightarrow> settles P (abort_answers E sids)"
    by (induction sids) auto
qed


section \<open>Everything the first phase may do\<close>

text \<open>However the first phase ends, it sends only commands to prepare and commits nothing itself.\<close>

definition preparing :: "string \<Rightarrow> rc_state \<Rightarrow> rc_state \<Rightarrow> bool" where
  "preparing gid s s' \<longleftrightarrow>
     (\<exists>tr. rc_trace s' = rc_trace s @ tr \<and> snd ` set (sends tr) \<subseteq> {QueryParams (prepare_command gid)})
     \<and> h_base (distributed_transaction s') = h_base (distributed_transaction s)
     \<and> RemoteTransactionGid s' = RemoteTransactionGid s
     \<and> RemoteConnectionCommandCache s' = RemoteConnectionCommandCache s
     \<and> InprogressTransactions s' = InprogressTransactions s"

lemma preparing_trans:
  assumes "preparing gid s s1" "preparing gid s1 s2"
  shows "preparing gid s s2"
proof -
  from assms obtain tr tr' where "rc_trace s1 = rc_trace s @ tr" "rc_trace s2 = rc_trace s1 @ tr'"
    and sub: "snd ` set (sends tr) \<subseteq> {QueryParams (prepare_command gid)}"
      "snd ` set (sends tr') \<subseteq> {QueryParams (prepare_command gid)}"
    unfolding preparing_def by blast
  then have "rc_trace s2 = rc_trace s @ (tr @ tr')" by simp
  moreover have "snd ` set (sends (tr @ tr')) \<subseteq> {QueryParams (prepare_command gid)}"
    using sub by (simp add: image_Un)
  ultimately show ?thesis using assms unfolding preparing_def by metis
qed

lemma talked_preparing:
  assumes "talked tr s s'" "snd ` set (sends tr) \<subseteq> {QueryParams (prepare_command gid)}"
  shows "preparing gid s s'"
  unfolding preparing_def using assms(2) talked_simps [OF assms(1)] by auto

lemma preparing_bind [intro!]:
  "exec_keeps (preparing gid) m \<Longrightarrow> (\<And>x. exec_keeps (preparing gid) (f x))
    \<Longrightarrow> exec_keeps (preparing gid) (exec_bind m f)"
  by (rule exec_keeps_bind) (auto intro: preparing_trans)

lemma preparing_if [intro!]:
  "exec_keeps (preparing gid) m \<Longrightarrow> exec_keeps (preparing gid) m'
    \<Longrightarrow> exec_keeps (preparing gid) (if b then m else m')"
  by simp

lemma preparing_chats: "chats (receives sid) m \<Longrightarrow> exec_keeps (preparing gid) m"
proof (erule exec_keeps_mono)
  fix s s' assume "chat (receives sid) s s'"
  then obtain tr where "talked tr s s'" "list_all (receives sid) tr" by (auto simp: chat_def)
  then show "preparing gid s s'" using talked_preparing receives_sends by (metis empty_subsetI image_empty list.set(1))
qed

lemma preparing_silent [intro!]:
  "exec_keeps (preparing gid) (exec_return x)" "exec_keeps (preparing gid) (check_that b e)"
  "exec_keeps (preparing gid) (exec_gets g)" "exec_keeps (preparing gid) (fetch E sid)"
  "exec_keeps (preparing gid) (CheckPQpipelineSyncFinished E sid)"
  "exec_keeps (preparing gid) (ClearPGresultInPGconn E sid)"
  by (rule preparing_chats; blast)+

lemma preparing_steps [intro!]:
  "exec_keeps (preparing gid) (send_or_fail E sid (QueryParams (prepare_command gid)))"
  "exec_keeps (preparing gid) (sync_or_fail E sid)"
  "exec_keeps (preparing gid) (exec_modify (set_conn_state sid st))"
  "exec_keeps (preparing gid) (exec_op (Write2PCRecord sid g))"
proof -
  show "exec_keeps (preparing gid) (send_or_fail E sid (QueryParams (prepare_command gid)))"
    by (rule exec_keepsI, erule send_or_fail_Returns, erule talked_preparing) simp
  show "exec_keeps (preparing gid) (sync_or_fail E sid)"
    by (rule exec_keepsI, erule sync_or_fail_Returns, erule talked_preparing) simp
  show "exec_keeps (preparing gid) (exec_modify (set_conn_state sid st))"
    by (rule exec_keepsI) (auto simp: preparing_def set_conn_state_def intro: exI [of _ "[]"])
  show "exec_keeps (preparing gid) (exec_op (Write2PCRecord sid g))"
    by (rule exec_keepsI) (auto simp: preparing_def Write2PCRecord_def heap_insert_def split: if_splits
        intro: exI [of _ "[]"])
qed

lemma prepare_sends_preparing: "exec_keeps (preparing gid) (prepare_sends E (prepare_command gid) sids)"
  by (induction sids) (unfold prepare_sends.simps prepare_send_def, blast+)

lemma prepare_answers_preparing: "exec_keeps (preparing gid) (prepare_answers E gid sids)"
  by (induction sids) (unfold prepare_answers.simps prepare_answer_def, blast+)

lemma Prepare_any:
  assumes "CuckooRemoteCommandPrepare E s = Returns (r, s')"
  shows "\<exists>tr. rc_trace s' = rc_trace s @ tr
     \<and> snd ` set (sends tr) \<subseteq> {QueryParams (prepare_command (RemoteTransactionGid s'))}
     \<and> h_base (distributed_transaction s') = h_base (distributed_transaction s)
     \<and> RemoteConnectionCommandCache s' = RemoteConnectionCommandCache s
     \<and> (InprogressTransactions s' = InprogressTransactions s
        \<or> RemoteTransactionGid s' \<noteq> [] \<and> InprogressTransactions s' = RemoteTransactionGid s' # InprogressTransactions s)"
proof (cases "RemoteConnectionCommandCache s")
  case None
  then show ?thesis using assms by (simp add: CuckooRemoteCommandPrepare_def)
next
  case (Some cache)
  let ?ids = "worker_ids E cache"
  define phase where "phase gid = exec_bind (exec_op (AddInprogressTransaction E gid)) (\<lambda>_.
      exec_bind (prepare_sends E (prepare_command gid) ?ids) (\<lambda>_.
      exec_bind (prepare_answers E gid ?ids) (\<lambda>failed. check_that (\<not> failed) REMOTE_QUERY_FAILED)))" for gid
  have phase: "\<exists>tr. rc_trace s2 = rc_trace s1 @ tr \<and> snd ` set (sends tr) \<subseteq> {QueryParams (prepare_command gid)}
      \<and> h_base (distributed_transaction s2) = h_base (distributed_transaction s1)
      \<and> RemoteConnectionCommandCache s2 = RemoteConnectionCommandCache s1 \<and> RemoteTransactionGid s2 = RemoteTransactionGid s1
      \<and> (InprogressTransactions s2 = InprogressTransactions s1 \<or> InprogressTransactions s2 = gid # InprogressTransactions s1)"
    if run: "phase gid s1 = Returns (r2, s2)" for gid s1 r2 s2
    using run unfolding phase_def
  proof (cases rule: exec_bind_Returns)
    case (error e)
    then show ?thesis by (auto simp: AddInprogressTransaction_def split: if_splits)
  next
    case (ok u s3)
    have k: "exec_keeps (preparing gid) (exec_bind (prepare_sends E (prepare_command gid) ?ids) (\<lambda>_.
      exec_bind (prepare_answers E gid ?ids) (\<lambda>failed. check_that (\<not> failed) REMOTE_QUERY_FAILED)))"
      using prepare_sends_preparing prepare_answers_preparing by blast
    have "rc_trace s3 = rc_trace s1" "distributed_transaction s3 = distributed_transaction s1"
      "RemoteConnectionCommandCache s3 = RemoteConnectionCommandCache s1"
      "RemoteTransactionGid s3 = RemoteTransactionGid s1"
      "InprogressTransactions s3 = gid # InprogressTransactions s1"
      using ok(1) by (auto simp: AddInprogressTransaction_def split: if_splits)
    with exec_keepsD [OF k ok(2)] show ?thesis unfolding preparing_def by auto
  qed
  have "exec_bind (get_connections E ?ids) (\<lambda>_.
      exec_bind (exec_gets (\<lambda>s. 2 \<le> writeServerCount ?ids s)) (\<lambda>need2pc.
      if \<not> need2pc then exec_return ()
      else exec_bind (exec_op (GetImplicitTransactionGid E)) (\<lambda>gid.
           exec_bind (exec_modify (\<lambda>s. s\<lparr>RemoteTransactionGid := gid\<rparr>)) (\<lambda>_. phase gid)))) s = Returns (r, s')"
    using assms by (simp only: CuckooRemoteCommandPrepare_def Some option.case Let_def phase_def)
  then show ?thesis
  proof (cases rule: exec_bind_Returns)
    case (error e)
    then show ?thesis by (elim get_connections_frame) auto
  next
    case (ok u s1)
    from ok(1) obtain fs tr1 where f1: "s1 = s\<lparr>rc_servers := fs, rc_trace := rc_trace s @ tr1\<rparr>" "sends tr1 = []"
      by (rule get_connections_frame)
    show ?thesis
    proof (cases "2 \<le> writeServerCount ?ids s1")
      case False
      then show ?thesis using ok(2) f1 by (auto simp: exec_bind_run)
    next
      case True
      with ok(2) have "exec_bind (exec_op (GetImplicitTransactionGid E)) (\<lambda>gid.
           exec_bind (exec_modify (\<lambda>s. s\<lparr>RemoteTransactionGid := gid\<rparr>)) (\<lambda>_. phase gid)) s1 = Returns (r, s')"
        by (simp add: exec_bind_run)
      then show ?thesis
      proof (cases rule: exec_bind_Returns)
        case (error e)
        then have "GetImplicitTransactionGid E s1 = (Inl e, s')" by simp
        then show ?thesis using f1 by (elim GetImplicitTransactionGid_frame) auto
      next
        case (ok gid s2)
        then have "GetImplicitTransactionGid E s1 = (Inr gid, s2)" by simp
        then obtain fs2 where f2: "s2 = s1\<lparr>rc_servers := fs2\<rparr>"
          "\<exists>serverId. gid = transaction_gid (TopTransactionId s1) serverId (LocalServerWrite s1)"
          by (rule GetImplicitTransactionGid_frame) blast
        have "gid \<noteq> []" using f2(2) by (auto simp: transaction_gid_def CUCKOO_TRANSACTION_2PC_HEAD_def)
        moreover have "phase gid (s2\<lparr>RemoteTransactionGid := gid\<rparr>) = Returns (r, s')"
          using ok(2) by (simp add: exec_bind_run)
        ultimately show ?thesis using f1 f2(1) phase by fastforce
      qed
    qed
  qed
qed


section \<open>Reconnecting forgets a transaction\<close>

definition forgets :: "fs_state \<Rightarrow> fs_state \<Rightarrow> bool" where
  "forgets fs fs' \<longleftrightarrow> (\<forall>k. transactionState fs' k = transactionState fs k
     \<or> transactionState fs' k = CUCKOO_REMOTE_TRANSACTION_NONE)"

lemma forgets_trans: "forgets fs fs1 \<Longrightarrow> forgets fs1 fs2 \<Longrightarrow> forgets fs fs2"
  unfolding forgets_def by metis

lemma forgets_same: "transactionState fs' = transactionState fs \<Longrightarrow> forgets fs fs'"
  by (simp add: forgets_def)

lemma start_connection_forgets: "start_connection start sid fs = (r, fs') \<Longrightarrow> forgets fs fs'"
  by (auto simp: start_connection_def Let_def forgets_def split: option.splits if_splits)

lemma start_connections_forgets: "start_connections start sids fs = (r, fs') \<Longrightarrow> forgets fs fs'"
proof (induction sids arbitrary: fs r fs')
  case Nil
  then show ?case by (simp add: forgets_same)
next
  case (Cons sid sids)
  obtain r1 fs1 where 1: "start_connection start sid fs = (r1, fs1)" by fastforce
  show ?case
  proof (cases r1)
    case (Inl e)
    then show ?thesis using Cons.prems 1 start_connection_forgets [OF 1] by simp
  next
    case (Inr new)
    obtain r2 fs2 where 2: "start_connections start sids fs1 = (r2, fs2)" by fastforce
    then have "fs' = fs2" using Cons.prems 1 Inr by (cases r2) auto
    then show ?thesis using forgets_trans [OF start_connection_forgets [OF 1] Cons.IH [OF 2]] by simp
  qed
qed

lemma finish_connections_same:
  "finish_connections ready started fs = (b, fs') \<Longrightarrow> transactionState fs' = transactionState fs"
  by (induction ready started fs arbitrary: b rule: finish_connections.induct)
    (auto split: if_splits prod.splits)

lemma op_bind_forgets:
  assumes "\<And>fs r fs'. m fs = (r, fs') \<Longrightarrow> forgets fs fs'" "\<And>x fs r fs'. f x fs = (r, fs') \<Longrightarrow> forgets fs fs'"
    and "op_bind m f fs = (r, fs')"
  shows "forgets fs fs'"
proof (cases "m fs")
  case (Pair r1 fs1)
  with assms(3) have "r1 = Inl e \<Longrightarrow> fs' = fs1" for e by (cases r1) auto
  moreover have "f x fs1 = (r, fs')" if "r1 = Inr x" for x using assms(3) Pair that by simp
  ultimately show ?thesis using assms(1) [OF Pair] assms(2) forgets_trans by (cases r1) blast+
qed

lemma GetForeignServerConnection_forgets:
  assumes "GetForeignServerConnection clip seq start ready sids fs = Returns (r, fs')"
  shows "forgets fs fs'"
proof -
  let ?body = "op_bind (\<lambda>s. if fs_localVersion s < fs_version s then RenewForeignServerLocalCache seq s else (Inr (), s))
       (\<lambda>_. op_bind (start_connections start sids)
       (\<lambda>started s. let (connectSucceed, s) = finish_connections ready started s in
          if connectSucceed
          then (Inr (map (\<lambda>sid. case map_of (fs_conns s) sid of Some c \<Rightarrow> c | None \<Rightarrow> None) sids), s)
          else (Inl PROGRAM_ERROR, s)))"
  have body: "forgets fs1 fs2" if "?body fs1 = (r2, fs2)" for fs1 r2 fs2
    using that
  proof (rule op_bind_forgets [rotated 2])
    show "forgets fs fs'" if "(if fs_localVersion fs < fs_version fs then RenewForeignServerLocalCache seq fs
        else (Inr (), fs)) = (r, fs')" for fs r fs'
      using that Renew_transactionState by (intro forgets_same) (auto split: if_splits)
    show "forgets fs fs'" if "op_bind (start_connections start sids)
       (\<lambda>started s. let (connectSucceed, s) = finish_connections ready started s in
          if connectSucceed
          then (Inr (map (\<lambda>sid. case map_of (fs_conns s) sid of Some c \<Rightarrow> c | None \<Rightarrow> None) sids), s)
          else (Inl PROGRAM_ERROR, s)) fs = (r, fs')" for x :: unit and fs r fs'
      using that by (rule op_bind_forgets [rotated 2])
        (auto simp: Let_def intro: start_connections_forgets forgets_same dest: finish_connections_same
          split: prod.splits if_splits)
  qed
  have reload: "forgets fs1 fs2" if "ReloadForeignServerShmemCache clip fs1 = (r2, fs2)" for fs1 r2 fs2
    using Reload_transactionState [OF that] by (rule forgets_same)
  obtain r1 fs1 where 1: "ReloadForeignServerShmemCache clip fs = (r1, fs1)" by fastforce
  have "Returns (r, fs') = (case r1 of Inl e \<Rightarrow> Returns (Inl e, fs1) | Inr u \<Rightarrow> Returns (?body fs1))"
    using assms unfolding GetForeignServerConnection_def with_current_servers_def servers.reload_while_eq 1
    by (cases r1) simp_all
  then show ?thesis
    using reload [OF 1] body [of fs1 r fs'] forgets_trans by (cases r1) auto
qed

lemma get_connections_states:
  assumes "get_connections E sids s = Returns (r, s')"
  shows "conn_state s' k = conn_state s k \<or> conn_state s' k = CUCKOO_REMOTE_TRANSACTION_NONE"
proof -
  from assms obtain x fs where g: "GetForeignServerConnection (text_clip E) (server_seq E) (connect_start E)
         (connect_ready E (rc_trace s)) sids (mark_broken E (rc_trace s) (rc_servers s)) = Returns (x, fs)"
    and "rc_servers s' = fs"
    by (elim get_connections_Returns) simp
  then show ?thesis
    using GetForeignServerConnection_forgets [OF g] by (simp add: conn_state_def forgets_def mark_broken_def)
qed

section \<open>The second phase and a rollback as a whole\<close>

lemma Commit_any:
  assumes "CuckooRemoteCommandCommit E s = Returns (r, s')"
  shows "\<exists>tr. rc_trace s' = rc_trace s @ tr
     \<and> (\<forall>(sid, q) \<in> set (sends tr). conn_state s sid \<noteq> CUCKOO_REMOTE_TRANSACTION_NONE
          \<and> q = commit_command (RemoteTransactionGid s) (conn_state s sid))
     \<and> distributed_transaction s' = distributed_transaction s
     \<and> RemoteTransactionGid s' = RemoteTransactionGid s
     \<and> InprogressTransactions s' = InprogressTransactions s"
proof (cases "RemoteConnectionCommandCache s")
  case None
  then show ?thesis using assms by (simp add: CuckooRemoteCommandCommit_def)
next
  case (Some cache)
  let ?ids = "worker_ids E cache"
  have "exec_bind (get_connections E ?ids) (\<lambda>_. exec_bind (commit_sends E ?ids) (\<lambda>go_on.
          if go_on then commit_answers E ?ids else exec_return ())) s = Returns (r, s')"
    using assms by (simp only: CuckooRemoteCommandCommit_def Some option.case Let_def)
  then show ?thesis
  proof (cases rule: exec_bind_Returns)
    case (error e)
    then show ?thesis by (elim get_connections_frame) auto
  next
    case (ok u s1)
    from ok(1) obtain fs tr1 where f1: "s1 = s\<lparr>rc_servers := fs, rc_trace := rc_trace s @ tr1\<rparr>" "sends tr1 = []"
      by (rule get_connections_frame)
    from ok(2) have "\<exists>b s2. commit_sends E ?ids s1 = Returns (Inr b, s2) \<and> settled (\<lambda>_. True) s2 s'"
    proof (cases rule: exec_bind_Returns)
      case (error e)
      then show ?thesis using commit_sends_Returns by blast
    next
      case (ok b s2)
      have "settles (\<lambda>_. True) (if b then commit_answers E ?ids else exec_return ())"
        using answers_settle(1) [of ?ids "\<lambda>_. True" E] by auto
      from exec_keepsD [OF this ok(2)] ok(1) show ?thesis by blast
    qed
    then obtain b s2 where 2: "commit_sends E ?ids s1 = Returns (Inr b, s2)" and 3: "settled (\<lambda>_. True) s2 s'"
      by blast
    from commit_sends_Returns [OF 2] obtain tr2 where t2: "talked tr2 s1 s2"
      "prefix (sends tr2) (ending commit_command s1 ?ids)" by blast
    from 3 obtain tr3 where t3: "rc_trace s' = rc_trace s2 @ tr3" "sends tr3 = []"
      "distributed_transaction s' = distributed_transaction s2" "RemoteTransactionGid s' = RemoteTransactionGid s2"
      "InprogressTransactions s' = InprogressTransactions s2"
      unfolding settled_def by auto
    have "conn_state s sid \<noteq> CUCKOO_REMOTE_TRANSACTION_NONE
        \<and> q = commit_command (RemoteTransactionGid s) (conn_state s sid)" if "(sid, q) \<in> set (sends tr2)" for sid q
    proof -
      have "(sid, q) \<in> set (ending commit_command s1 ?ids)" using that t2(2) by (auto simp: prefix_def)
      then have "(sid, q) \<in> set (ending1 commit_command s1 sid)"
        by (auto simp: ending_def ending1_def split: if_splits)
      then show ?thesis using get_connections_states [OF ok(1), of sid] f1
        by (auto simp: ending1_def split: if_splits)
    qed
    then show ?thesis using f1 t3 talked_simps [OF t2(1)]
      by (intro exI [of _ "tr1 @ tr2 @ tr3"]) auto
  qed
qed

lemma Abort_any:
  assumes "CuckooRemoteCommandAbort E s = Returns (r, s')"
  shows "\<exists>tr. rc_trace s' = rc_trace s @ tr
     \<and> (\<forall>(sid, q) \<in> set (sends tr). conn_state s sid \<noteq> CUCKOO_REMOTE_TRANSACTION_NONE
          \<and> q = rollback_command (RemoteTransactionGid s) (conn_state s sid))
     \<and> distributed_transaction s' = distributed_transaction s
     \<and> RemoteTransactionGid s' = RemoteTransactionGid s
     \<and> InprogressTransactions s' = InprogressTransactions s"
proof (cases "RemoteConnectionCommandCache s")
  case None
  then show ?thesis using assms by (simp add: CuckooRemoteCommandAbort_def)
next
  case (Some cache)
  let ?ids = "worker_ids E cache"
  have "exec_bind (get_connections E ?ids) (\<lambda>_. exec_bind (abort_sends E ?ids) (\<lambda>sent.
          exec_bind (abort_answers E ?ids) (\<lambda>answered. exec_return (sent \<and> answered)))) s = Returns (r, s')"
    using assms by (simp only: CuckooRemoteCommandAbort_def Some option.case Let_def)
  then show ?thesis
  proof (cases rule: exec_bind_Returns)
    case (error e)
    then show ?thesis by (elim get_connections_frame) auto
  next
    case (ok u s1)
    from ok(1) obtain fs tr1 where f1: "s1 = s\<lparr>rc_servers := fs, rc_trace := rc_trace s @ tr1\<rparr>" "sends tr1 = []"
      by (rule get_connections_frame)
    from ok(2) have "\<exists>b s2. abort_sends E ?ids s1 = Returns (Inr b, s2) \<and> settled (\<lambda>_. True) s2 s'"
    proof (cases rule: exec_bind_Returns)
      case (error e)
      then show ?thesis using abort_sends_Returns by blast
    next
      case (ok b s2)
      have "settles (\<lambda>_. True) (exec_bind (abort_answers E ?ids) (\<lambda>answered. exec_return (b \<and> answered)))"
        using answers_settle(2) [of ?ids "\<lambda>_. True" E] by auto
      from exec_keepsD [OF this ok(2)] ok(1) show ?thesis by blast
    qed
    then obtain b s2 where 2: "abort_sends E ?ids s1 = Returns (Inr b, s2)" and 3: "settled (\<lambda>_. True) s2 s'"
      by blast
    from abort_sends_Returns [OF 2] obtain tr2 where t2: "talked tr2 s1 s2"
      "sends tr2 = ending rollback_command s1 ?ids" by blast
    from 3 obtain tr3 where t3: "rc_trace s' = rc_trace s2 @ tr3" "sends tr3 = []"
      "distributed_transaction s' = distributed_transaction s2" "RemoteTransactionGid s' = RemoteTransactionGid s2"
      "InprogressTransactions s' = InprogressTransactions s2"
      unfolding settled_def by auto
    have "conn_state s sid \<noteq> CUCKOO_REMOTE_TRANSACTION_NONE
        \<and> q = rollback_command (RemoteTransactionGid s) (conn_state s sid)" if "(sid, q) \<in> set (sends tr2)" for sid q
    proof -
      have "(sid, q) \<in> set (ending1 rollback_command s1 sid)"
        using that t2(2) by (auto simp: ending_def ending1_def split: if_splits)
      then show ?thesis using get_connections_states [OF ok(1), of sid] f1
        by (auto simp: ending1_def split: if_splits)
    qed
    then show ?thesis using f1 t3 talked_simps [OF t2(1)]
      by (intro exI [of _ "tr1 @ tr2 @ tr3"]) auto
  qed
qed


section \<open>A concrete cluster\<close>

text \<open>
  Servers 1 and 2 answer each synchronised query with success. A coordinator, server 0, has written on
  both and locally.
\<close>

definition is_got :: "pq_event \<Rightarrow> bool" where
  "is_got e = (case e of Got sid r \<Rightarrow> True | _ \<Rightarrow> False)"

definition answer_in_turn :: "pq_event list \<Rightarrow> int \<Rightarrow> PGresult option" where
  "answer_in_turn tr sid =
     (let es = filter (event_of sid) tr; n = length (takeWhile is_got (rev es)) in
      if n = length es then None
      else if n = 0 then Some \<lparr>res_status = PGRES_COMMAND_OK, res_rows = []\<rparr>
      else if n = 2 then Some \<lparr>res_status = PGRES_PIPELINE_SYNC, res_rows = []\<rparr>
      else None)"

definition cluster_env :: pq_env where
  "cluster_env = \<lparr>text_clip = (\<lambda>n t. t), server_seq = (\<lambda>rows. rows), command_seq = (\<lambda>c. c),
     connect_start = (\<lambda>host port user. \<lparr>conn_hostaddr = host, conn_port = port, conn_bad = False\<rparr>),
     connect_ready = (\<lambda>tr sid. True), conn_broken = (\<lambda>tr sid. False), send_ok = (\<lambda>tr sid q. True),
     sync_ok = (\<lambda>tr sid. True), next_result = answer_in_turn, enter_ok = (\<lambda>gs. True)\<rparr>"

lemma cluster_env_answered: "answered cluster_env"
  unfolding answered_def
proof (intro allI impI)
  fix tr sid assume "awaits tr sid"
  then obtain es where "filter (event_of sid) tr = es @ [Sync sid True]"
    unfolding awaits_def Let_def by (metis append_butlast_last_id)
  then show "next_result cluster_env tr sid \<noteq> None"
    by (simp add: cluster_env_def answer_in_turn_def is_got_def)
qed

definition cluster_server :: "int \<Rightarrow> foreign_server" where
  "cluster_server sid = \<lparr>server_id = sid, server_name = ''server'', server_host = ''10.0.0.1'', server_port = 5000 + sid,
     is_local = (sid = 0), user_name = ''cuckoo''\<rparr>"

definition cluster_conn :: "int \<Rightarrow> int \<times> pgconn option" where
  "cluster_conn sid = (sid, Some \<lparr>conn_hostaddr = ''10.0.0.1'', conn_port = 5000 + sid, conn_bad = False\<rparr>)"

definition cluster_servers :: fs_state where
  "cluster_servers = \<lparr>fs_table = map cluster_server [0, 1, 2], fs_cache = map cluster_server [0, 1, 2],
     fs_version = 1, fs_invalid = False, fs_conns = map cluster_conn [1, 2],
     transactionState = (\<lambda>sid. if sid = 1 \<or> sid = 2 then CUCKOO_REMOTE_TRANSACTION_BEGIN_FOR_WRITE
                              else CUCKOO_REMOTE_TRANSACTION_NONE),
     fs_localVersion = 1, LocalServerId = 0, LocalServerName = ''server''\<rparr>"

definition coordinator :: rc_state where
  "coordinator = \<lparr>rc_servers = cluster_servers,
     RemoteConnectionCommandCache = Some (map (\<lambda>sid. (sid, \<lparr>commandFlag = 2, remoteCommandList = []\<rparr>)) [1, 2]),
     PGresultToBeCleared = [], LocalServerWrite = True, RemoteTransactionGid = [], InprogressTransactions = [],
     distributed_transaction = heap_of [], TopTransactionId = 42, rc_trace = []\<rparr>"

declare reload_while.simps [code] clear_loop.simps [code]

lemma coordinator_prepares:
  "yields (CuckooRemoteCommandPrepare cluster_env coordinator) (\<lambda>s. RemoteTransactionGid s = ''cuckoo_xact_42:0:T''
     \<and> conn_state s 1 = CUCKOO_REMOTE_TRANSACTION_PREPARE \<and> conn_state s 2 = CUCKOO_REMOTE_TRANSACTION_PREPARE)"
  by code_simp


section \<open>The first phase\<close>



end
