(* ===== verification/RW_Lock.thy ===== *)
theory RW_Lock
  imports Error_Code "HOL-Library.Multiset"
begin

text \<open>
  The reader-writer lock of \<^verbatim>\<open>cuckoo/utils/rwlock.c\<close>: a 64-bit word with the number of shared
  holders, an exclusive bit, a reference count and a flag for a waiting writer, and per backend the
  array of locks it holds. The lock words live in a map from lock identities; the array prefix
  \<^verbatim>\<open>held_rwlocks[0 .. num_held_rwlocks)\<close> is a list. First the operations of one backend that runs
  alone, then a step relation in which the atomic accesses of many backends interleave.
\<close>

section \<open>The lock word\<close>

definition RW_FLAG_HAS_EXCLUSIVE_WAITER :: u64 where
  "RW_FLAG_HAS_EXCLUSIVE_WAITER = push_bit 62 1"
definition RW_VAL_EXCLUSIVE :: u64 where "RW_VAL_EXCLUSIVE = push_bit 24 1"
definition RW_VAL_SHARED :: u64 where "RW_VAL_SHARED = 1"
definition RW_VAL_REF_COUNT :: u64 where "RW_VAL_REF_COUNT = push_bit 25 1"
definition RW_LOCK_MASK :: u64 where "RW_LOCK_MASK = mask 25"
definition RW_REF_COUNT_MASK :: u64 where "RW_REF_COUNT_MASK = mask 50 AND NOT RW_LOCK_MASK"

definition MAX_SIMUL_RWLOCKS :: nat where "MAX_SIMUL_RWLOCKS = 8196"

datatype RWLockMode = RW_EXCLUSIVE | RW_SHARED | RW_DECLARE

definition RWLockInitialize :: u64 where
  "RWLockInitialize = 0"

text \<open>
  One round of \<^verbatim>\<open>RWLockAttemptLock\<close> on the state it read: the state to swap in and whether the lock
  was free.
\<close>

definition attempt_state :: "RWLockMode \<Rightarrow> u64 \<Rightarrow> u64 \<times> bool" where
  "attempt_state mode old_state =
     (if mode = RW_EXCLUSIVE then
        (let lock_free = (old_state AND RW_LOCK_MASK = 0) in
         if lock_free
         then ((old_state OR RW_VAL_EXCLUSIVE) AND NOT RW_FLAG_HAS_EXCLUSIVE_WAITER, True)
         else (old_state OR RW_FLAG_HAS_EXCLUSIVE_WAITER, False))
      else
        (let lock_free = (old_state AND (RW_VAL_EXCLUSIVE OR RW_FLAG_HAS_EXCLUSIVE_WAITER) = 0) in
         if lock_free then (old_state + RW_VAL_SHARED, True) else (old_state, False)))"

text \<open>
  The loop of \<^verbatim>\<open>RWLockAttemptLock\<close>: the list holds what each compare-and-swap finds in the word.
  \<open>None\<close>: still retrying; otherwise the value swapped in and the result.
\<close>

primrec RWLockAttemptLock :: "RWLockMode \<Rightarrow> u64 list \<Rightarrow> u64 \<Rightarrow> (u64 \<times> bool) option" where
  "RWLockAttemptLock mode [] old_state = None"
| "RWLockAttemptLock mode (found # later) old_state =
     (if found = old_state then Some (attempt_state mode old_state)
      else RWLockAttemptLock mode later found)"

definition RWLockCheckDestroyable :: "u64 \<Rightarrow> bool" where
  "RWLockCheckDestroyable state \<longleftrightarrow> state AND RW_REF_COUNT_MASK = 0"

section \<open>One backend\<close>

record 'l backend =
  rw_state :: "'l \<Rightarrow> u64"
  held_rwlocks :: "('l \<times> RWLockMode) list"
  InterruptHoldoffCount :: int

text \<open>The backward search for an entry, and the loop that closes the gap.\<close>

definition last_index :: "('a \<Rightarrow> bool) \<Rightarrow> 'a list \<Rightarrow> nat option" where
  "last_index P xs =
     (case filter (\<lambda>i. P (xs ! i)) [0..<length xs] of [] \<Rightarrow> None | i # is \<Rightarrow> Some (last (i # is)))"

definition remove_at :: "nat \<Rightarrow> 'a list \<Rightarrow> 'a list" where
  "remove_at i xs = take i xs @ drop (Suc i) xs"

definition RWLockDeclare :: "'l backend \<Rightarrow> 'l \<Rightarrow> CuckooErrorCode + 'l backend" where
  "RWLockDeclare s lock =
     (if length (held_rwlocks s) \<ge> MAX_SIMUL_RWLOCKS then Inl PROGRAM_ERROR
      else Inr (s\<lparr>InterruptHoldoffCount := InterruptHoldoffCount s + 1,
                  rw_state := (rw_state s)(lock := rw_state s lock + RW_VAL_REF_COUNT),
                  held_rwlocks := held_rwlocks s @ [(lock, RW_DECLARE)]\<rparr>))"

definition RWLockUndeclare :: "'l backend \<Rightarrow> 'l \<Rightarrow> CuckooErrorCode + 'l backend" where
  "RWLockUndeclare s lock =
     (case last_index (\<lambda>h. lock = fst h \<and> snd h = RW_DECLARE) (held_rwlocks s) of
        None \<Rightarrow> Inl PROGRAM_ERROR
      | Some i \<Rightarrow>
          Inr (s\<lparr>held_rwlocks := remove_at i (held_rwlocks s),
                 rw_state := (rw_state s)(lock := rw_state s lock - RW_VAL_REF_COUNT),
                 InterruptHoldoffCount := InterruptHoldoffCount s - 1\<rparr>))"

text \<open>
  The spinning loop of \<^verbatim>\<open>RWLockAcquire\<close> with nobody else touching the word; \<open>None\<close>: spins for ever.
\<close>

partial_function (option) acquire_loop :: "RWLockMode \<Rightarrow> u64 \<Rightarrow> u64 option" where
  "acquire_loop mode state =
     (if snd (attempt_state mode state) then Some (fst (attempt_state mode state))
      else acquire_loop mode (fst (attempt_state mode state)))"

definition RWLockAcquire :: "'l backend \<Rightarrow> 'l \<Rightarrow> RWLockMode \<Rightarrow> (CuckooErrorCode + 'l backend) run" where
  "RWLockAcquire s lock mode =
     (if mode = RW_DECLARE then Returns (Inl PROGRAM_ERROR)
      else if length (held_rwlocks s) \<ge> MAX_SIMUL_RWLOCKS then Returns (Inl PROGRAM_ERROR)
      else case acquire_loop mode (rw_state s lock + RW_VAL_REF_COUNT) of
        None \<Rightarrow> Loops
      | Some state \<Rightarrow>
          Returns (Inr (s\<lparr>InterruptHoldoffCount := InterruptHoldoffCount s + 1,
                          rw_state := (rw_state s)(lock := state),
                          held_rwlocks := held_rwlocks s @ [(lock, mode)]\<rparr>)))"

text \<open>What releasing an entry subtracts from the word before the reference.\<close>

definition mode_value :: "RWLockMode \<Rightarrow> u64" where
  "mode_value mode = (if mode = RW_EXCLUSIVE then RW_VAL_EXCLUSIVE else RW_VAL_SHARED)"

definition RWLockRelease :: "'l backend \<Rightarrow> 'l \<Rightarrow> CuckooErrorCode + 'l backend" where
  "RWLockRelease s lock =
     (case last_index (\<lambda>h. lock = fst h) (held_rwlocks s) of
        None \<Rightarrow> Inl PROGRAM_ERROR
      | Some i \<Rightarrow>
          let mode = snd (held_rwlocks s ! i) in
          Inr (s\<lparr>held_rwlocks := remove_at i (held_rwlocks s),
                 rw_state := (rw_state s)(lock :=
                   rw_state s lock - mode_value mode - RW_VAL_REF_COUNT),
                 InterruptHoldoffCount := InterruptHoldoffCount s - 1\<rparr>))"

section \<open>Searching the held array\<close>

lemma last_index_Some:
  assumes "last_index P xs = Some i"
  shows "i < length xs" "P (xs ! i)" "\<And>j. i < j \<Longrightarrow> j < length xs \<Longrightarrow> \<not> P (xs ! j)"
proof -
  let ?is = "filter (\<lambda>i. P (xs ! i)) [0..<length xs]"
  have i: "?is \<noteq> []" "i = last ?is"
    using assms by (auto simp: last_index_def split: list.splits)
  then have "i \<in> set ?is" by (metis last_in_set)
  then show "i < length xs" "P (xs ! i)" by auto
  have "sorted ?is" by (simp add: sorted_wrt_filter)
  then show "\<not> P (xs ! j)" if "i < j" "j < length xs" for j
    using sorted_le_last [of ?is j] i that by auto
qed

lemma last_index_None: "last_index P xs = None \<Longrightarrow> x \<in> set xs \<Longrightarrow> \<not> P x"
  by (auto simp: last_index_def filter_empty_conv in_set_conv_nth split: list.splits)

lemma last_index_last: "P x \<Longrightarrow> last_index P (xs @ [x]) = Some (length xs)"
proof -
  assume "P x"
  then have "filter (\<lambda>i. P ((xs @ [x]) ! i)) [0..<length (xs @ [x])]
      = filter (\<lambda>i. P ((xs @ [x]) ! i)) [0..<length xs] @ [length xs]" by simp
  then show ?thesis by (auto simp: last_index_def split: list.splits dest: arg_cong [where f = last])
qed

lemma length_remove_at [simp]: "i < length xs \<Longrightarrow> length (remove_at i xs) = length xs - 1"
  by (simp add: remove_at_def)

lemma remove_at_last [simp]: "remove_at (length xs) (xs @ [x]) = xs"
  by (simp add: remove_at_def)

lemma mset_remove_at: "i < length xs \<Longrightarrow> mset xs = add_mset (xs ! i) (mset (remove_at i xs))"
  by (metis (no_types, lifting) id_take_nth_drop mset.simps(2) mset_append remove_at_def
      union_mset_add_mset_right)

lemma RWLockUndeclare_shorter:
  "RWLockUndeclare s lock = Inr s' \<Longrightarrow> length (held_rwlocks s') < length (held_rwlocks s)"
  by (auto simp: RWLockUndeclare_def split: option.splits dest!: last_index_Some(1))

lemma RWLockRelease_shorter:
  "RWLockRelease s lock = Inr s' \<Longrightarrow> length (held_rwlocks s') < length (held_rwlocks s)"
  by (auto simp: RWLockRelease_def Let_def split: option.splits dest!: last_index_Some(1))

function RWLockReleaseAll :: "bool \<Rightarrow> 'l backend \<Rightarrow> CuckooErrorCode + 'l backend" where
  "RWLockReleaseAll keepInterruptHoldoffCount s =
     (if held_rwlocks s \<noteq> [] then
        let s1 = (if keepInterruptHoldoffCount
                  then s\<lparr>InterruptHoldoffCount := InterruptHoldoffCount s + 1\<rparr> else s);
            h = last (held_rwlocks s1) in
        case (if snd h = RW_DECLARE then RWLockUndeclare s1 (fst h) else RWLockRelease s1 (fst h)) of
          Inl e \<Rightarrow> Inl e
        | Inr s2 \<Rightarrow> RWLockReleaseAll keepInterruptHoldoffCount s2
      else Inr s)"
  by pat_completeness auto
termination
  by (relation "measure (\<lambda>(_, s). length (held_rwlocks s))")
    (auto split: if_splits dest!: RWLockUndeclare_shorter RWLockRelease_shorter)

section \<open>What the word encodes\<close>

text \<open>\<open>r\<close> shared holders, \<open>x\<close> exclusive holders, \<open>c\<close> references, \<open>f\<close> the waiting-writer flag.\<close>

definition rw_enc :: "nat \<Rightarrow> nat \<Rightarrow> nat \<Rightarrow> nat \<Rightarrow> u64" where
  "rw_enc r x c f = word_of_nat (r + 2 ^ 24 * x + 2 ^ 25 * c + 2 ^ 62 * f)"

lemma bit_low_high:
  assumes "r < 2 ^ k"
  shows "bit (r + 2 ^ k * y :: nat) n \<longleftrightarrow> (if n < k then bit r n else bit y (n - k))"
proof (cases "n < k")
  case True
  then obtain d where d: "k = Suc (n + d)" using less_imp_Suc_add by blast
  have "r + 2 ^ k * y = r + 2 ^ n * (2 * 2 ^ d * y)" by (simp add: d power_add)
  then have "(r + 2 ^ k * y) div 2 ^ n = r div 2 ^ n + 2 * 2 ^ d * y"
    by (simp only: div_mult_self2 power_not_zero zero_neq_numeral not_False_eq_True)
  then show ?thesis using True by (simp add: bit_iff_odd)
next
  case False
  then obtain d where d: "n = k + d" using le_Suc_ex not_less by blast
  have "(r + 2 ^ k * y) div 2 ^ n = (r + 2 ^ k * y) div 2 ^ k div 2 ^ d"
    by (simp add: d power_add div_mult2_eq)
  also have "(r + 2 ^ k * y) div 2 ^ k = y" using assms by simp
  finally show ?thesis using False by (simp add: bit_iff_odd d)
qed

lemma bit_le_one: "x \<le> 1 \<Longrightarrow> bit (x :: nat) k \<longleftrightarrow> k = 0 \<and> x = 1"
proof -
  assume "x \<le> 1"
  then consider "x = 0" | "x = 1" by linarith
  then show ?thesis by cases (simp_all add: bit_1_iff del: One_nat_def)
qed

lemma bit_rw_enc:
  assumes "r < 2 ^ 24" "x \<le> 1" "c < 2 ^ 25" "f \<le> 1"
  shows "bit (rw_enc r x c f) n \<longleftrightarrow>
     (if n < 24 then bit r n else if n = 24 then x = 1 else if n < 62 then bit c (n - 25)
      else n = 62 \<and> f = 1)"
proof -
  have e: "r + 2 ^ 24 * x + 2 ^ 25 * c + 2 ^ 62 * f = r + 2 ^ 24 * (x + 2 ^ 1 * (c + 2 ^ 37 * f))"
    by simp
  have b1: "bit (r + 2 ^ 24 * y) n \<longleftrightarrow> (if n < 24 then bit r n else bit y (n - 24))" for y
    using assms(1) by (rule bit_low_high)
  have b2: "bit (x + 2 ^ 1 * y) m \<longleftrightarrow> (if m < 1 then bit x m else bit y (m - 1))" for y m
    using assms(2) by (intro bit_low_high) simp
  have b3: "bit (c + 2 ^ 37 * y) m \<longleftrightarrow> (if m < 37 then bit c m else bit y (m - 37))" for y m
    using assms(3) by (intro bit_low_high) simp
  have "bit (r + 2 ^ 24 * x + 2 ^ 25 * c + 2 ^ 62 * f) n \<longleftrightarrow>
     (if n < 24 then bit r n else if n - 24 < 1 then bit x (n - 24)
      else if n - 24 - 1 < 37 then bit c (n - 24 - 1) else bit f (n - 24 - 1 - 37))"
    unfolding e b1 b2 b3 ..
  also have "\<dots> \<longleftrightarrow> (if n < 24 then bit r n else if n = 24 then x = 1
      else if n < 62 then bit c (n - 25) else n = 62 \<and> f = 1)"
    using assms(2,4) by (auto simp: bit_le_one)
  finally have nat: "bit (r + 2 ^ 24 * x + 2 ^ 25 * c + 2 ^ 62 * f) n \<longleftrightarrow>
     (if n < 24 then bit r n else if n = 24 then x = 1
      else if n < 62 then bit c (n - 25) else n = 62 \<and> f = 1)" .
  have "bit (rw_enc r x c f) n \<longleftrightarrow> n < 64 \<and> bit (r + 2 ^ 24 * x + 2 ^ 25 * c + 2 ^ 62 * f) n"
    unfolding rw_enc_def bit_of_nat_iff by simp
  then show ?thesis unfolding nat by auto
qed

lemma nat_eq_0_bits: "(n :: nat) = 0 \<longleftrightarrow> (\<forall>k. \<not> bit n k)"
  by (auto simp: bit_eq_iff)

lemma u64_eq_0_bits: "(w :: u64) = 0 \<longleftrightarrow> (\<forall>n. \<not> bit w n)"
  by (auto intro: bit_eqI)

lemma bit_rw_constants:
  "bit RW_VAL_EXCLUSIVE n \<longleftrightarrow> n = 24"
  "bit RW_FLAG_HAS_EXCLUSIVE_WAITER n \<longleftrightarrow> n = 62"
  "bit RW_LOCK_MASK n \<longleftrightarrow> n < 25"
  "bit RW_REF_COUNT_MASK n \<longleftrightarrow> 25 \<le> n \<and> n < 50"
  unfolding RW_VAL_EXCLUSIVE_def RW_FLAG_HAS_EXCLUSIVE_WAITER_def RW_LOCK_MASK_def
    RW_REF_COUNT_MASK_def bit_push_bit_iff bit_1_iff bit_and_iff bit_not_iff bit_mask_iff
  by auto

lemma rw_enc_lock_mask:
  assumes "r < 2 ^ 24" "x \<le> 1" "c < 2 ^ 25" "f \<le> 1"
  shows "rw_enc r x c f AND RW_LOCK_MASK = 0 \<longleftrightarrow> r = 0 \<and> x = 0"
proof -
  have "rw_enc r x c f AND RW_LOCK_MASK = 0 \<longleftrightarrow> (\<forall>n < 25. \<not> bit (rw_enc r x c f) n)"
    unfolding u64_eq_0_bits bit_and_iff bit_rw_constants by blast
  also have "\<dots> \<longleftrightarrow> (\<forall>n < 24. \<not> bit r n) \<and> x \<noteq> 1"
  proof (intro iffI conjI allI impI)
    assume *: "\<forall>n < 25. \<not> bit (rw_enc r x c f) n"
    show "\<not> bit r n" if "n < 24" for n
      using *[rule_format, of n] that by (simp add: bit_rw_enc [OF assms])
    show "x \<noteq> 1" using *[rule_format, of 24] by (simp add: bit_rw_enc [OF assms])
  qed (auto simp: bit_rw_enc [OF assms] split: if_splits)
  also have "(\<forall>n < 24. \<not> bit r n) \<longleftrightarrow> r = 0"
    unfolding nat_eq_0_bits using bit_bound [OF _ assms(1)] by blast
  finally show ?thesis using assms(2) by auto
qed

lemma rw_enc_shared_mask:
  assumes "r < 2 ^ 24" "x \<le> 1" "c < 2 ^ 25" "f \<le> 1"
  shows "rw_enc r x c f AND (RW_VAL_EXCLUSIVE OR RW_FLAG_HAS_EXCLUSIVE_WAITER) = 0
     \<longleftrightarrow> x = 0 \<and> f = 0"
proof -
  have "rw_enc r x c f AND (RW_VAL_EXCLUSIVE OR RW_FLAG_HAS_EXCLUSIVE_WAITER) = 0
      \<longleftrightarrow> \<not> bit (rw_enc r x c f) 24 \<and> \<not> bit (rw_enc r x c f) 62"
    unfolding u64_eq_0_bits bit_and_iff bit_or_iff bit_rw_constants by blast
  also have "\<dots> \<longleftrightarrow> x \<noteq> 1 \<and> f \<noteq> 1" by (simp add: bit_rw_enc [OF assms])
  finally show ?thesis using assms(2,4) by auto
qed

lemma rw_enc_ref_mask:
  assumes "r < 2 ^ 24" "x \<le> 1" "c < 2 ^ 25" "f \<le> 1"
  shows "RWLockCheckDestroyable (rw_enc r x c f) \<longleftrightarrow> c = 0"
proof -
  have "RWLockCheckDestroyable (rw_enc r x c f)
      \<longleftrightarrow> (\<forall>n. 25 \<le> n \<and> n < 50 \<longrightarrow> \<not> bit (rw_enc r x c f) n)"
    unfolding RWLockCheckDestroyable_def u64_eq_0_bits bit_and_iff bit_rw_constants by blast
  also have "\<dots> \<longleftrightarrow> (\<forall>k < 25. \<not> bit c k)"
  proof (intro iffI allI impI)
    fix k :: nat assume *: "\<forall>n. 25 \<le> n \<and> n < 50 \<longrightarrow> \<not> bit (rw_enc r x c f) n" and "k < 25"
    then show "\<not> bit c k" using * [rule_format, of "k + 25"] by (simp add: bit_rw_enc [OF assms])
  qed (auto simp: bit_rw_enc [OF assms])
  also have "\<dots> \<longleftrightarrow> c = 0"
    unfolding nat_eq_0_bits using bit_bound [OF _ assms(3)] by blast
  finally show ?thesis .
qed

text \<open>A round of \<^verbatim>\<open>RWLockAttemptLock\<close> on the encoding.\<close>

lemma rw_enc_take_exclusive:
  assumes "c < 2 ^ 25" "f \<le> 1"
  shows "(rw_enc 0 0 c f OR RW_VAL_EXCLUSIVE) AND NOT RW_FLAG_HAS_EXCLUSIVE_WAITER = rw_enc 0 1 c 0"
proof (rule bit_eqI)
  fix n assume "possible_bit TYPE(u64) n"
  have b: "bit (rw_enc 0 x c g) n \<longleftrightarrow> (if n < 24 then False else if n = 24 then x = 1
      else if n < 62 then bit c (n - 25) else n = 62 \<and> g = 1)" if "x \<le> 1" "g \<le> 1" for x g
    using bit_rw_enc [of 0 x c g n] that assms by simp
  show "bit ((rw_enc 0 0 c f OR RW_VAL_EXCLUSIVE) AND NOT RW_FLAG_HAS_EXCLUSIVE_WAITER) n
      = bit (rw_enc 0 1 c 0) n"
    using b [of 0 f] b [of 1 0] assms \<open>possible_bit TYPE(u64) n\<close>
    unfolding bit_and_iff bit_or_iff bit_not_iff bit_rw_constants by auto
qed

lemma rw_enc_set_waiter:
  assumes "r < 2 ^ 24" "x \<le> 1" "c < 2 ^ 25" "f \<le> 1"
  shows "rw_enc r x c f OR RW_FLAG_HAS_EXCLUSIVE_WAITER = rw_enc r x c 1"
proof (rule bit_eqI)
  fix n
  show "bit (rw_enc r x c f OR RW_FLAG_HAS_EXCLUSIVE_WAITER) n = bit (rw_enc r x c 1) n"
    using bit_rw_enc [OF assms, of n] bit_rw_enc [OF assms(1-3), of 1 n]
    unfolding bit_or_iff bit_rw_constants by auto
qed

lemma attempt_exclusive:
  assumes "r < 2 ^ 24" "x \<le> 1" "c < 2 ^ 25" "f \<le> 1"
  shows "attempt_state RW_EXCLUSIVE (rw_enc r x c f) =
     (if r = 0 \<and> x = 0 then (rw_enc 0 1 c 0, True) else (rw_enc r x c 1, False))"
  using rw_enc_lock_mask [OF assms] rw_enc_take_exclusive [OF assms(3,4)] rw_enc_set_waiter [OF assms]
  by (auto simp: attempt_state_def Let_def)

lemma attempt_shared:
  assumes "r < 2 ^ 24" "x \<le> 1" "c < 2 ^ 25" "f \<le> 1"
  shows "attempt_state RW_SHARED (rw_enc r x c f) =
     (if x = 0 \<and> f = 0 then (rw_enc (r + 1) x c f, True) else (rw_enc r x c f, False))"
  using rw_enc_shared_mask [OF assms]
  by (auto simp: attempt_state_def Let_def rw_enc_def RW_VAL_SHARED_def)

lemma rw_enc_arith:
  "rw_enc r x c f + RW_VAL_REF_COUNT = rw_enc r x (c + 1) f"
  "rw_enc r x (Suc c) f - RW_VAL_REF_COUNT = rw_enc r x c f"
  "rw_enc r (Suc x) c f - RW_VAL_EXCLUSIVE = rw_enc r x c f"
  "rw_enc (Suc r) x c f - RW_VAL_SHARED = rw_enc r x c f"
  by (simp_all add: rw_enc_def RW_VAL_REF_COUNT_def RW_VAL_EXCLUSIVE_def RW_VAL_SHARED_def
      algebra_simps)

lemma rw_enc_sub:
  "0 < c \<Longrightarrow> rw_enc r x c f - RW_VAL_REF_COUNT = rw_enc r x (c - 1) f"
  "0 < x \<Longrightarrow> rw_enc r x c f - RW_VAL_EXCLUSIVE = rw_enc r (x - 1) c f"
  "0 < r \<Longrightarrow> rw_enc r x c f - RW_VAL_SHARED = rw_enc (r - 1) x c f"
  using rw_enc_arith(2) [of r x "c - 1"] rw_enc_arith(3) [of r "x - 1"] rw_enc_arith(4) [of "r - 1"]
  by simp_all

section \<open>Many backends\<close>

text \<open>
  Between two atomic accesses a backend is outside the lock code, has raised the reference count and
  is trying to get a lock, or has given back its hold and still has to drop the reference.
\<close>

datatype 'l pc = Running | Acquiring 'l RWLockMode | Releasing 'l

record 'l proc =
  p_held :: "('l \<times> RWLockMode) list"
  p_pc :: "'l pc"

record 'l rwsys =
  lk :: "'l \<Rightarrow> u64"
  procs :: "nat \<Rightarrow> 'l proc"

inductive rw_step :: "nat \<Rightarrow> 'l rwsys \<Rightarrow> 'l rwsys \<Rightarrow> bool" for N where
  declare_lock:
    "i < N \<Longrightarrow> p = procs s i \<Longrightarrow> p_pc p = Running \<Longrightarrow> length (p_held p) < MAX_SIMUL_RWLOCKS \<Longrightarrow>
     rw_step N s \<lparr>lk = (lk s)(l := lk s l + RW_VAL_REF_COUNT),
                  procs = (procs s)(i := p\<lparr>p_held := p_held p @ [(l, RW_DECLARE)]\<rparr>)\<rparr>"
| undeclare_lock:
    "i < N \<Longrightarrow> p = procs s i \<Longrightarrow> p_pc p = Running \<Longrightarrow>
     last_index (\<lambda>h. l = fst h \<and> snd h = RW_DECLARE) (p_held p) = Some k \<Longrightarrow>
     rw_step N s \<lparr>lk = (lk s)(l := lk s l - RW_VAL_REF_COUNT),
                  procs = (procs s)(i := p\<lparr>p_held := remove_at k (p_held p)\<rparr>)\<rparr>"
| acquire_begin:
    "i < N \<Longrightarrow> p = procs s i \<Longrightarrow> p_pc p = Running \<Longrightarrow> length (p_held p) < MAX_SIMUL_RWLOCKS \<Longrightarrow>
     mode \<noteq> RW_DECLARE \<Longrightarrow>
     rw_step N s \<lparr>lk = (lk s)(l := lk s l + RW_VAL_REF_COUNT),
                  procs = (procs s)(i := p\<lparr>p_pc := Acquiring l mode\<rparr>)\<rparr>"
| acquire_gets:
    "i < N \<Longrightarrow> p = procs s i \<Longrightarrow> p_pc p = Acquiring l mode \<Longrightarrow>
     attempt_state mode (lk s l) = (state, True) \<Longrightarrow>
     rw_step N s \<lparr>lk = (lk s)(l := state),
                  procs = (procs s)(i := \<lparr>p_held = p_held p @ [(l, mode)], p_pc = Running\<rparr>)\<rparr>"
| acquire_waits:
    "i < N \<Longrightarrow> p = procs s i \<Longrightarrow> p_pc p = Acquiring l mode \<Longrightarrow>
     attempt_state mode (lk s l) = (state, False) \<Longrightarrow>
     rw_step N s \<lparr>lk = (lk s)(l := state), procs = procs s\<rparr>"
| release_begin:
    "i < N \<Longrightarrow> p = procs s i \<Longrightarrow> p_pc p = Running \<Longrightarrow>
     last_index (\<lambda>h. l = fst h) (p_held p) = Some k \<Longrightarrow> snd (p_held p ! k) \<noteq> RW_DECLARE \<Longrightarrow>
     rw_step N s \<lparr>lk = (lk s)(l := lk s l - mode_value (snd (p_held p ! k))),
                  procs = (procs s)(i := \<lparr>p_held = remove_at k (p_held p), p_pc = Releasing l\<rparr>)\<rparr>"
| release_end:
    "i < N \<Longrightarrow> p = procs s i \<Longrightarrow> p_pc p = Releasing l \<Longrightarrow>
     rw_step N s \<lparr>lk = (lk s)(l := lk s l - RW_VAL_REF_COUNT),
                  procs = (procs s)(i := p\<lparr>p_pc := Running\<rparr>)\<rparr>"

definition rw_init :: "'l rwsys" where
  "rw_init = \<lparr>lk = \<lambda>_. RWLockInitialize, procs = \<lambda>_. \<lparr>p_held = [], p_pc = Running\<rparr>\<rparr>"

inductive rw_reach :: "nat \<Rightarrow> 'l rwsys \<Rightarrow> bool" for N where
  rw_reach_init: "rw_reach N rw_init"
| rw_reach_step: "rw_reach N s \<Longrightarrow> rw_step N s s' \<Longrightarrow> rw_reach N s'"

text \<open>What one backend contributes to the word of lock \<open>l\<close>.\<close>

definition shared_of :: "'l \<Rightarrow> 'l proc \<Rightarrow> nat" where
  "shared_of l p = count (mset (p_held p)) (l, RW_SHARED)"

definition excl_of :: "'l \<Rightarrow> 'l proc \<Rightarrow> nat" where
  "excl_of l p = count (mset (p_held p)) (l, RW_EXCLUSIVE)"

definition busy_of :: "'l \<Rightarrow> 'l proc \<Rightarrow> nat" where
  "busy_of l p = (case p_pc p of Running \<Rightarrow> 0 | Acquiring k m \<Rightarrow> (if k = l then 1 else 0)
                  | Releasing k \<Rightarrow> (if k = l then 1 else 0))"

definition refs_of :: "'l \<Rightarrow> 'l proc \<Rightarrow> nat" where
  "refs_of l p = size (filter_mset (\<lambda>h. fst h = l) (mset (p_held p))) + busy_of l p"

definition tot :: "nat \<Rightarrow> ('l proc \<Rightarrow> nat) \<Rightarrow> 'l rwsys \<Rightarrow> nat" where
  "tot N f s = (\<Sum>i < N. f (procs s i))"

definition word_ok :: "nat \<Rightarrow> 'l rwsys \<Rightarrow> 'l \<Rightarrow> bool" where
  "word_ok N s l \<longleftrightarrow>
     (\<exists>f \<le> 1. lk s l = rw_enc (tot N (shared_of l) s) (tot N (excl_of l) s) (tot N (refs_of l) s) f)
     \<and> tot N (excl_of l) s \<le> 1 \<and> (tot N (excl_of l) s = 1 \<longrightarrow> tot N (shared_of l) s = 0)"

definition proc_ok :: "'l proc \<Rightarrow> bool" where
  "proc_ok p \<longleftrightarrow> (case p_pc p of Running \<Rightarrow> length (p_held p) \<le> MAX_SIMUL_RWLOCKS
     | Acquiring l mode \<Rightarrow> length (p_held p) < MAX_SIMUL_RWLOCKS \<and> mode \<noteq> RW_DECLARE
     | Releasing l \<Rightarrow> length (p_held p) < MAX_SIMUL_RWLOCKS)"

definition rw_inv :: "nat \<Rightarrow> 'l rwsys \<Rightarrow> bool" where
  "rw_inv N s \<longleftrightarrow> (\<forall>l. word_ok N s l) \<and> (\<forall>i < N. proc_ok (procs s i))"

lemma tot_update:
  assumes "i < N"
  shows "tot N f \<lparr>lk = w, procs = (procs s)(i := p)\<rparr> + f (procs s i) = tot N f s + f p"
proof -
  have "(\<Sum>j < N. f (((procs s)(i := p)) j)) = f p + (\<Sum>j \<in> {..<N} - {i}. f (procs s j))"
    using assms by (subst sum.remove [of _ i]) (auto intro: sum.cong)
  moreover have "(\<Sum>j < N. f (procs s j)) = f (procs s i) + (\<Sum>j \<in> {..<N} - {i}. f (procs s j))"
    using assms by (subst sum.remove [of _ i]) auto
  ultimately show ?thesis by (simp add: tot_def)
qed

lemma refs_of_le: "proc_ok p \<Longrightarrow> refs_of l p \<le> MAX_SIMUL_RWLOCKS"
proof -
  assume ok: "proc_ok p"
  have "size (filter_mset (\<lambda>h. fst h = l) (mset (p_held p))) \<le> length (p_held p)"
    by (metis size_filter_mset_lesseq size_mset)
  then show ?thesis using ok
    by (auto simp: refs_of_def busy_of_def proc_ok_def split: pc.splits)
qed

lemma shared_of_le_refs: "shared_of l p \<le> refs_of l p"
proof -
  have "count (mset (p_held p)) (l, RW_SHARED)
      = count (filter_mset (\<lambda>h. fst h = l) (mset (p_held p))) (l, RW_SHARED)" by simp
  also have "\<dots> \<le> size (filter_mset (\<lambda>h. fst h = l) (mset (p_held p)))" by (rule count_le_size)
  finally show ?thesis by (simp add: shared_of_def refs_of_def)
qed

lemma tot_bounds:
  assumes "\<forall>i < N. proc_ok (procs s i)" and "N * MAX_SIMUL_RWLOCKS < 2 ^ 24"
  shows "tot N (refs_of l) s < 2 ^ 24" "tot N (shared_of l) s \<le> tot N (refs_of l) s"
proof -
  have "tot N (refs_of l) s \<le> (\<Sum>i < N. MAX_SIMUL_RWLOCKS)"
    unfolding tot_def using assms(1) by (intro sum_mono) (auto simp: refs_of_le)
  then show "tot N (refs_of l) s < 2 ^ 24" using assms(2) by simp
  show "tot N (shared_of l) s \<le> tot N (refs_of l) s"
    unfolding tot_def by (intro sum_mono shared_of_le_refs)
qed

lemma tot_plus:
  "i < N \<Longrightarrow> f p = f (procs s i) + d \<Longrightarrow> tot N f \<lparr>lk = w, procs = (procs s)(i := p)\<rparr> = tot N f s + d"
  using tot_update [of i N f w s p] by simp

lemma tot_minus:
  "i < N \<Longrightarrow> f (procs s i) = f p + d \<Longrightarrow> tot N f s = tot N f \<lparr>lk = w, procs = (procs s)(i := p)\<rparr> + d"
  using tot_update [of i N f w s p] by simp

lemma tot_same:
  "i < N \<Longrightarrow> f p = f (procs s i) \<Longrightarrow> tot N f \<lparr>lk = w, procs = (procs s)(i := p)\<rparr> = tot N f s"
  using tot_update [of i N f w s p] by simp

text \<open>The word of a lock in a state that satisfies the invariant.\<close>

lemma rw_inv_word:
  assumes inv: "rw_inv N s" and N: "N * MAX_SIMUL_RWLOCKS < 2 ^ 24"
  obtains f where "f \<le> 1"
    "lk s l = rw_enc (tot N (shared_of l) s) (tot N (excl_of l) s) (tot N (refs_of l) s) f"
    "tot N (shared_of l) s < 2 ^ 24" "tot N (excl_of l) s \<le> 1" "tot N (refs_of l) s < 2 ^ 25"
    "tot N (excl_of l) s = 1 \<Longrightarrow> tot N (shared_of l) s = 0"
proof -
  have ok: "\<forall>i < N. proc_ok (procs s i)" and w: "word_ok N s l" using inv by (auto simp: rw_inv_def)
  note b = tot_bounds [OF ok N, of l]
  then show thesis using w that unfolding word_ok_def by force
qed

lemma tot_ge: "i < N \<Longrightarrow> f (procs s i) \<le> tot N f s"
  unfolding tot_def by (rule member_le_sum) simp_all

text \<open>
  The invariant is kept by a step of backend \<open>i\<close> on lock \<open>l\<close> if the backend's contributions to other
  locks stay, and the new word encodes the new contributions to this one.
\<close>

lemma rw_inv_change:
  fixes l :: 'l
  assumes inv: "rw_inv N s" and N: "N * MAX_SIMUL_RWLOCKS < 2 ^ 24" and i: "i < N"
    and ok: "proc_ok p"
    and others: "\<And>k. k \<noteq> l \<Longrightarrow> shared_of k p = shared_of k (procs s i)
        \<and> excl_of k p = excl_of k (procs s i) \<and> refs_of k p = refs_of k (procs s i)"
    and here: "\<And>R X C f. f \<le> 1 \<Longrightarrow> lk s l = rw_enc R X C f \<Longrightarrow> R < 2 ^ 24 \<Longrightarrow> X \<le> 1 \<Longrightarrow> C < 2 ^ 25 \<Longrightarrow>
        (X = 1 \<Longrightarrow> R = 0) \<Longrightarrow> shared_of l (procs s i) \<le> R \<Longrightarrow> excl_of l (procs s i) \<le> X \<Longrightarrow>
        refs_of l (procs s i) \<le> C \<Longrightarrow>
        \<exists>f' \<le> 1. w = rw_enc (R + shared_of l p - shared_of l (procs s i))
            (X + excl_of l p - excl_of l (procs s i)) (C + refs_of l p - refs_of l (procs s i)) f'
          \<and> X + excl_of l p - excl_of l (procs s i) \<le> 1
          \<and> (X + excl_of l p - excl_of l (procs s i) = 1 \<longrightarrow>
              R + shared_of l p - shared_of l (procs s i) = 0)"
  shows "rw_inv N \<lparr>lk = (lk s)(l := w), procs = (procs s)(i := p)\<rparr>"
proof -
  let ?s = "\<lparr>lk = (lk s)(l := w), procs = (procs s)(i := p)\<rparr>"
  have new: "tot N f ?s = tot N f s + f p - f (procs s i)" for f
    using tot_update [OF i, of f "(lk s)(l := w)" s p] by simp
  have "word_ok N ?s k" for k
  proof (cases "k = l")
    case False
    have "word_ok N s k" using inv by (simp add: rw_inv_def)
    then show ?thesis using others [OF False] False
      by (simp add: word_ok_def new)
  next
    case True
    obtain f where "f \<le> 1"
      "lk s l = rw_enc (tot N (shared_of l) s) (tot N (excl_of l) s) (tot N (refs_of l) s) f"
      "tot N (shared_of l) s < 2 ^ 24" "tot N (excl_of l) s \<le> 1" "tot N (refs_of l) s < 2 ^ 25"
      "tot N (excl_of l) s = 1 \<Longrightarrow> tot N (shared_of l) s = 0"
      using rw_inv_word [OF inv N] by metis
    from here [OF this tot_ge [OF i] tot_ge [OF i] tot_ge [OF i]]
    show ?thesis unfolding True word_ok_def new by auto
  qed
  then show ?thesis using inv ok by (simp add: rw_inv_def)
qed

lemma contributions_append:
  "shared_of k \<lparr>p_held = xs @ [(l, m)], p_pc = c\<rparr>
     = shared_of k \<lparr>p_held = xs, p_pc = c\<rparr> + (if k = l \<and> m = RW_SHARED then 1 else 0)"
  "excl_of k \<lparr>p_held = xs @ [(l, m)], p_pc = c\<rparr>
     = excl_of k \<lparr>p_held = xs, p_pc = c\<rparr> + (if k = l \<and> m = RW_EXCLUSIVE then 1 else 0)"
  "refs_of k \<lparr>p_held = xs @ [(l, m)], p_pc = c\<rparr>
     = refs_of k \<lparr>p_held = xs, p_pc = c\<rparr> + (if k = l then 1 else 0)"
  by (auto simp: shared_of_def excl_of_def refs_of_def busy_of_def)

lemma contributions_remove:
  assumes "j < length xs" "xs ! j = (l, m)"
  shows "shared_of k \<lparr>p_held = xs, p_pc = c\<rparr>
     = shared_of k \<lparr>p_held = remove_at j xs, p_pc = c\<rparr> + (if k = l \<and> m = RW_SHARED then 1 else 0)"
  "excl_of k \<lparr>p_held = xs, p_pc = c\<rparr>
     = excl_of k \<lparr>p_held = remove_at j xs, p_pc = c\<rparr> + (if k = l \<and> m = RW_EXCLUSIVE then 1 else 0)"
  "refs_of k \<lparr>p_held = xs, p_pc = c\<rparr>
     = refs_of k \<lparr>p_held = remove_at j xs, p_pc = c\<rparr> + (if k = l then 1 else 0)"
  using mset_remove_at [OF assms(1)] assms(2)
  by (auto simp: shared_of_def excl_of_def refs_of_def busy_of_def)

lemma contributions_pc:
  "shared_of k \<lparr>p_held = xs, p_pc = c\<rparr> = shared_of k \<lparr>p_held = xs, p_pc = Running\<rparr>"
  "excl_of k \<lparr>p_held = xs, p_pc = c\<rparr> = excl_of k \<lparr>p_held = xs, p_pc = Running\<rparr>"
  "refs_of k \<lparr>p_held = xs, p_pc = Acquiring l m\<rparr>
     = refs_of k \<lparr>p_held = xs, p_pc = Running\<rparr> + (if k = l then 1 else 0)"
  "refs_of k \<lparr>p_held = xs, p_pc = Releasing l\<rparr>
     = refs_of k \<lparr>p_held = xs, p_pc = Running\<rparr> + (if k = l then 1 else 0)"
  by (auto simp: shared_of_def excl_of_def refs_of_def busy_of_def)

lemma rw_inv_init: "rw_inv N rw_init"
  by (auto simp: rw_inv_def word_ok_def proc_ok_def tot_def rw_init_def shared_of_def excl_of_def
      refs_of_def busy_of_def RWLockInitialize_def rw_enc_def intro!: exI [of _ 0])

lemma rw_inv_proc: "rw_inv N s \<Longrightarrow> i < N \<Longrightarrow> proc_ok (procs s i)"
  by (simp add: rw_inv_def)

lemma rw_inv_step:
  assumes "rw_step N s s'" and inv: "rw_inv N s" and N: "N * MAX_SIMUL_RWLOCKS < 2 ^ 24"
  shows "rw_inv N s'"
  using assms(1)
proof cases
  case (declare_lock i p l)
  obtain xs where p: "procs s i = \<lparr>p_held = xs, p_pc = Running\<rparr>"
    using declare_lock by (cases "procs s i") auto
  then show ?thesis using declare_lock
    by (auto intro!: rw_inv_change [OF inv N]
        simp: proc_ok_def contributions_append rw_enc_arith)
next
  case (undeclare_lock i p l k)
  obtain xs where p: "procs s i = \<lparr>p_held = xs, p_pc = Running\<rparr>"
    using undeclare_lock by (cases "procs s i") auto
  have li: "last_index (\<lambda>h. l = fst h \<and> snd h = RW_DECLARE) xs = Some k"
    using undeclare_lock p by simp
  have k: "k < length xs" "xs ! k = (l, RW_DECLARE)"
    using last_index_Some(1,2) [OF li] by (auto simp: prod_eq_iff)
  have "rw_inv N \<lparr>lk = (lk s)(l := lk s l - RW_VAL_REF_COUNT),
      procs = (procs s)(i := \<lparr>p_held = remove_at k xs, p_pc = Running\<rparr>)\<rparr>"
  proof (rule rw_inv_change [OF inv N undeclare_lock(2)], goal_cases)
    case (3 R X C f)
    then show ?case
      by (intro exI [of _ f]) (simp add: p contributions_remove [OF k] rw_enc_sub)
  qed (use rw_inv_proc [OF inv undeclare_lock(2)] k in
      \<open>auto simp: p proc_ok_def contributions_remove [OF k]\<close>)
  then show ?thesis using undeclare_lock p by simp
next
  case (acquire_begin i p mode l)
  obtain xs where p: "procs s i = \<lparr>p_held = xs, p_pc = Running\<rparr>"
    using acquire_begin by (cases "procs s i") auto
  then show ?thesis using acquire_begin
    by (auto intro!: rw_inv_change [OF inv N]
        simp: proc_ok_def contributions_pc(3) contributions_pc(1,2) [of _ _ "Acquiring _ _"] rw_enc_arith)
next
  case (acquire_gets i p l mode state)
  obtain xs where p: "procs s i = \<lparr>p_held = xs, p_pc = Acquiring l mode\<rparr>"
    using acquire_gets by (cases "procs s i") auto
  have ok: "length xs < MAX_SIMUL_RWLOCKS" "mode \<noteq> RW_DECLARE"
    using rw_inv_proc [OF inv acquire_gets(2)] p by (simp_all add: proc_ok_def)
  note c = contributions_append contributions_pc(3) contributions_pc(1,2) [of _ _ "Acquiring _ _"]
  have "rw_inv N \<lparr>lk = (lk s)(l := state),
      procs = (procs s)(i := \<lparr>p_held = xs @ [(l, mode)], p_pc = Running\<rparr>)\<rparr>"
  proof (rule rw_inv_change [OF inv N acquire_gets(2)], goal_cases)
    case (3 R X C f)
    note at = attempt_exclusive [OF 3(3,4,5,1)] attempt_shared [OF 3(3,4,5,1)]
    show ?case
    proof (cases mode)
      case RW_EXCLUSIVE
      then have "R = 0" "X = 0" "state = rw_enc 0 1 C 0"
        using acquire_gets(5) at(1) 3(2) by (auto split: if_splits)
      then show ?thesis using RW_EXCLUSIVE by (intro exI [of _ 0]) (simp add: p c)
    next
      case RW_SHARED
      then have "X = 0" "f = 0" "state = rw_enc (R + 1) X C f"
        using acquire_gets(5) at(2) 3(2) by (auto split: if_splits)
      then show ?thesis using RW_SHARED 3(7,8) by (intro exI [of _ f]) (simp add: p c)
    qed (use ok in simp)
  qed (use ok in \<open>auto simp: p proc_ok_def c\<close>)
  then show ?thesis using acquire_gets p by simp
next
  case (acquire_waits i p l mode state)
  then obtain xs where p: "procs s i = \<lparr>p_held = xs, p_pc = Acquiring l mode\<rparr>"
    by (cases "procs s i") auto
  have ok: "proc_ok (procs s i)" "mode \<noteq> RW_DECLARE"
    using rw_inv_proc [OF inv acquire_waits(2)] p by (simp_all add: proc_ok_def)
  have "rw_inv N \<lparr>lk = (lk s)(l := state), procs = (procs s)(i := procs s i)\<rparr>"
  proof (rule rw_inv_change [OF inv N acquire_waits(2) ok(1)], goal_cases)
    case (2 R X C f)
    note at = attempt_exclusive [OF 2(3,4,5,1)] attempt_shared [OF 2(3,4,5,1)]
    have "state = rw_enc R X C 1 \<or> state = rw_enc R X C f"
      using acquire_waits(5) at 2(2) ok(2) by (cases mode) (auto split: if_splits)
    then show ?case using 2 by auto
  qed simp
  then show ?thesis using acquire_waits by simp
next
  case (release_begin i p l k)
  obtain xs where p: "procs s i = \<lparr>p_held = xs, p_pc = Running\<rparr>"
    using release_begin by (cases "procs s i") auto
  obtain m where k: "k < length xs" "xs ! k = (l, m)" and m: "m \<noteq> RW_DECLARE"
    using last_index_Some(1,2) [of "\<lambda>h. l = fst h" xs k] release_begin p by (cases "xs ! k") auto
  note c = contributions_remove [OF k] contributions_pc(4) contributions_pc(1,2) [of _ _ "Releasing _"]
  have "rw_inv N \<lparr>lk = (lk s)(l := lk s l - mode_value m),
      procs = (procs s)(i := \<lparr>p_held = remove_at k xs, p_pc = Releasing l\<rparr>)\<rparr>"
  proof (rule rw_inv_change [OF inv N release_begin(2)], goal_cases)
    case (3 R X C f)
    show ?case
    proof (cases m)
      case RW_EXCLUSIVE
      then show ?thesis using 3
        by (intro exI [of _ f]) (simp add: p c mode_value_def rw_enc_sub)
    next
      case RW_SHARED
      then show ?thesis using 3
        by (intro exI [of _ f]) (auto simp add: p c mode_value_def rw_enc_sub)
    qed (use m in simp)
  qed (use rw_inv_proc [OF inv release_begin(2)] k in \<open>auto simp: p proc_ok_def c\<close>)
  then show ?thesis using release_begin p k by simp
next
  case (release_end i p l)
  obtain xs where p: "procs s i = \<lparr>p_held = xs, p_pc = Releasing l\<rparr>"
    using release_end by (cases "procs s i") auto
  note c = contributions_pc(4) contributions_pc(1,2) [of _ _ "Releasing _"]
  have "rw_inv N \<lparr>lk = (lk s)(l := lk s l - RW_VAL_REF_COUNT),
      procs = (procs s)(i := \<lparr>p_held = xs, p_pc = Running\<rparr>)\<rparr>"
  proof (rule rw_inv_change [OF inv N release_end(2)], goal_cases)
    case (3 R X C f)
    then show ?case by (intro exI [of _ f]) (simp add: p c rw_enc_sub)
  qed (use rw_inv_proc [OF inv release_end(2)] in \<open>auto simp: p proc_ok_def c\<close>)
  then show ?thesis using release_end p by simp
qed

lemma rw_reach_inv: "rw_reach N s \<Longrightarrow> N * MAX_SIMUL_RWLOCKS < 2 ^ 24 \<Longrightarrow> rw_inv N s"
  by (induction rule: rw_reach.induct) (auto intro: rw_inv_init rw_inv_step)

lemma two_contributions:
  assumes "i < N" "j < N" "i \<noteq> j" shows "f (procs s i) + f (procs s j) \<le> tot N f s"
proof -
  have "f (procs s i) + f (procs s j) = (\<Sum>k \<in> {i, j}. f (procs s k))" using assms(3) by simp
  also have "\<dots> \<le> tot N f s" unfolding tot_def using assms by (intro sum_mono2) auto
  finally show ?thesis .
qed

lemma refs_of_zero:
  "refs_of l p = 0 \<longleftrightarrow> l \<notin> fst ` set (p_held p)
     \<and> (\<forall>m. p_pc p \<noteq> Acquiring l m) \<and> p_pc p \<noteq> Releasing l"
proof -
  have "size (filter_mset (\<lambda>h. fst h = l) (mset (p_held p))) = 0 \<longleftrightarrow> l \<notin> fst ` set (p_held p)"
    by (force simp: filter_mset_eq_mempty_iff image_iff)
  moreover have "busy_of l p = 0 \<longleftrightarrow> (\<forall>m. p_pc p \<noteq> Acquiring l m) \<and> p_pc p \<noteq> Releasing l"
    by (auto simp: busy_of_def split: pc.splits)
  ultimately show ?thesis by (simp add: refs_of_def)
qed

section \<open>Properties\<close>



text \<open>
  in every reachable state an attempt for exclusive mode succeeds exactly when nobody holds the
  lock in shared or exclusive mode, and otherwise leaves the waiting flag set; while that flag is set
  every attempt for shared mode fails, so new readers cannot overtake a waiting writer.
\<close>

theorem attempt_respects_holders_and_waiter:
  assumes reach: "rw_reach N s" and N: "N * MAX_SIMUL_RWLOCKS < 2 ^ 24"
  shows "(snd (attempt_state RW_EXCLUSIVE (lk s l)) \<longleftrightarrow>
           (\<forall>i < N. (l, RW_SHARED) \<notin> set (p_held (procs s i))
                   \<and> (l, RW_EXCLUSIVE) \<notin> set (p_held (procs s i))))
     \<and> (\<not> snd (attempt_state RW_EXCLUSIVE (lk s l)) \<longrightarrow>
          bit (fst (attempt_state RW_EXCLUSIVE (lk s l))) 62
          \<and> \<not> snd (attempt_state RW_SHARED (fst (attempt_state RW_EXCLUSIVE (lk s l)))))
     \<and> (snd (attempt_state RW_SHARED (lk s l)) \<longleftrightarrow>
           \<not> bit (lk s l) 62 \<and> (\<forall>i < N. (l, RW_EXCLUSIVE) \<notin> set (p_held (procs s i))))"
proof -
  define R X C where RXC: "R = tot N (shared_of l) s" "X = tot N (excl_of l) s"
    "C = tot N (refs_of l) s"
  obtain f where f: "f \<le> 1" "lk s l = rw_enc R X C f" "R < 2 ^ 24" "X \<le> 1" "C < 2 ^ 25"
    using rw_inv_word [OF rw_reach_inv [OF reach N] N] RXC by metis
  have R: "R = 0 \<longleftrightarrow> (\<forall>i < N. (l, RW_SHARED) \<notin> set (p_held (procs s i)))"
    and X: "X = 0 \<longleftrightarrow> (\<forall>i < N. (l, RW_EXCLUSIVE) \<notin> set (p_held (procs s i)))"
    by (auto simp: RXC tot_def shared_of_def excl_of_def)
  have at: "attempt_state RW_EXCLUSIVE (lk s l) =
      (if R = 0 \<and> X = 0 then (rw_enc 0 1 C 0, True) else (rw_enc R X C 1, False))"
    "attempt_state RW_SHARED (lk s l) =
      (if X = 0 \<and> f = 0 then (rw_enc (R + 1) X C f, True) else (rw_enc R X C f, False))"
    "attempt_state RW_SHARED (rw_enc R X C 1) = (rw_enc R X C 1, False)"
    using f attempt_exclusive [OF f(3,4,5,1)] attempt_shared [OF f(3,4,5,1)]
      attempt_shared [OF f(3,4,5), of 1] by simp_all
  have b: "bit (rw_enc R X C g) 62 \<longleftrightarrow> g = 1" if "g \<le> 1" for g
    using bit_rw_enc [OF f(3,4,5) that] by simp
  show ?thesis unfolding at using f(1,2) b [of 1] b [of f] R X at(3) by auto
qed

section \<open>Cleaning up after an error\<close>

definition entry_value :: "RWLockMode \<Rightarrow> u64" where
  "entry_value mode = (if mode = RW_DECLARE then RW_VAL_REF_COUNT else mode_value mode + RW_VAL_REF_COUNT)"

definition held_value :: "'l \<Rightarrow> ('l \<times> RWLockMode) list \<Rightarrow> u64" where
  "held_value l hs = sum_list (map (\<lambda>h. if fst h = l then entry_value (snd h) else 0) hs)"

declare RWLockReleaseAll.simps [simp del]

lemma ReleaseAll_snoc:
  assumes "held_rwlocks s = hs @ [h]"
  shows "RWLockReleaseAll keep s = RWLockReleaseAll keep (s\<lparr>held_rwlocks := hs,
     rw_state := (rw_state s)(fst h := rw_state s (fst h) - entry_value (snd h)),
     InterruptHoldoffCount := InterruptHoldoffCount s - (if keep then 0 else 1)\<rparr>)"
  using assms
  by (subst RWLockReleaseAll.simps)
    (simp add: RWLockUndeclare_def RWLockRelease_def last_index_last entry_value_def Let_def
      algebra_simps)

lemma ReleaseAll_all:
  "\<exists>s'. RWLockReleaseAll keep s = Inr s' \<and> held_rwlocks s' = []
     \<and> (\<forall>l. rw_state s' l = rw_state s l - held_value l (held_rwlocks s))
     \<and> InterruptHoldoffCount s' =
         InterruptHoldoffCount s - (if keep then 0 else int (length (held_rwlocks s)))"
proof (induction "held_rwlocks s" arbitrary: s rule: rev_induct)
  case Nil
  then show ?case by (subst RWLockReleaseAll.simps) (simp add: held_value_def)
next
  case (snoc h hs)
  let ?s = "s\<lparr>held_rwlocks := hs,
     rw_state := (rw_state s)(fst h := rw_state s (fst h) - entry_value (snd h)),
     InterruptHoldoffCount := InterruptHoldoffCount s - (if keep then 0 else 1)\<rparr>"
  from snoc(1) [of ?s] obtain s' where s': "RWLockReleaseAll keep ?s = Inr s'" "held_rwlocks s' = []"
    "\<forall>l. rw_state s' l = rw_state ?s l - held_value l hs"
    "InterruptHoldoffCount s' = InterruptHoldoffCount ?s - (if keep then 0 else int (length hs))"
    by auto
  have "RWLockReleaseAll keep s = Inr s'" using ReleaseAll_snoc [of s hs h keep] snoc(2) s'(1) by simp
  moreover have "rw_state s' l = rw_state s l - held_value l (held_rwlocks s)" for l
    using s'(3) [rule_format, of l] by (simp add: held_value_def flip: snoc(2))
  moreover have "InterruptHoldoffCount s' =
      InterruptHoldoffCount s - (if keep then 0 else int (length (held_rwlocks s)))"
    using s'(4) by (simp flip: snoc(2))
  ultimately show ?case using s'(2) by blast
qed

text \<open>
  C30: \<^verbatim>\<open>RWLockReleaseAll\<close> always terminates without error, leaves nothing held, takes exactly the
  backend's own holds, declarations and references out of every lock word, and changes the interrupt
  holdoff count by one per entry, or not at all when asked to keep it.
\<close>

theorem release_all_releases_everything:
  "\<exists>s'. RWLockReleaseAll keep s = Inr s' \<and> held_rwlocks s' = []
     \<and> (\<forall>l. rw_state s' l = rw_state s l - held_value l (held_rwlocks s))
     \<and> InterruptHoldoffCount s' =
         InterruptHoldoffCount s - (if keep then 0 else int (length (held_rwlocks s)))"
  by (rule ReleaseAll_all)

section \<open>A concrete run\<close>

text \<open>Backend 0 of two takes lock 0 exclusively.\<close>

lemma writer_reachable:
  "\<exists>s. rw_reach 2 s \<and> p_held (procs s 0) = [(0 :: nat, RW_EXCLUSIVE)]
     \<and> p_pc (procs s 0) = Running \<and> lk s 0 = rw_enc 0 1 1 0"
proof -
  let ?p = "\<lparr>p_held = [], p_pc = Running\<rparr> :: nat proc"
  let ?s1 = "\<lparr>lk = (\<lambda>_. 0)(0 := RW_VAL_REF_COUNT),
      procs = (\<lambda>_. ?p)(0 := ?p\<lparr>p_pc := Acquiring 0 RW_EXCLUSIVE\<rparr>)\<rparr> :: nat rwsys"
  let ?s2 = "\<lparr>lk = (lk ?s1)(0 := rw_enc 0 1 1 0),
      procs = (procs ?s1)(0 := \<lparr>p_held = [(0, RW_EXCLUSIVE)], p_pc = Running\<rparr>)\<rparr> :: nat rwsys"
  have "rw_step 2 rw_init ?s1"
    using acquire_begin [of 0 2 ?p rw_init RW_EXCLUSIVE 0]
    by (simp add: rw_init_def RWLockInitialize_def MAX_SIMUL_RWLOCKS_def)
  with rw_reach_init have "rw_reach 2 ?s1" by (rule rw_reach_step)
  moreover have "attempt_state RW_EXCLUSIVE RW_VAL_REF_COUNT = (rw_enc 0 1 1 0, True)"
    using attempt_exclusive [of 0 0 1 0] rw_enc_arith(1) [of 0 0 0 0] by (simp add: rw_enc_def)
  then have "rw_step 2 ?s1 ?s2"
    using acquire_gets [of 0 2 "?p\<lparr>p_pc := Acquiring 0 RW_EXCLUSIVE\<rparr>" ?s1 0 RW_EXCLUSIVE "rw_enc 0 1 1 0"]
    by simp
  ultimately have "rw_reach 2 ?s2" by (rule rw_reach_step)
  then show ?thesis by (intro exI [of _ ?s2]) simp
qed

lemma two_backends_fit: "2 * MAX_SIMUL_RWLOCKS < 2 ^ 24"
  by (simp add: MAX_SIMUL_RWLOCKS_def)



theorem attempt_respects_holders_and_waiter_witness:
  "\<exists>s :: nat rwsys. rw_reach 2 s \<and> \<not> snd (attempt_state RW_EXCLUSIVE (lk s 0))
     \<and> \<not> snd (attempt_state RW_SHARED (lk s 0))"
proof -
  obtain s :: "nat rwsys" where s: "rw_reach 2 s" "p_held (procs s 0) = [(0, RW_EXCLUSIVE)]"
    using writer_reachable by blast
  then have "\<not> (\<forall>i < 2. (0, RW_EXCLUSIVE) \<notin> set (p_held (procs s i)))" by force
  then have "\<not> snd (attempt_state RW_EXCLUSIVE (lk s 0)) \<and> \<not> snd (attempt_state RW_SHARED (lk s 0))"
    using attempt_respects_holders_and_waiter [OF s(1) two_backends_fit, of 0] by blast
  with s(1) show ?thesis by blast
qed

section \<open>One backend alone\<close>

lemma acquire_loop_busy:
  assumes "acquire_loop mode st = Some st'" shows "snd (attempt_state mode st) \<or> st \<noteq> fst (attempt_state mode st)"
proof -
  have "snd (attempt_state mode st) \<or> st \<noteq> fst (attempt_state mode st)" if "acquire_loop mode st = Some y"
    for mode st y
    using that
  proof (rule acquire_loop.raw_induct [rotated,
        where P = "\<lambda>mode st y. snd (attempt_state mode st) \<or> st \<noteq> fst (attempt_state mode st)"])
    fix loop mode st y
    assume IH: "\<And>m st y. loop m st = Some y \<Longrightarrow> snd (attempt_state m st) \<or> st \<noteq> fst (attempt_state m st)"
      and step: "(if snd (attempt_state mode st) then Some (fst (attempt_state mode st))
        else loop mode (fst (attempt_state mode st))) = Some y"
    show "snd (attempt_state mode st) \<or> st \<noteq> fst (attempt_state mode st)"
      using IH [of mode st y] step by (auto split: if_splits)
  qed
  then show ?thesis using assms by blast
qed

lemma acquire_alone_busy:
  assumes "r < 2 ^ 24" "x \<le> 1" "c < 2 ^ 25" "f \<le> 1" "r \<noteq> 0 \<or> x \<noteq> 0"
  shows "acquire_loop RW_EXCLUSIVE (rw_enc r x c f) = None"
proof -
  have "acquire_loop RW_EXCLUSIVE (rw_enc r x c 1) = None"
    using acquire_loop_busy [of RW_EXCLUSIVE "rw_enc r x c 1"] attempt_exclusive [OF assms(1-3), of 1] assms(5)
    by (cases "acquire_loop RW_EXCLUSIVE (rw_enc r x c 1)") auto
  then show ?thesis
    using attempt_exclusive [OF assms(1-4)] assms(5) by (subst acquire_loop.simps) auto
qed

text \<open>
  a backend that acquires a free lock in either mode and releases it again finds the lock word,
  its held array and its interrupt holdoff count as they were, except that taking a lock exclusively
  clears the waiting flag; a backend that asks for exclusive mode while the lock is held and nobody
  releases it spins for ever.
\<close>

theorem acquire_release_alone:
  assumes word: "rw_state s l = rw_enc r x c f" and bounds: "r < 2 ^ 24" "x \<le> 1" "c + 1 < 2 ^ 25" "f \<le> 1"
    and room: "length (held_rwlocks s) < MAX_SIMUL_RWLOCKS"
  shows "(r = 0 \<and> x = 0 \<longrightarrow> (\<exists>s'. RWLockAcquire s l RW_EXCLUSIVE = Returns (Inr s')
            \<and> RWLockRelease s' l = Inr (s\<lparr>rw_state := (rw_state s)(l := rw_enc r x c 0)\<rparr>)))
     \<and> (x = 0 \<and> f = 0 \<longrightarrow> (\<exists>s'. RWLockAcquire s l RW_SHARED = Returns (Inr s')
            \<and> RWLockRelease s' l = Inr s))
     \<and> (r \<noteq> 0 \<or> x \<noteq> 0 \<longrightarrow> RWLockAcquire s l RW_EXCLUSIVE = Loops)"
proof (intro conjI impI)
  have c1: "c + 1 < 2 ^ 25" using bounds(3) .
  have ref: "rw_state s l + RW_VAL_REF_COUNT = rw_enc r x (c + 1) f" using word rw_enc_arith(1) by simp
  have fits: "\<not> MAX_SIMUL_RWLOCKS \<le> length (held_rwlocks s)" using room by simp
  note li = last_index_last [of "\<lambda>h. l = fst h" "(l, _)"]
  {
    assume rx: "r = 0 \<and> x = 0"
    have "acquire_loop RW_EXCLUSIVE (rw_enc r x (c + 1) f) = Some (rw_enc 0 1 (c + 1) 0)"
      using attempt_exclusive [OF bounds(1,2) c1 bounds(4)] rx by (subst acquire_loop.simps) simp
    then show "\<exists>s'. RWLockAcquire s l RW_EXCLUSIVE = Returns (Inr s')
        \<and> RWLockRelease s' l = Inr (s\<lparr>rw_state := (rw_state s)(l := rw_enc r x c 0)\<rparr>)"
      using fits rx by (simp add: RWLockAcquire_def ref RWLockRelease_def li mode_value_def rw_enc_sub)
  next
    assume xf: "x = 0 \<and> f = 0"
    have "acquire_loop RW_SHARED (rw_enc r x (c + 1) f) = Some (rw_enc (r + 1) x (c + 1) f)"
      using attempt_shared [OF bounds(1,2) c1 bounds(4)] xf by (subst acquire_loop.simps) simp
    then show "\<exists>s'. RWLockAcquire s l RW_SHARED = Returns (Inr s') \<and> RWLockRelease s' l = Inr s"
      using fits by (simp add: RWLockAcquire_def ref RWLockRelease_def li mode_value_def rw_enc_sub
          flip: word)
  next
    assume "r \<noteq> 0 \<or> x \<noteq> 0"
    then show "RWLockAcquire s l RW_EXCLUSIVE = Loops"
      using acquire_alone_busy [OF bounds(1,2) c1 bounds(4)] fits by (simp add: RWLockAcquire_def ref)
  }
qed

definition fresh_backend :: "nat backend" where
  "fresh_backend = \<lparr>rw_state = \<lambda>_. rw_enc 0 0 0 0, held_rwlocks = [], InterruptHoldoffCount = 0\<rparr>"

theorem acquire_release_alone_witness:
  "\<exists>s'. RWLockAcquire fresh_backend 5 RW_SHARED = Returns (Inr s')
     \<and> RWLockRelease s' 5 = Inr fresh_backend"
  using acquire_release_alone [of fresh_backend 5 0 0 0 0]
  by (simp add: fresh_backend_def MAX_SIMUL_RWLOCKS_def)

end
