(* ===== verification/Dir_Path_Hash.thy ===== *)
theory Dir_Path_Hash
  imports RW_Lock Heap_Table
begin

text \<open>
  \<^verbatim>\<open>cuckoo/dir_path_shmem/dir_path_hash.c\<close> and \<^verbatim>\<open>cuckoo/metadb/directory_table.c\<close>: the directory table
  (parent inode and name to inode) behind a partitioned hash table in shared memory that caches its
  rows, negative answers included, carries one reader/writer lock per entry, and is kept small by
  evicting unreferenced entries. Changes of the table reach the cache when the transaction commits.

  The model runs the operations of one backend one after another. The lock word of an entry is kept
  in the backend's view of the lock words under the entry's key; a word may hold the share of other
  backends, and waiting for them for ever is \<^const>\<open>Loops\<close>. Parameters (record \<open>dir_env\<close>) stand for the
  code of PostgreSQL and the C library: the byte hash, the shared-memory allocation that decides
  whether a new entry fits, the order in which \<^verbatim>\<open>hash_seq_search\<close> enumerates a partition, the random
  starting bucket of a scan, and what a recycled entry holds before it is written.
\<close>

section \<open>Data\<close>

type_synonym DirPathHashKey = "u64 \<times> string"

record DirPathHashItem =
  item_key :: DirPathHashKey
  item_inodeId :: u64
  usageCount :: int

datatype DirPathLockMode = DIR_LOCK_EXCLUSIVE | DIR_LOCK_SHARED | DIR_LOCK_NONE

text \<open>The arrays \<^verbatim>\<open>DirPathHashToCommitAction\<close> and \<^verbatim>\<open>DirPathHashToCommitActionInfo\<close> up to their size.\<close>

datatype commit_action = ActionA DirPathHashKey | ActionU DirPathHashKey u64

record dir_state =
  PathDirHash :: "nat \<Rightarrow> DirPathHashItem list"
  PathDirHashEntryCount :: "nat \<Rightarrow> u32"
  dir_locks :: "DirPathHashKey backend"
  DirPathHashToCommit :: "commit_action list"
  DirectoryHashTableLastAcquiredLock :: "DirPathHashKey option"
  rand_draws :: nat
  directory_table :: "(DirPathHashKey, u64) heap"

record dir_env =
  hash_any_extended :: "string \<Rightarrow> u64 \<Rightarrow> u64"
  enter_fails :: "DirPathHashItem list \<Rightarrow> bool"
  hash_seq :: "DirPathHashKey list \<Rightarrow> DirPathHashKey list"
  rand_skip :: "nat \<Rightarrow> nat"
  recycled :: "dir_state \<Rightarrow> u64 \<times> int"

definition MAX_DIRECTORY_PATH_HASH_SIZE :: nat where "MAX_DIRECTORY_PATH_HASH_SIZE = 256"
definition MAX_DIRECTORY_HASH_TO_COMMIT_ACTION_LENGTH :: nat where
  "MAX_DIRECTORY_HASH_TO_COMMIT_ACTION_LENGTH = 4096"
definition DIR_HASH_TABLE_PATH_NOT_EXIST :: u64 where "DIR_HASH_TABLE_PATH_NOT_EXIST = - 1"
definition DIR_HASH_TABLE_PATH_UNKNOWN :: u64 where "DIR_HASH_TABLE_PATH_UNKNOWN = - 2"
definition DIR_PATH_HASH_PARTITION_SIZE :: nat where "DIR_PATH_HASH_PARTITION_SIZE = 128"
definition MAX_DIRECTORY_PATH_HASH_CAPACITY :: u32 where "MAX_DIRECTORY_PATH_HASH_CAPACITY = 2048"
definition MAX_BUCKET_SUM_LRU_CLAER_BEGIN :: u32 where
  "MAX_BUCKET_SUM_LRU_CLAER_BEGIN = MAX_DIRECTORY_PATH_HASH_CAPACITY div 4 * 3"

section \<open>The directory table\<close>

definition SearchDirectoryTableInfo :: "(DirPathHashKey, u64) heap \<Rightarrow> DirPathHashKey \<Rightarrow> u64" where
  "SearchDirectoryTableInfo table key =
     (case heap_fetch table key of None \<Rightarrow> - 1 | Some inodeId \<Rightarrow> inodeId)"

definition InsertIntoDirectoryTable :: "DirPathHashKey \<Rightarrow> u64 \<Rightarrow> (dir_state, unit) op" where
  "InsertIntoDirectoryTable key inodeId s =
     (case heap_insert key inodeId (directory_table s) of (r, t) \<Rightarrow> (r, s\<lparr>directory_table := t\<rparr>))"

definition DeleteFromDirectoryTable :: "DirPathHashKey \<Rightarrow> (dir_state, unit) op" where
  "DeleteFromDirectoryTable key s =
     (case heap_fetch (directory_table s) key of
        None \<Rightarrow> (Inl ARGUMENT_ERROR, s)
      | Some inodeId \<Rightarrow>
          (case heap_delete key (directory_table s) of (r, t) \<Rightarrow> (r, s\<lparr>directory_table := t\<rparr>)))"

section \<open>Keys and partitions\<close>

definition dir_path_hash :: "dir_env \<Rightarrow> DirPathHashKey \<Rightarrow> u32" where
  "dir_path_hash E key = ucast (hash_any_extended E (snd key) (fst key))"

definition partition_index :: "dir_env \<Rightarrow> DirPathHashKey \<Rightarrow> nat" where
  "partition_index E key = unat (dir_path_hash E key) mod DIR_PATH_HASH_PARTITION_SIZE"

text \<open>\<^verbatim>\<open>strcmp\<close> of the C library: the order of the bytes read as unsigned.\<close>

fun strcmp :: "string \<Rightarrow> string \<Rightarrow> int" where
  "strcmp [] [] = 0"
| "strcmp [] (b # bs) = - 1"
| "strcmp (a # as) [] = 1"
| "strcmp (a # as) (b # bs) =
     (if a = b then strcmp as bs
      else if (of_char a :: nat) < of_char b then - 1 else 1)"

definition dir_path_compare :: "DirPathHashKey \<Rightarrow> DirPathHashKey \<Rightarrow> int" where
  "dir_path_compare d1 d2 =
     (if fst d1 > fst d2 then 1
      else if fst d1 < fst d2 then - 1
      else strcmp (snd d1) (snd d2))"

text \<open>\<^verbatim>\<open>strcpy\<close> of a name into the fixed array of a key.\<close>

definition key_copy :: "u64 \<Rightarrow> string \<Rightarrow> ('s, DirPathHashKey) exec" where
  "key_copy parentId name s =
     (if length name < MAX_DIRECTORY_PATH_HASH_SIZE then Returns (Inr (parentId, name), s) else Faults)"

text \<open>
  \<^verbatim>\<open>hash_search_with_hash_value\<close> with \<^verbatim>\<open>HASH_FIND\<close>, and writing through the pointer it returns. The
  table compares keys with \<open>dir_path_compare\<close>, which is equality.
\<close>

definition find_item :: "DirPathHashKey \<Rightarrow> DirPathHashItem list \<Rightarrow> DirPathHashItem option" where
  "find_item key items = find (\<lambda>item. dir_path_compare (item_key item) key = 0) items"

definition set_item ::
    "DirPathHashKey \<Rightarrow> (DirPathHashItem \<Rightarrow> DirPathHashItem) \<Rightarrow> DirPathHashItem list \<Rightarrow> DirPathHashItem list" where
  "set_item key f items = map (\<lambda>item. if item_key item = key then f item else item) items"

definition remove_item :: "DirPathHashKey \<Rightarrow> DirPathHashItem list \<Rightarrow> DirPathHashItem list" where
  "remove_item key items = filter (\<lambda>item. item_key item \<noteq> key) items"

definition set_partition :: "nat \<Rightarrow> DirPathHashItem list \<Rightarrow> dir_state \<Rightarrow> dir_state" where
  "set_partition p items s = s\<lparr>PathDirHash := (PathDirHash s)(p := items)\<rparr>"

definition hash_find :: "dir_env \<Rightarrow> DirPathHashKey \<Rightarrow> dir_state \<Rightarrow> DirPathHashItem option" where
  "hash_find E key s = find_item key (PathDirHash s (partition_index E key))"

definition write_item ::
    "dir_env \<Rightarrow> DirPathHashKey \<Rightarrow> (DirPathHashItem \<Rightarrow> DirPathHashItem) \<Rightarrow> dir_state \<Rightarrow> dir_state" where
  "write_item E key f s =
     (let p = partition_index E key in set_partition p (set_item key f (PathDirHash s p)) s)"

definition set_lock_word :: "DirPathHashKey \<Rightarrow> u64 \<Rightarrow> dir_state \<Rightarrow> dir_state" where
  "set_lock_word key w s =
     s\<lparr>dir_locks := (dir_locks s)\<lparr>rw_state := (rw_state (dir_locks s))(key := w)\<rparr>\<rparr>"

definition entry_destroyable :: "dir_state \<Rightarrow> DirPathHashKey \<Rightarrow> bool" where
  "entry_destroyable s key = RWLockCheckDestroyable (rw_state (dir_locks s) key)"

section \<open>Actions remembered for the end of the transaction\<close>

definition DirPathHashToCommitAddEntry :: "DirPathHashKey \<Rightarrow> (dir_state, unit) op" where
  "DirPathHashToCommitAddEntry key s =
     (if length (DirPathHashToCommit s) \<ge> MAX_DIRECTORY_HASH_TO_COMMIT_ACTION_LENGTH
      then (Inl PROGRAM_ERROR, s)
      else (Inr (), s\<lparr>DirPathHashToCommit := DirPathHashToCommit s @ [ActionA key]\<rparr>))"

definition DirPathHashToCommitUpdateEntry :: "DirPathHashKey \<Rightarrow> u64 \<Rightarrow> (dir_state, unit) op" where
  "DirPathHashToCommitUpdateEntry key inodeId s =
     (if length (DirPathHashToCommit s) \<ge> MAX_DIRECTORY_HASH_TO_COMMIT_ACTION_LENGTH
      then (Inl PROGRAM_ERROR, s)
      else (Inr (), s\<lparr>DirPathHashToCommit := DirPathHashToCommit s @ [ActionU key inodeId]\<rparr>))"

definition DirPathHashToCommitClear :: "dir_state \<Rightarrow> dir_state" where
  "DirPathHashToCommitClear s = s\<lparr>DirPathHashToCommit := []\<rparr>"

section \<open>Eviction\<close>

text \<open>
  \<^verbatim>\<open>FindNextItem\<close> over the entries still to be visited: the entry it stops at, the number of
  unreferenced entries it met, and the partition with their usage counts lowered.
\<close>

primrec FindNextItem ::
    "(DirPathHashKey \<Rightarrow> bool) \<Rightarrow> DirPathHashKey list \<Rightarrow> DirPathHashItem list
     \<Rightarrow> DirPathHashKey option \<times> nat \<times> DirPathHashItem list" where
  "FindNextItem destroyable [] items = (None, 0, items)"
| "FindNextItem destroyable (key # keys) items =
     (if \<not> destroyable key then FindNextItem destroyable keys items
      else
        let items1 = set_item key (\<lambda>item. item\<lparr>usageCount := usageCount item - 1\<rparr>) items in
        if (case find_item key items1 of None \<Rightarrow> True | Some item \<Rightarrow> usageCount item \<le> 0)
        then (Some key, 1, items1)
        else (case FindNextItem destroyable keys items1 of (entry, n, items2) \<Rightarrow> (entry, Suc n, items2)))"

text \<open>The loop that rescans the whole partition until an entry is found or none is unreferenced.\<close>

partial_function (option) rescan_loop ::
    "(DirPathHashKey \<Rightarrow> bool) \<Rightarrow> DirPathHashKey list \<Rightarrow> DirPathHashItem list
     \<Rightarrow> (DirPathHashKey option \<times> DirPathHashItem list) option" where
  "rescan_loop destroyable keys items =
     (case FindNextItem destroyable keys items of
        (Some key, destroyableCnt, items1) \<Rightarrow> Some (Some key, items1)
      | (None, destroyableCnt, items1) \<Rightarrow>
          if destroyableCnt = 0 then Some (None, items1) else rescan_loop destroyable keys items1)"

definition find_victim ::
    "dir_env \<Rightarrow> nat \<Rightarrow> dir_state \<Rightarrow> (DirPathHashKey option \<times> dir_state) option" where
  "find_victim E p s =
     (let keys = hash_seq E (map item_key (PathDirHash s p)) in
      case FindNextItem (entry_destroyable s) (drop (rand_skip E (rand_draws s)) keys) (PathDirHash s p) of
        (first, n, items) \<Rightarrow>
          (case (if first = None then rescan_loop (entry_destroyable s) keys items else Some (first, items)) of
             None \<Rightarrow> None
           | Some (entry, items1) \<Rightarrow>
               Some (entry, set_partition p items1 (s\<lparr>rand_draws := Suc (rand_draws s)\<rparr>))))"

partial_function (option) eliminate_loop :: "dir_env \<Rightarrow> nat \<Rightarrow> dir_state \<Rightarrow> (bool \<times> dir_state) option" where
  "eliminate_loop E p s =
     (case find_victim E p s of
        None \<Rightarrow> None
      | Some (None, s1) \<Rightarrow> Some (False, s1)
      | Some (Some target, s1) \<Rightarrow>
          if find_item target (PathDirHash s1 p) = None \<or> \<not> entry_destroyable s1 target
          then eliminate_loop E p s1
          else Some (True, set_partition p (remove_item target (PathDirHash s1 p)) s1))"

definition EliminateDirPathHashByLRU :: "dir_env \<Rightarrow> nat \<Rightarrow> dir_state \<Rightarrow> (bool \<times> dir_state) option" where
  "EliminateDirPathHashByLRU E p s =
     (if PathDirHashEntryCount s p \<le> MAX_BUCKET_SUM_LRU_CLAER_BEGIN div of_nat DIR_PATH_HASH_PARTITION_SIZE
      then Some (False, s)
      else (case eliminate_loop E p s of
              None \<Rightarrow> None
            | Some (False, s1) \<Rightarrow> Some (False, s1)
            | Some (True, s1) \<Rightarrow>
                Some (True, s1\<lparr>PathDirHashEntryCount :=
                  (PathDirHashEntryCount s1)(p := PathDirHashEntryCount s1 p - 1)\<rparr>)))"

section \<open>Looking up, inserting and deleting\<close>

text \<open>A new entry: counted, its lock initialised, not used yet.\<close>

definition enter_item :: "dir_env \<Rightarrow> DirPathHashKey \<Rightarrow> u64 \<Rightarrow> dir_state \<Rightarrow> dir_state" where
  "enter_item E key inodeId s =
     (let p = partition_index E key;
          s1 = set_partition p (PathDirHash s p @
                 [\<lparr>item_key = key, item_inodeId = inodeId, usageCount = 0\<rparr>]) s
      in set_lock_word key RWLockInitialize
           (s1\<lparr>PathDirHashEntryCount := (PathDirHashEntryCount s1)(p := PathDirHashEntryCount s1 p + 1)\<rparr>))"

text \<open>
  The loop with which all three operations find or enter the entry, evicting others while there is
  no room; \<open>present\<close> is what the operation does with an entry that is already there. The value tells
  whether there is an entry. \<open>None\<close>: no entry fits and none can be evicted, for ever.
\<close>

partial_function (option) entry_loop ::
    "dir_env \<Rightarrow> DirPathHashKey \<Rightarrow> DirPathLockMode \<Rightarrow> u64
     \<Rightarrow> (DirPathHashItem \<Rightarrow> (dir_state, bool) op) \<Rightarrow> dir_state
     \<Rightarrow> ((CuckooErrorCode + bool) \<times> dir_state) option" where
  "entry_loop E key lockMode inodeId present s =
     (case hash_find E key s of
        None \<Rightarrow>
          if enter_fails E (PathDirHash s (partition_index E key))
          then (if lockMode \<noteq> DIR_LOCK_NONE
                then (case EliminateDirPathHashByLRU E (partition_index E key) s of
                        None \<Rightarrow> None
                      | Some (b, s1) \<Rightarrow> entry_loop E key lockMode inodeId present s1)
                else Some (Inr False, s))
          else Some (op_bind (DirPathHashToCommitAddEntry key) (\<lambda>_ s1. (Inr True, s1)) (enter_item E key inodeId s))
      | Some item \<Rightarrow> Some (present item s))"

definition enter_loop where
  "enter_loop E key lockMode inodeId =
     entry_loop E key lockMode inodeId (\<lambda>item s.
       if item_inodeId item = DIR_HASH_TABLE_PATH_UNKNOWN
       then (Inr True, write_item E key (\<lambda>i. i\<lparr>item_inodeId := inodeId\<rparr>) s)
       else if item_inodeId item \<noteq> inodeId then (Inl PROGRAM_ERROR, s)
       else (Inr True, s))"

definition delete_enter_loop where
  "delete_enter_loop E key lockMode =
     entry_loop E key lockMode DIR_HASH_TABLE_PATH_UNKNOWN (\<lambda>item s. (Inr True, s))"

definition rw_mode :: "DirPathLockMode \<Rightarrow> RWLockMode" where
  "rw_mode lockMode = (if lockMode = DIR_LOCK_EXCLUSIVE then RW_EXCLUSIVE else RW_SHARED)"

text \<open>
  With the entry found: use it once more, declare its lock while the partition is still locked,
  acquire it afterwards and withdraw the declaration.
\<close>

definition lock_item :: "dir_env \<Rightarrow> DirPathHashKey \<Rightarrow> DirPathLockMode \<Rightarrow> (dir_state, unit) exec" where
  "lock_item E key lockMode s =
     (let s1 = write_item E key (\<lambda>i. i\<lparr>usageCount := usageCount i + 1\<rparr>) s in
      if lockMode = DIR_LOCK_NONE then Returns (Inr (), s1)
      else
        case RWLockDeclare (dir_locks s1) key of
          Inl e \<Rightarrow> Returns (Inl e, s1)
        | Inr b1 \<Rightarrow>
            (case RWLockAcquire b1 key (rw_mode lockMode) of
               Loops \<Rightarrow> Loops
             | Faults \<Rightarrow> Faults
             | Returns (Inl e) \<Rightarrow> Returns (Inl e, s1\<lparr>dir_locks := b1\<rparr>)
             | Returns (Inr b2) \<Rightarrow>
                 (case RWLockUndeclare b2 key of
                    Inl e \<Rightarrow> Returns (Inl e, s1\<lparr>dir_locks := b2\<rparr>)
                  | Inr b3 \<Rightarrow>
                      Returns (Inr (), s1\<lparr>dir_locks := b3,
                                          DirectoryHashTableLastAcquiredLock := Some key\<rparr>))))"

definition cached_id :: "dir_env \<Rightarrow> DirPathHashKey \<Rightarrow> dir_state \<Rightarrow> u64" where
  "cached_id E key s =
     (case hash_find E key s of None \<Rightarrow> DIR_HASH_TABLE_PATH_UNKNOWN | Some item \<Rightarrow> item_inodeId item)"

definition SearchDirectoryByDirectoryHashTable ::
    "dir_env \<Rightarrow> u64 \<Rightarrow> string \<Rightarrow> DirPathLockMode \<Rightarrow> (dir_state, u64) exec" where
  "SearchDirectoryByDirectoryHashTable E parentId name lockMode =
     exec_bind (key_copy parentId name) (\<lambda>key s.
       let inodeId = SearchDirectoryTableInfo (directory_table s) key in
       exec_bind
         (if cached_id E key s = DIR_HASH_TABLE_PATH_UNKNOWN
          then exec_loop (enter_loop E key lockMode inodeId)
          else exec_return True)
         (\<lambda>have_item.
            if \<not> have_item then exec_return inodeId
            else exec_bind (lock_item E key lockMode) (\<lambda>_. exec_gets (cached_id E key))) s)"

definition InsertDirectoryByDirectoryHashTable ::
    "dir_env \<Rightarrow> u64 \<Rightarrow> string \<Rightarrow> u64 \<Rightarrow> DirPathLockMode \<Rightarrow> (dir_state, unit) exec" where
  "InsertDirectoryByDirectoryHashTable E parentId name inodeId lockMode =
     exec_bind (key_copy parentId name) (\<lambda>key s.
       let tempId = SearchDirectoryTableInfo (directory_table s) key in
       exec_bind
         (if cached_id E key s = DIR_HASH_TABLE_PATH_UNKNOWN
          then (if tempId \<noteq> DIR_HASH_TABLE_PATH_NOT_EXIST then exec_raise ARGUMENT_ERROR
                else exec_loop (enter_loop E key lockMode tempId))
          else exec_return True)
         (\<lambda>have_item.
            if \<not> have_item then exec_op (InsertIntoDirectoryTable key inodeId)
            else exec_bind (lock_item E key lockMode) (\<lambda>_.
                 exec_bind (exec_op (InsertIntoDirectoryTable key inodeId)) (\<lambda>_.
                 exec_op (DirPathHashToCommitUpdateEntry key inodeId)))) s)"

definition DeleteDirectoryByDirectoryHashTable ::
    "dir_env \<Rightarrow> u64 \<Rightarrow> string \<Rightarrow> DirPathLockMode \<Rightarrow> (dir_state, unit) exec" where
  "DeleteDirectoryByDirectoryHashTable E parentId name lockMode =
     (if lockMode = DIR_LOCK_SHARED then exec_raise PROGRAM_ERROR
      else
        exec_bind (key_copy parentId name) (\<lambda>key s.
          exec_bind
            (if hash_find E key s = None then exec_loop (delete_enter_loop E key lockMode)
             else exec_return True)
            (\<lambda>have_item.
               if \<not> have_item then exec_op (DeleteFromDirectoryTable key)
               else exec_bind (lock_item E key lockMode) (\<lambda>_.
                    exec_bind (exec_op (DeleteFromDirectoryTable key)) (\<lambda>_.
                    exec_op (DirPathHashToCommitUpdateEntry key DIR_HASH_TABLE_PATH_NOT_EXIST)))) s))"

section \<open>The end of the transaction\<close>

text \<open>
  One remembered action. An entry created by an update keeps what its recycled memory held as lock
  and usage count.
\<close>

definition commit_one :: "dir_env \<Rightarrow> commit_action \<Rightarrow> dir_state \<Rightarrow> dir_state option" where
  "commit_one E action s =
     (case action of
        ActionA key \<Rightarrow> map_option snd (EliminateDirPathHashByLRU E (partition_index E key) s)
      | ActionU key inodeId \<Rightarrow>
          let p = partition_index E key in
          (case hash_find E key s of
             Some item \<Rightarrow> Some (write_item E key (\<lambda>i. i\<lparr>item_inodeId := inodeId\<rparr>) s)
           | None \<Rightarrow>
               if enter_fails E (PathDirHash s p) then Some s
               else
                 let (word, usage) = recycled E s;
                     s1 = set_partition p (PathDirHash s p @
                            [\<lparr>item_key = key, item_inodeId = inodeId, usageCount = usage\<rparr>]) s
                 in Some (set_lock_word key word
                      (s1\<lparr>PathDirHashEntryCount :=
                         (PathDirHashEntryCount s1)(p := PathDirHashEntryCount s1 p + 1)\<rparr>))))"

primrec commit_actions :: "dir_env \<Rightarrow> commit_action list \<Rightarrow> dir_state \<Rightarrow> dir_state option" where
  "commit_actions E [] s = Some s"
| "commit_actions E (a # as) s =
     (case commit_one E a s of None \<Rightarrow> None | Some s1 \<Rightarrow> commit_actions E as s1)"

definition CommitForDirPathHash :: "dir_env \<Rightarrow> dir_state \<Rightarrow> dir_state option" where
  "CommitForDirPathHash E s =
     map_option DirPathHashToCommitClear (commit_actions E (DirPathHashToCommit s) s)"

definition AbortForDirPathHash :: "dir_state \<Rightarrow> dir_state" where
  "AbortForDirPathHash s = DirPathHashToCommitClear s"

definition hash_clear :: "dir_env \<Rightarrow> DirPathHashItem list \<Rightarrow> DirPathHashItem list" where
  "hash_clear E items = fold remove_item (hash_seq E (map item_key items)) items"

definition ClearDirPathHash :: "dir_env \<Rightarrow> dir_state \<Rightarrow> dir_state" where
  "ClearDirPathHash E s =
     s\<lparr>PathDirHash := (\<lambda>p. if p < DIR_PATH_HASH_PARTITION_SIZE then hash_clear E (PathDirHash s p)
                           else PathDirHash s p)\<rparr>"

text \<open>The state \<^verbatim>\<open>DirPathShmemInit\<close> sets up, for a backend with no locks, over a given table.\<close>

definition DirPathShmemInit :: "(DirPathHashKey \<times> u64) list \<Rightarrow> dir_state" where
  "DirPathShmemInit rows =
     \<lparr>PathDirHash = (\<lambda>p. []), PathDirHashEntryCount = (\<lambda>p. 0),
      dir_locks = \<lparr>rw_state = (\<lambda>l. RWLockInitialize), held_rwlocks = [], InterruptHoldoffCount = 0\<rparr>,
      DirPathHashToCommit = [], DirectoryHashTableLastAcquiredLock = None, rand_draws = 0,
      directory_table = heap_of rows\<rparr>"

section \<open>Functions for the administrator\<close>

definition ReleaseDirPathHashLock :: "dir_env \<Rightarrow> u64 \<Rightarrow> string \<Rightarrow> (dir_state, unit) exec" where
  "ReleaseDirPathHashLock E parentId filename =
     exec_bind (key_copy parentId filename) (\<lambda>key s.
       case hash_find E key s of
         None \<Rightarrow> Returns (Inl FILE_NOT_EXISTS, s)
       | Some item \<Rightarrow>
           (case RWLockRelease (dir_locks s) key of
              Inl e \<Rightarrow> Returns (Inl e, s)
            | Inr b \<Rightarrow> Returns (Inr (), s\<lparr>dir_locks := b\<rparr>)))"

definition cuckoo_acquire_hash_lock :: "dir_env \<Rightarrow> string \<Rightarrow> u64 \<Rightarrow> int \<Rightarrow> (dir_state, unit) exec" where
  "cuckoo_acquire_hash_lock E fileName parentId lockNum =
     (let search = (\<lambda>lockMode.
            exec_bind (SearchDirectoryByDirectoryHashTable E parentId fileName lockMode) (\<lambda>res.
              if res = - 1 then exec_raise PROGRAM_ERROR else exec_return ())) in
      if lockNum = 0 then search DIR_LOCK_NONE
      else if lockNum = 1 then search DIR_LOCK_SHARED
      else if lockNum = 2 then search DIR_LOCK_EXCLUSIVE
      else exec_raise PROGRAM_ERROR)"

definition cuckoo_release_hash_lock :: "dir_env \<Rightarrow> string \<Rightarrow> u64 \<Rightarrow> (dir_state, unit) exec" where
  "cuckoo_release_hash_lock E fileName parentId = ReleaseDirPathHashLock E parentId fileName"

text \<open>The listing of all entries; the identifiers pass through 32-bit signed integers.\<close>

definition cuckoo_print_dir_path_hash_elem ::
    "dir_env \<Rightarrow> dir_state \<Rightarrow> (string \<times> int \<times> int \<times> string) list" where
  "cuckoo_print_dir_path_hash_elem E s =
     concat (map (\<lambda>p. List.map_filter (\<lambda>key.
        map_option (\<lambda>item.
          (snd (item_key item), sint (ucast (fst (item_key item)) :: 32 word),
           sint (ucast (item_inodeId item) :: 32 word),
           if rw_state (dir_locks s) key = 0 then ''no lock'' else ''locked''))
          (find_item key (PathDirHash s p)))
        (hash_seq E (map item_key (PathDirHash s p))))
      [0..<DIR_PATH_HASH_PARTITION_SIZE])"

section \<open>Keys, entries, partitions\<close>

lemma strcmp_eq_0 [simp]: "strcmp a b = 0 \<longleftrightarrow> a = b"
  by (induction a b rule: strcmp.induct) auto

lemma dir_path_compare_eq_0 [simp]: "dir_path_compare d1 d2 = 0 \<longleftrightarrow> d1 = d2"
  by (auto simp: dir_path_compare_def prod_eq_iff)

lemma find_item_None [simp]: "find_item k items = None \<longleftrightarrow> k \<notin> item_key ` set items"
  by (auto simp: find_item_def find_None_iff)

lemma find_item_Some: "find_item k items = Some it \<Longrightarrow> it \<in> set items \<and> item_key it = k"
  by (auto simp: find_item_def find_Some_iff)

lemma find_item_unique:
  "distinct (map item_key items) \<Longrightarrow> it \<in> set items \<Longrightarrow> find_item (item_key it) items = Some it"
  unfolding find_item_def by (induction items) (auto simp: image_iff)

lemma map_key_set_item [simp]:
  "(\<And>i. item_key (f i) = item_key i) \<Longrightarrow> map item_key (set_item k f items) = map item_key items"
  by (simp add: set_item_def)

lemma keys_set_item [simp]:
  "(\<And>i. item_key (f i) = item_key i) \<Longrightarrow> item_key ` set (set_item k f items) = item_key ` set items"
  using arg_cong [OF map_key_set_item [of f k items], of set] by (simp only: list.set_map)

lemma find_item_set_item:
  assumes "\<And>i. item_key (f i) = item_key i"
  shows "find_item k (set_item k' f items)
     = (if k = k' then map_option f (find_item k items) else find_item k items)"
  unfolding find_item_def set_item_def using assms by (induction items) auto

lemma partition_index_less: "partition_index E k < DIR_PATH_HASH_PARTITION_SIZE"
  by (simp add: partition_index_def DIR_PATH_HASH_PARTITION_SIZE_def)

lemma set_partition_simps [simp]:
  "PathDirHash (set_partition p items s) = (PathDirHash s)(p := items)"
  "PathDirHashEntryCount (set_partition p items s) = PathDirHashEntryCount s"
  "dir_locks (set_partition p items s) = dir_locks s"
  "DirPathHashToCommit (set_partition p items s) = DirPathHashToCommit s"
  "DirectoryHashTableLastAcquiredLock (set_partition p items s) = DirectoryHashTableLastAcquiredLock s"
  "directory_table (set_partition p items s) = directory_table s"
  by (simp_all add: set_partition_def)

lemma set_lock_word_simps [simp]:
  "PathDirHash (set_lock_word k w s) = PathDirHash s"
  "PathDirHashEntryCount (set_lock_word k w s) = PathDirHashEntryCount s"
  "rw_state (dir_locks (set_lock_word k w s)) = (rw_state (dir_locks s))(k := w)"
  "held_rwlocks (dir_locks (set_lock_word k w s)) = held_rwlocks (dir_locks s)"
  "DirPathHashToCommit (set_lock_word k w s) = DirPathHashToCommit s"
  "directory_table (set_lock_word k w s) = directory_table s"
  by (simp_all add: set_lock_word_def)

lemma write_item_simps [simp]:
  "PathDirHashEntryCount (write_item E k f s) = PathDirHashEntryCount s"
  "dir_locks (write_item E k f s) = dir_locks s"
  "DirPathHashToCommit (write_item E k f s) = DirPathHashToCommit s"
  "directory_table (write_item E k f s) = directory_table s"
  by (simp_all add: write_item_def Let_def)

lemma hash_find_write_item:
  assumes "\<And>i. item_key (f i) = item_key i"
  shows "hash_find E k (write_item E k' f s)
     = (if k = k' then map_option f (hash_find E k s) else hash_find E k s)"
  using find_item_set_item [of f, OF assms] by (auto simp: hash_find_def write_item_def Let_def)

text \<open>What the table says about an entry, and the part of a partition that eviction never rewrites.\<close>

definition table_id :: "(DirPathHashKey \<rightharpoonup> u64) \<Rightarrow> DirPathHashKey \<Rightarrow> u64" where
  "table_id t k = (case t k of None \<Rightarrow> DIR_HASH_TABLE_PATH_NOT_EXIST | Some i \<Rightarrow> i)"

lemma SearchDirectoryTableInfo_eq: "SearchDirectoryTableInfo h k = table_id (map_of (h_seen h)) k"
  by (simp add: SearchDirectoryTableInfo_def table_id_def heap_fetch_def DIR_HASH_TABLE_PATH_NOT_EXIST_def
      split: option.split)

definition ident :: "DirPathHashItem list \<Rightarrow> (DirPathHashKey \<times> u64) list" where
  "ident items = map (\<lambda>it. (item_key it, item_inodeId it)) items"

lemma ident_set_usage [simp]:
  "(\<And>i. item_key (f i) = item_key i \<and> item_inodeId (f i) = item_inodeId i)
   \<Longrightarrow> ident (set_item k f items) = ident items"
  by (simp add: ident_def set_item_def)

lemma length_ident: "length (ident items) = length items"
  by (simp add: ident_def)

lemma fst_set_ident: "fst ` set (ident items) = item_key ` set items"
  by (simp add: ident_def image_image)

lemma ident_keys: "ident a = ident b \<Longrightarrow> map item_key a = map item_key b"
  by (metis (no_types, lifting) ident_def list.map_comp map_eq_conv comp_apply fst_conv map_map)

lemma ident_key_set: "ident a = ident b \<Longrightarrow> item_key ` set a = item_key ` set b"
  by (drule ident_keys, drule arg_cong [where f = set], simp only: list.set_map)

lemma ident_remove: "ident (remove_item k items) = filter (\<lambda>e. fst e \<noteq> k) (ident items)"
  by (simp add: ident_def remove_item_def filter_map comp_def)

section \<open>Eviction\<close>

text \<open>\<^verbatim>\<open>hash_seq_search\<close> visits every entry of a table exactly once.\<close>

definition scan_complete :: "dir_env \<Rightarrow> bool" where
  "scan_complete E \<longleftrightarrow> (\<forall>ks. distinct ks \<longrightarrow> distinct (hash_seq E ks) \<and> set (hash_seq E ks) = set ks)"

lemma FindNextItem_ident: "FindNextItem d ks items = (e, n, items') \<Longrightarrow> ident items' = ident items"
proof (induction ks arbitrary: e n items items')
  case (Cons k ks)
  then show ?case
    by (fastforce simp: Let_def split: if_splits prod.splits option.splits)
qed simp

lemma FindNextItem_Some: "FindNextItem d ks items = (Some k, n, items') \<Longrightarrow> k \<in> set ks \<and> d k"
  by (induction ks arbitrary: n items items')
    (auto simp: Let_def split: if_splits prod.splits)

lemma FindNextItem_None_count: "FindNextItem d ks items = (None, n, items') \<Longrightarrow> n = length (filter d ks)"
  by (induction ks arbitrary: n items items')
    (auto simp: Let_def split: if_splits prod.splits)

text \<open>A scan that finds nothing has lowered every unreferenced entry and left it in use.\<close>

lemma FindNextItem_None:
  assumes "FindNextItem d ks items = (None, n, items')" "distinct ks" "set ks \<subseteq> item_key ` set items"
    "distinct (map item_key items)"
  shows "items' = map (\<lambda>it. if item_key it \<in> set ks \<and> d (item_key it)
                             then it\<lparr>usageCount := usageCount it - 1\<rparr> else it) items
     \<and> (\<forall>it \<in> set items. item_key it \<in> set ks \<longrightarrow> d (item_key it) \<longrightarrow> usageCount it > 1)"
  using assms
proof (induction ks arbitrary: n items items')
  case (Cons k ks)
  let ?dec = "\<lambda>it. it\<lparr>usageCount := usageCount it - 1\<rparr>"
  show ?case
  proof (cases "d k")
    case False
    with Cons.prems have "FindNextItem d ks items = (None, n, items')" by simp
    with Cons.IH [OF this] Cons.prems False show ?thesis by auto
  next
    case True
    let ?items1 = "set_item k ?dec items"
    obtain it0 where it0: "it0 \<in> set items" "item_key it0 = k" using Cons.prems(3) by auto
    have f0: "find_item k ?items1 = Some (?dec it0)"
      using find_item_unique [OF Cons.prems(4) it0(1)] it0(2) by (simp add: find_item_set_item)
    obtain n1 where rest: "FindNextItem d ks ?items1 = (None, n1, items')" and u0: "usageCount it0 > 1"
      using Cons.prems(1) True f0 by (auto simp: Let_def split: if_splits prod.splits)
    have keys: "map item_key ?items1 = map item_key items" by simp
    then have sub: "set ks \<subseteq> item_key ` set ?items1"
      using Cons.prems(3) by simp
    note IH = Cons.IH [OF rest _ sub] keys Cons.prems(2,4)
    have "items' = map (\<lambda>it. if item_key it \<in> set ks \<and> d (item_key it) then ?dec it else it) ?items1"
      using IH by simp
    moreover have "\<forall>it \<in> set items. item_key it \<in> set ks \<longrightarrow> d (item_key it) \<longrightarrow> usageCount it > 1"
    proof (intro ballI impI)
      fix it assume it: "it \<in> set items" "item_key it \<in> set ks" "d (item_key it)"
      then have "it \<in> set ?items1" using Cons.prems(2) by (force simp: set_item_def)
      then show "usageCount it > 1" using IH it by simp
    qed
    moreover have "usageCount it > 1" if "it \<in> set items" "item_key it = k" for it
      using u0 that it0 find_item_unique [OF Cons.prems(4)] by (metis option.inject)
    ultimately show ?thesis using Cons.prems(2) True by (auto simp: set_item_def)
  qed
qed simp

lemma rescan_loop_returns:
  assumes "distinct ks" "set ks = item_key ` set items" "distinct (map item_key items)"
  shows "\<exists>e items'. rescan_loop d ks items = Some (e, items') \<and> ident items' = ident items
     \<and> (case e of None \<Rightarrow> \<forall>k \<in> set ks. \<not> d k | Some k \<Rightarrow> k \<in> set ks \<and> d k)"
  using assms
proof (induction "sum_list (map (\<lambda>it. if d (item_key it) then nat (usageCount it) else 0) items)"
    arbitrary: items rule: less_induct)
  case less
  obtain e n items1 where f: "FindNextItem d ks items = (e, n, items1)" by (cases "FindNextItem d ks items") auto
  note id1 = FindNextItem_ident [OF f]
  show ?case
  proof (cases e)
    case (Some k)
    then show ?thesis using f id1 FindNextItem_Some [of d ks items k n items1]
      by (subst rescan_loop.simps) simp
  next
    case None
    have n: "n = length (filter d ks)" using FindNextItem_None_count f None by blast
    show ?thesis
    proof (cases "n = 0")
      case True
      then have "\<forall>k \<in> set ks. \<not> d k" using n by (simp add: filter_empty_conv)
      then show ?thesis using f None id1 True by (subst rescan_loop.simps) simp
    next
      case False
      have step: "items1 = map (\<lambda>it. if item_key it \<in> set ks \<and> d (item_key it)
                             then it\<lparr>usageCount := usageCount it - 1\<rparr> else it) items"
        "\<forall>it \<in> set items. item_key it \<in> set ks \<longrightarrow> d (item_key it) \<longrightarrow> usageCount it > 1"
        using FindNextItem_None [OF _ less.prems(1) _ less.prems(3)] f None less.prems(2) by blast+
      obtain it where it: "it \<in> set items" "d (item_key it)"
        using False n less.prems(2) by (auto simp: filter_empty_conv)
      have "sum_list (map (\<lambda>it. if d (item_key it) then nat (usageCount it) else 0) items1)
          < sum_list (map (\<lambda>it. if d (item_key it) then nat (usageCount it) else 0) items)"
        unfolding step(1) map_map comp_def
        by (rule sum_list_map_strict_mono [OF _ it(1)]) (use step(2) less.prems(2) it in auto)
      note smaller = this
      have keys: "map item_key items1 = map item_key items" by (rule ident_keys [OF id1])
      have "\<exists>e items'. rescan_loop d ks items1 = Some (e, items') \<and> ident items' = ident items1
          \<and> (case e of None \<Rightarrow> \<forall>k \<in> set ks. \<not> d k | Some k \<Rightarrow> k \<in> set ks \<and> d k)"
        using less.hyps [OF smaller less.prems(1)] less.prems(2,3) keys ident_key_set [OF id1] by simp
      then show ?thesis using f None False id1 by (subst rescan_loop.simps) simp
    qed
  qed
qed

lemma find_victim_returns:
  assumes E: "scan_complete E" and d: "distinct (map item_key (PathDirHash s p))"
  shows "\<exists>e items'. find_victim E p s
       = Some (e, set_partition p items' (s\<lparr>rand_draws := Suc (rand_draws s)\<rparr>))
     \<and> ident items' = ident (PathDirHash s p)
     \<and> (case e of None \<Rightarrow> \<forall>k \<in> item_key ` set (PathDirHash s p). \<not> entry_destroyable s k
         | Some k \<Rightarrow> k \<in> item_key ` set (PathDirHash s p) \<and> entry_destroyable s k)"
proof -
  let ?ks = "hash_seq E (map item_key (PathDirHash s p))" and ?d = "entry_destroyable s"
  have ks: "distinct ?ks" "set ?ks = item_key ` set (PathDirHash s p)"
    using E d unfolding scan_complete_def by simp_all
  obtain e n items where f: "FindNextItem ?d (drop (rand_skip E (rand_draws s)) ?ks) (PathDirHash s p) = (e, n, items)"
    by (cases "FindNextItem ?d (drop (rand_skip E (rand_draws s)) ?ks) (PathDirHash s p)") auto
  note id1 = FindNextItem_ident [OF f]
  note keys1 = ident_keys [OF id1] ident_key_set [OF id1]
  show ?thesis
  proof (cases e)
    case (Some k)
    then have "k \<in> set ?ks \<and> ?d k"
      using FindNextItem_Some f by (metis in_set_dropD)
    then show ?thesis using f Some id1 ks(2) by (auto simp: find_victim_def)
  next
    case None
    obtain e' items' where r: "rescan_loop ?d ?ks items = Some (e', items')" "ident items' = ident items"
      "case e' of None \<Rightarrow> \<forall>k \<in> set ?ks. \<not> ?d k | Some k \<Rightarrow> k \<in> set ?ks \<and> ?d k"
      using rescan_loop_returns [OF ks(1), of items ?d] ks(2) keys1 d by auto
    then have "find_victim E p s = Some (e', set_partition p items' (s\<lparr>rand_draws := Suc (rand_draws s)\<rparr>))"
      using f None by (simp add: find_victim_def)
    then show ?thesis using r(2,3) id1 unfolding ks(2) by auto
  qed
qed

lemma eliminate_loop_returns:
  assumes "scan_complete E" "distinct (map item_key (PathDirHash s p))"
  shows "\<exists>b s1 items. eliminate_loop E p s = Some (b, s1)
     \<and> s1 = set_partition p items (s\<lparr>rand_draws := Suc (rand_draws s)\<rparr>)
     \<and> (if b then \<exists>k \<in> item_key ` set (PathDirHash s p). entry_destroyable s k
              \<and> ident items = filter (\<lambda>e. fst e \<noteq> k) (ident (PathDirHash s p))
        else ident items = ident (PathDirHash s p)
              \<and> (\<forall>k \<in> item_key ` set (PathDirHash s p). \<not> entry_destroyable s k))"
proof -
  obtain e items where v: "find_victim E p s = Some (e, set_partition p items (s\<lparr>rand_draws := Suc (rand_draws s)\<rparr>))"
    "ident items = ident (PathDirHash s p)"
    "case e of None \<Rightarrow> \<forall>k \<in> item_key ` set (PathDirHash s p). \<not> entry_destroyable s k
         | Some k \<Rightarrow> k \<in> item_key ` set (PathDirHash s p) \<and> entry_destroyable s k"
    using find_victim_returns [OF assms] by auto
  show ?thesis
  proof (cases e)
    case None
    then show ?thesis using v by (subst eliminate_loop.simps) auto
  next
    case (Some k)
    then have "entry_destroyable (set_partition p items (s\<lparr>rand_draws := Suc (rand_draws s)\<rparr>)) k"
      using v(3) by (simp add: entry_destroyable_def)
    then have "eliminate_loop E p s = Some (True, set_partition p (remove_item k items)
        (set_partition p items (s\<lparr>rand_draws := Suc (rand_draws s)\<rparr>)))"
      using v Some ident_key_set [OF v(2)] by (subst eliminate_loop.simps) auto
    moreover have "ident (remove_item k items) = filter (\<lambda>e. fst e \<noteq> k) (ident (PathDirHash s p))"
      by (simp add: ident_remove v(2))
    ultimately show ?thesis using v(3) Some
      by (intro exI [of _ True] exI [of _ "set_partition p (remove_item k items)
        (s\<lparr>rand_draws := Suc (rand_draws s)\<rparr>)"] exI [of _ "remove_item k items"])
        (auto simp: set_partition_def)
  qed
qed

text \<open>
  C39: Eviction always ends. It removes at most one entry of the partition, only one whose lock nobody
  references at that moment, and lowers the partition's count with it; it refuses only when the
  partition is at most three quarters full or every entry is referenced. Everything else, the other
  partitions, the cached identifiers and all locks, stays as it is.
\<close>

theorem eviction_spares_referenced_entries:
  assumes "scan_complete E" "distinct (map item_key (PathDirHash s p))"
  shows "\<exists>b s'. EliminateDirPathHashByLRU E p s = Some (b, s')
     \<and> (if b then \<exists>k \<in> item_key ` set (PathDirHash s p). entry_destroyable s k
              \<and> ident (PathDirHash s' p) = filter (\<lambda>e. fst e \<noteq> k) (ident (PathDirHash s p))
              \<and> PathDirHashEntryCount s' = (PathDirHashEntryCount s)(p := PathDirHashEntryCount s p - 1)
        else ident (PathDirHash s' p) = ident (PathDirHash s p)
              \<and> PathDirHashEntryCount s' = PathDirHashEntryCount s
              \<and> (PathDirHashEntryCount s p \<le> 12 \<or> (\<forall>k \<in> item_key ` set (PathDirHash s p). \<not> entry_destroyable s k)))
     \<and> (\<forall>q. q \<noteq> p \<longrightarrow> PathDirHash s' q = PathDirHash s q)
     \<and> dir_locks s' = dir_locks s \<and> directory_table s' = directory_table s
     \<and> DirPathHashToCommit s' = DirPathHashToCommit s"
proof -
  have thr: "MAX_BUCKET_SUM_LRU_CLAER_BEGIN div of_nat DIR_PATH_HASH_PARTITION_SIZE = 12"
    by (simp add: MAX_BUCKET_SUM_LRU_CLAER_BEGIN_def MAX_DIRECTORY_PATH_HASH_CAPACITY_def
        DIR_PATH_HASH_PARTITION_SIZE_def)
  obtain b s1 items where r: "eliminate_loop E p s = Some (b, s1)"
    "s1 = set_partition p items (s\<lparr>rand_draws := Suc (rand_draws s)\<rparr>)"
    "if b then \<exists>k \<in> item_key ` set (PathDirHash s p). entry_destroyable s k
              \<and> ident items = filter (\<lambda>e. fst e \<noteq> k) (ident (PathDirHash s p))
        else ident items = ident (PathDirHash s p)
              \<and> (\<forall>k \<in> item_key ` set (PathDirHash s p). \<not> entry_destroyable s k)"
    using eliminate_loop_returns [OF assms] by blast
  show ?thesis
  proof (cases "PathDirHashEntryCount s p \<le> 12")
    case True
    then show ?thesis
      by (intro exI [of _ False] exI [of _ s]) (simp add: EliminateDirPathHashByLRU_def thr)
  next
    case False
    then show ?thesis using r by (cases b) (auto simp: EliminateDirPathHashByLRU_def thr)
  qed
qed

section \<open>Well-formed caches\<close>

definition dir_wf :: "dir_env \<Rightarrow> dir_state \<Rightarrow> bool" where
  "dir_wf E s \<longleftrightarrow> (\<forall>p. distinct (map item_key (PathDirHash s p))
     \<and> (\<forall>it \<in> set (PathDirHash s p). partition_index E (item_key it) = p)
     \<and> PathDirHashEntryCount s p = of_nat (length (PathDirHash s p)))"

text \<open>What the cache knows, as a map.\<close>

definition cache :: "dir_env \<Rightarrow> dir_state \<Rightarrow> DirPathHashKey \<rightharpoonup> u64" where
  "cache E s k = map_option item_inodeId (hash_find E k s)"

lemma cache_ident: "cache E s k = map_of (ident (PathDirHash s (partition_index E k))) k"
proof -
  have "map_option item_inodeId (find_item k items) = map_of (ident items) k" for items
    unfolding find_item_def ident_def by (induction items) auto
  then show ?thesis by (simp add: cache_def hash_find_def)
qed

lemma dir_wf_ident:
  "dir_wf E s \<longleftrightarrow> (\<forall>p. distinct (map fst (ident (PathDirHash s p)))
     \<and> (\<forall>e \<in> set (ident (PathDirHash s p)). partition_index E (fst e) = p)
     \<and> PathDirHashEntryCount s p = of_nat (length (ident (PathDirHash s p))))"
  unfolding dir_wf_def ident_def by (simp add: comp_def)

lemma filter_one_less:
  assumes "distinct (map fst xs)" "k \<in> fst ` set xs"
  shows "length xs = Suc (length (filter (\<lambda>e. fst e \<noteq> k) xs))"
  using assms
proof (induction xs)
  case (Cons x xs)
  show ?case
  proof (cases "fst x = k")
    case True
    then have "filter (\<lambda>e. fst e \<noteq> k) xs = xs"
      using Cons.prems(1) by (auto simp: filter_id_conv image_iff)
    then show ?thesis using True by simp
  next
    case False
    then show ?thesis using Cons by auto
  qed
qed simp

text \<open>Eviction at the level of the map: it can only forget an unreferenced entry.\<close>

lemma Eliminate_cache:
  assumes E: "scan_complete E" and wf: "dir_wf E s"
  shows "\<exists>b s'. EliminateDirPathHashByLRU E p s = Some (b, s') \<and> dir_wf E s'
     \<and> cache E s' \<subseteq>\<^sub>m cache E s
     \<and> (\<forall>k. \<not> entry_destroyable s k \<longrightarrow> cache E s' k = cache E s k)
     \<and> (b \<longrightarrow> length (PathDirHash s p) = Suc (length (PathDirHash s' p)))
     \<and> (\<forall>q. q \<noteq> p \<longrightarrow> PathDirHash s' q = PathDirHash s q)
     \<and> dir_locks s' = dir_locks s \<and> directory_table s' = directory_table s
     \<and> DirPathHashToCommit s' = DirPathHashToCommit s"
proof (cases "PathDirHashEntryCount s p \<le> MAX_BUCKET_SUM_LRU_CLAER_BEGIN div of_nat DIR_PATH_HASH_PARTITION_SIZE")
  case True
  then have "EliminateDirPathHashByLRU E p s = Some (False, s)" by (simp add: EliminateDirPathHashByLRU_def)
  then show ?thesis using wf by (intro exI [of _ False] exI [of _ s]) (simp add: map_le_def)
next
  case False
  have d: "distinct (map item_key (PathDirHash s p))" using wf by (simp add: dir_wf_def)
  obtain b s1 items where r: "eliminate_loop E p s = Some (b, s1)"
    "s1 = set_partition p items (s\<lparr>rand_draws := Suc (rand_draws s)\<rparr>)"
    "if b then \<exists>k \<in> item_key ` set (PathDirHash s p). entry_destroyable s k
              \<and> ident items = filter (\<lambda>e. fst e \<noteq> k) (ident (PathDirHash s p))
        else ident items = ident (PathDirHash s p)
              \<and> (\<forall>k \<in> item_key ` set (PathDirHash s p). \<not> entry_destroyable s k)"
    using eliminate_loop_returns [OF E d] by blast
  let ?i = "ident (PathDirHash s p)"
  have wfp: "distinct (map fst ?i)" "\<forall>e \<in> set ?i. partition_index E (fst e) = p"
    "PathDirHashEntryCount s p = of_nat (length ?i)" using wf by (simp_all add: dir_wf_ident)
  show ?thesis
  proof (cases b)
    case False
    then have "EliminateDirPathHashByLRU E p s = Some (False, s1)"
      using r \<open>\<not> PathDirHashEntryCount s p \<le> _\<close> by (simp add: EliminateDirPathHashByLRU_def)
    moreover have "ident items = ?i" using r False by simp
    ultimately show ?thesis using wf r(2)
      by (intro exI [of _ False] exI [of _ s1]) (auto simp: dir_wf_ident cache_ident map_le_def)
  next
    case True
    then obtain k where k: "k \<in> item_key ` set (PathDirHash s p)" "entry_destroyable s k"
      "ident items = filter (\<lambda>e. fst e \<noteq> k) ?i" using r(3) by (simp only: if_True) blast
    let ?s' = "s1\<lparr>PathDirHashEntryCount := (PathDirHashEntryCount s1)(p := PathDirHashEntryCount s1 p - 1)\<rparr>"
    have "EliminateDirPathHashByLRU E p s = Some (True, ?s')"
      using r True \<open>\<not> PathDirHashEntryCount s p \<le> _\<close> by (simp add: EliminateDirPathHashByLRU_def)
    moreover have len: "length ?i = Suc (length (ident items))"
      unfolding k(3) by (rule filter_one_less [OF wfp(1)]) (use k(1) in \<open>force simp: ident_def\<close>)
    have len': "length (PathDirHash s p) = Suc (length items)" using len by (simp add: ident_def)
    have kp: "partition_index E k = p" using k(1) wf by (auto simp: dir_wf_def)
    have m: "map_of (ident items) = (map_of ?i)(k := None)" by (simp add: k(3))
    have "cache E ?s' = (cache E s)(k := None)"
    proof
      fix x
      show "cache E ?s' x = ((cache E s)(k := None)) x"
        using kp m r(2) by (cases "x = k"; cases "partition_index E x = p") (simp_all add: cache_ident)
    qed
    moreover have "dir_wf E ?s'"
      unfolding dir_wf_ident
    proof
      fix q
      show "distinct (map fst (ident (PathDirHash ?s' q)))
          \<and> (\<forall>e \<in> set (ident (PathDirHash ?s' q)). partition_index E (fst e) = q)
          \<and> PathDirHashEntryCount ?s' q = of_nat (length (ident (PathDirHash ?s' q)))"
      proof (cases "q = p")
        case True
        then show ?thesis using wfp len r(2)
          by (simp add: k(3) [symmetric]) (simp add: k(3) distinct_fst_filter)
      next
        case False
        then show ?thesis using wf r(2) by (simp add: dir_wf_ident)
      qed
    qed
    ultimately show ?thesis using k(2) r(2) len'
      by (intro exI [of _ True] exI [of _ ?s']) (auto simp: map_le_def)
  qed
qed

section \<open>The cache as a map\<close>

lemma cached_id_cache:
  "cached_id E k s = (case cache E s k of None \<Rightarrow> DIR_HASH_TABLE_PATH_UNKNOWN | Some v \<Rightarrow> v)"
  by (simp add: cached_id_def cache_def split: option.split)

lemma hash_find_None_cache: "hash_find E k s = None \<longleftrightarrow> cache E s k = None"
  by (simp add: cache_def)

lemma cache_write_usage [simp]: "cache E (write_item E k (\<lambda>i. i\<lparr>usageCount := f i\<rparr>) s) = cache E s"
  by (rule ext) (simp add: cache_def hash_find_write_item option.map_comp comp_def)

lemma cache_write_inodeId:
  "cache E (write_item E k (\<lambda>i. i\<lparr>item_inodeId := v\<rparr>) s)
     = (cache E s)(k := map_option (\<lambda>_. v) (cache E s k))"
  by (rule ext) (simp add: cache_def hash_find_write_item option.map_comp comp_def)

lemma dir_wf_write_item:
  assumes "\<And>i. item_key (f i) = item_key i"
  shows "dir_wf E (write_item E k f s) = dir_wf E s"
proof -
  have "(\<forall>it \<in> set (set_item k f items). partition_index E (item_key it) = p)
      \<longleftrightarrow> (\<forall>it \<in> set items. partition_index E (item_key it) = p)" for items p
    using keys_set_item [of f k items, OF assms] by (metis (no_types, lifting) image_eqI imageE)
  moreover have "length (set_item k f items) = length items" for items by (simp add: set_item_def)
  ultimately show ?thesis
    using map_key_set_item [of f, OF assms] by (auto simp: dir_wf_def write_item_def Let_def)
qed

lemma cache_same_parts:
  "PathDirHash s' = PathDirHash s \<Longrightarrow> cache E s' = cache E s"
  by (rule ext) (simp add: cache_def hash_find_def)

lemma dir_wf_same_parts:
  "PathDirHash s' = PathDirHash s \<Longrightarrow> PathDirHashEntryCount s' = PathDirHashEntryCount s
   \<Longrightarrow> dir_wf E s' = dir_wf E s"
  by (simp add: dir_wf_def)

text \<open>A new entry appended to its partition, whatever its lock and usage count.\<close>

lemma appended_entry:
  assumes wf: "dir_wf E s" and new: "cache E s k = None"
    and p: "p = partition_index E k"
    and parts: "PathDirHash s' = (PathDirHash s)(p := PathDirHash s p @ [\<lparr>item_key = k, item_inodeId = v, usageCount = u\<rparr>])"
    and counts: "PathDirHashEntryCount s' = (PathDirHashEntryCount s)(p := PathDirHashEntryCount s p + 1)"
  shows "dir_wf E s'" "cache E s' = (cache E s)(k \<mapsto> v)"
proof -
  have fresh: "k \<notin> item_key ` set (PathDirHash s p)" using new p by (simp add: cache_def hash_find_def)
  show "dir_wf E s'" unfolding dir_wf_def
  proof
    fix q
    show "distinct (map item_key (PathDirHash s' q))
        \<and> (\<forall>it \<in> set (PathDirHash s' q). partition_index E (item_key it) = q)
        \<and> PathDirHashEntryCount s' q = of_nat (length (PathDirHash s' q))"
      using wf fresh p parts counts by (cases "q = p") (auto simp: dir_wf_def)
  qed
  have ident: "ident (PathDirHash s' q) = ident (PathDirHash s q) @ (if q = p then [(k, v)] else [])" for q
    by (simp add: parts ident_def)
  have "map_of (ident (PathDirHash s p)) k = None"
    using new p by (simp add: cache_ident)
  then show "cache E s' = (cache E s)(k \<mapsto> v)"
    using p by (intro ext) (auto simp: cache_ident ident map_add_def split: option.splits)
qed

lemma enter_item_simps [simp]:
  "PathDirHash (enter_item E k v s) = (PathDirHash s)(partition_index E k :=
     PathDirHash s (partition_index E k) @ [\<lparr>item_key = k, item_inodeId = v, usageCount = 0\<rparr>])"
  "PathDirHashEntryCount (enter_item E k v s) = (PathDirHashEntryCount s)(partition_index E k :=
     PathDirHashEntryCount s (partition_index E k) + 1)"
  "rw_state (dir_locks (enter_item E k v s)) = (rw_state (dir_locks s))(k := 0)"
  "held_rwlocks (dir_locks (enter_item E k v s)) = held_rwlocks (dir_locks s)"
  "DirPathHashToCommit (enter_item E k v s) = DirPathHashToCommit s"
  "directory_table (enter_item E k v s) = directory_table s"
  by (simp_all add: enter_item_def Let_def RWLockInitialize_def)

lemma enter_item_cache:
  assumes "dir_wf E s" "cache E s k = None"
  shows "dir_wf E (enter_item E k v s)" "cache E (enter_item E k v s) = (cache E s)(k \<mapsto> v)"
  using appended_entry [OF assms refl] by (simp_all add: enter_item_simps)

lemma add_entry_simps [simp]:
  "PathDirHash (snd (DirPathHashToCommitAddEntry k s)) = PathDirHash s"
  "PathDirHashEntryCount (snd (DirPathHashToCommitAddEntry k s)) = PathDirHashEntryCount s"
  "dir_locks (snd (DirPathHashToCommitAddEntry k s)) = dir_locks s"
  "directory_table (snd (DirPathHashToCommitAddEntry k s)) = directory_table s"
  "PathDirHash (snd (DirPathHashToCommitUpdateEntry k v s)) = PathDirHash s"
  "PathDirHashEntryCount (snd (DirPathHashToCommitUpdateEntry k v s)) = PathDirHashEntryCount s"
  "dir_locks (snd (DirPathHashToCommitUpdateEntry k v s)) = dir_locks s"
  "directory_table (snd (DirPathHashToCommitUpdateEntry k v s)) = directory_table s"
  by (simp_all add: DirPathHashToCommitAddEntry_def DirPathHashToCommitUpdateEntry_def)

section \<open>Taking the lock of an entry\<close>

lemma last_index_snoc_no: "\<not> P y \<Longrightarrow> last_index P (xs @ [y]) = last_index P xs"
proof -
  assume "\<not> P y"
  moreover have "filter (\<lambda>i. P ((xs @ [y]) ! i)) [0..<length xs] = filter (\<lambda>i. P (xs ! i)) [0..<length xs]"
    by (rule filter_cong) (simp_all add: nth_append)
  ultimately show ?thesis by (simp add: last_index_def)
qed

text \<open>The lock of an entry can be taken at once, its word being \<open>w\<close> before the declaration.\<close>

definition lock_admits :: "DirPathLockMode \<Rightarrow> u64 \<Rightarrow> bool" where
  "lock_admits mode w \<longleftrightarrow> mode = DIR_LOCK_NONE
     \<or> snd (attempt_state (rw_mode mode) (w + RW_VAL_REF_COUNT + RW_VAL_REF_COUNT))"

definition lock_entries :: "DirPathHashKey \<Rightarrow> DirPathLockMode \<Rightarrow> (DirPathHashKey \<times> RWLockMode) list" where
  "lock_entries k mode = (if mode = DIR_LOCK_NONE then [] else [(k, rw_mode mode)])"

definition locked_words :: "DirPathHashKey \<Rightarrow> DirPathLockMode \<Rightarrow> (DirPathHashKey \<Rightarrow> u64) \<Rightarrow> DirPathHashKey \<Rightarrow> u64" where
  "locked_words k mode words = (if mode = DIR_LOCK_NONE then words
     else words(k := fst (attempt_state (rw_mode mode) (words k + RW_VAL_REF_COUNT + RW_VAL_REF_COUNT)) - RW_VAL_REF_COUNT))"

lemma lock_item_parts:
  assumes "lock_item E k mode s = Returns (r, s')"
  shows "PathDirHash s' = PathDirHash (write_item E k (\<lambda>i. i\<lparr>usageCount := usageCount i + 1\<rparr>) s)"
    "PathDirHashEntryCount s' = PathDirHashEntryCount s"
    "DirPathHashToCommit s' = DirPathHashToCommit s" "directory_table s' = directory_table s"
  using assms by (auto simp: lock_item_def Let_def split: if_splits sum.splits run.splits)

lemma lock_item_cache:
  assumes "lock_item E k mode s = Returns (r, s')"
  shows "cache E s' = cache E s" "dir_wf E s' = dir_wf E s"
  using lock_item_parts [OF assms] cache_same_parts [of s'] dir_wf_same_parts [of s' "write_item E k (\<lambda>i. i\<lparr>usageCount := usageCount i + 1\<rparr>) s"]
  by (simp_all add: dir_wf_write_item)

lemma lock_item_ok:
  assumes "mode = DIR_LOCK_NONE \<or> length (held_rwlocks (dir_locks s)) + 2 \<le> MAX_SIMUL_RWLOCKS"
    and "lock_admits mode (rw_state (dir_locks s) k)"
  shows "\<exists>s'. lock_item E k mode s = Returns (Inr (), s')
     \<and> held_rwlocks (dir_locks s') = held_rwlocks (dir_locks s) @ lock_entries k mode
     \<and> rw_state (dir_locks s') = locked_words k mode (rw_state (dir_locks s))"
proof (cases "mode = DIR_LOCK_NONE")
  case False
  let ?s1 = "write_item E k (\<lambda>i. i\<lparr>usageCount := usageCount i + 1\<rparr>) s" and ?b = "dir_locks s"
  let ?b1 = "?b\<lparr>InterruptHoldoffCount := InterruptHoldoffCount ?b + 1,
      rw_state := (rw_state ?b)(k := rw_state ?b k + RW_VAL_REF_COUNT),
      held_rwlocks := held_rwlocks ?b @ [(k, RW_DECLARE)]\<rparr>"
  have d: "RWLockDeclare ?b k = Inr ?b1" using assms(1) False by (simp add: RWLockDeclare_def)
  have m: "rw_mode mode \<noteq> RW_DECLARE" by (simp add: rw_mode_def)
  have "acquire_loop (rw_mode mode) (rw_state ?b1 k + RW_VAL_REF_COUNT)
      = Some (fst (attempt_state (rw_mode mode) (rw_state ?b1 k + RW_VAL_REF_COUNT)))"
    using assms(2) False by (subst acquire_loop.simps) (simp add: lock_admits_def)
  then obtain b2 where a: "RWLockAcquire ?b1 k (rw_mode mode) = Returns (Inr b2)"
    "held_rwlocks b2 = (held_rwlocks ?b @ [(k, RW_DECLARE)]) @ [(k, rw_mode mode)]"
    "rw_state b2 = (rw_state ?b)(k := fst (attempt_state (rw_mode mode) (rw_state ?b k + RW_VAL_REF_COUNT + RW_VAL_REF_COUNT)))"
    using m assms(1) False by (simp add: RWLockAcquire_def)
  have "last_index (\<lambda>h. k = fst h \<and> snd h = RW_DECLARE) (held_rwlocks b2) = Some (length (held_rwlocks ?b))"
    unfolding a(2) using m by (subst last_index_snoc_no) (simp_all add: last_index_last)
  then obtain b3 where u: "RWLockUndeclare b2 k = Inr b3"
    "held_rwlocks b3 = held_rwlocks ?b @ [(k, rw_mode mode)]"
    "rw_state b3 = (rw_state b2)(k := rw_state b2 k - RW_VAL_REF_COUNT)"
    by (simp add: RWLockUndeclare_def a(2) remove_at_def)
  show ?thesis using False d a u by (simp add: lock_item_def lock_entries_def locked_words_def)
qed (simp add: lock_item_def lock_entries_def locked_words_def)

section \<open>What a lookup may do to the cache\<close>

primrec update_of :: "commit_action \<Rightarrow> (DirPathHashKey \<times> u64) option" where
  "update_of (ActionA k) = None"
| "update_of (ActionU k v) = Some (k, v)"

definition updates :: "commit_action list \<Rightarrow> (DirPathHashKey \<times> u64) list" where
  "updates as = List.map_filter update_of as"

lemma updates_simps [simp]:
  "updates [] = []" "updates (ActionA k # as) = updates as" "updates (ActionU k v # as) = (k, v) # updates as"
  "updates (as @ bs) = updates as @ updates bs"
  by (simp_all add: updates_def map_filter_def)

text \<open>
  Entries may be evicted, and the entry of \<open>k\<close> may appear or change with the value \<open>v\<close>; the table and
  the remembered updates stay.
\<close>

definition cache_step :: "dir_env \<Rightarrow> DirPathHashKey \<Rightarrow> u64 \<Rightarrow> dir_state \<Rightarrow> dir_state \<Rightarrow> bool" where
  "cache_step E k v s s' \<longleftrightarrow> dir_wf E s'
     \<and> (\<forall>k'. cache E s' k' = None \<or> cache E s' k' = cache E s k' \<or> (k' = k \<and> cache E s' k' = Some v))
     \<and> directory_table s' = directory_table s
     \<and> updates (DirPathHashToCommit s') = updates (DirPathHashToCommit s)"

lemma cache_step_refl: "dir_wf E s \<Longrightarrow> cache_step E k v s s"
  by (simp add: cache_step_def)

lemma cache_step_trans: "cache_step E k v s s1 \<Longrightarrow> cache_step E k v s1 s2 \<Longrightarrow> cache_step E k v s s2"
  unfolding cache_step_def by metis

lemma cache_step_eliminate:
  assumes "scan_complete E" "dir_wf E s" "EliminateDirPathHashByLRU E p s = Some (b, s')"
  shows "cache_step E k v s s'"
proof -
  have le: "cache E s' \<subseteq>\<^sub>m cache E s" and rest: "dir_wf E s'" "directory_table s' = directory_table s"
    "DirPathHashToCommit s' = DirPathHashToCommit s"
    using Eliminate_cache [OF assms(1,2), of p] assms(3) by auto
  have "cache E s' k' = None \<or> cache E s' k' = cache E s k'" for k'
    using le unfolding map_le_def by (metis domIff)
  then show ?thesis using rest unfolding cache_step_def by metis
qed

lemma cache_step_enter:
  assumes "dir_wf E s" "cache E s k = None"
  shows "cache_step E k v s (snd (DirPathHashToCommitAddEntry k (enter_item E k v s)))"
proof -
  let ?s1 = "enter_item E k v s" and ?s2 = "snd (DirPathHashToCommitAddEntry k (enter_item E k v s))"
  have "cache E ?s2 = (cache E s)(k \<mapsto> v)" "dir_wf E ?s2"
    using enter_item_cache [OF assms, of v] cache_same_parts [of ?s2 ?s1] dir_wf_same_parts [of ?s2 ?s1]
    by simp_all
  moreover have "updates (DirPathHashToCommit ?s2) = updates (DirPathHashToCommit s)"
    by (simp add: DirPathHashToCommitAddEntry_def)
  ultimately show ?thesis by (simp add: cache_step_def)
qed

lemma cache_step_write:
  assumes "dir_wf E s"
  shows "cache_step E k v s (write_item E k (\<lambda>i. i\<lparr>item_inodeId := v\<rparr>) s)"
  using assms by (auto simp: cache_step_def cache_write_inodeId dir_wf_write_item)

text \<open>Both loops that find or make room for the entry.\<close>

definition enter_post where
  "enter_post Q E k v mode s r s' \<longleftrightarrow> cache_step E k v s s'
     \<and> (r = Inr True \<longrightarrow> Q (cache E s' k))
     \<and> (r = Inr False \<longrightarrow> mode = DIR_LOCK_NONE \<and> cache E s k = None)"

lemma enter_post_eliminate:
  assumes "scan_complete E" "dir_wf E s" "EliminateDirPathHashByLRU E p s = Some (b, s1)"
    and "mode \<noteq> DIR_LOCK_NONE"
    and "dir_wf E s1 \<Longrightarrow> enter_post Q E k v mode s1 r s'"
  shows "enter_post Q E k v mode s r s'"
proof -
  note step = cache_step_eliminate [OF assms(1-3), of k v]
  then have "enter_post Q E k v mode s1 r s'" using assms(5) by (simp add: cache_step_def)
  then show ?thesis using cache_step_trans [OF step] assms(4) by (simp add: enter_post_def)
qed

lemma enter_post_new:
  assumes "dir_wf E s" "cache E s k = None" "Q (Some v)"
    and "(r, s') = op_bind (DirPathHashToCommitAddEntry k) (\<lambda>_ s1. (Inr True, s1)) (enter_item E k v s)"
  shows "enter_post Q E k v mode s r s'"
proof -
  have s': "s' = snd (DirPathHashToCommitAddEntry k (enter_item E k v s))" and r: "r = Inr False \<longrightarrow> False"
    using assms(4) by (auto simp: op_bind_def DirPathHashToCommitAddEntry_def split: if_splits)
  have "cache E s' k = Some v"
    using enter_item_cache [OF assms(1,2), of v] cache_same_parts [of s' "enter_item E k v s"]
    unfolding s' by simp
  then show ?thesis using cache_step_enter [OF assms(1,2), of v] r assms(3) unfolding s' enter_post_def by simp
qed

lemma entry_loop_post:
  assumes "entry_loop E k mode v present s = Some (r, s')" "scan_complete E" "dir_wf E s"
    and Q: "Q (Some v)"
    and "\<And>s item. dir_wf E s \<Longrightarrow> hash_find E k s = Some item \<Longrightarrow>
           enter_post Q E k v mode s (fst (present item s)) (snd (present item s))"
  shows "enter_post Q E k v mode s r s'"
proof -
  let ?ok = "\<lambda>E k mode v present. scan_complete E \<and> Q (Some v) \<and>
     (\<forall>s item. dir_wf E s \<longrightarrow> hash_find E k s = Some item \<longrightarrow>
        enter_post Q E k v mode s (fst (present item s)) (snd (present item s)))"
  have "?ok E k mode v present \<longrightarrow> dir_wf E s \<longrightarrow> enter_post Q E k v mode s (fst y) (snd y)"
    if "entry_loop E k mode v present s = Some y" for E k mode v present s y
    using that
  proof (rule entry_loop.raw_induct [rotated, where P =
        "\<lambda>E k mode v present s y. ?ok E k mode v present \<longrightarrow> dir_wf E s
           \<longrightarrow> enter_post Q E k v mode s (fst y) (snd y)"])
    fix loop E k mode v present s y
    assume IH: "\<And>E k mode v present s y. loop E k mode v present s = Some y \<Longrightarrow>
          ?ok E k mode v present \<longrightarrow> dir_wf E s \<longrightarrow> enter_post Q E k v mode s (fst y) (snd y)"
      and step: "(case hash_find E k s of
        None \<Rightarrow>
          if enter_fails E (PathDirHash s (partition_index E k))
          then (if mode \<noteq> DIR_LOCK_NONE
                then (case EliminateDirPathHashByLRU E (partition_index E k) s of
                        None \<Rightarrow> None
                      | Some (b, s1) \<Rightarrow> loop E k mode v present s1)
                else Some (Inr False, s))
          else Some (op_bind (DirPathHashToCommitAddEntry k) (\<lambda>_ s1. (Inr True, s1)) (enter_item E k v s))
      | Some item \<Rightarrow> Some (present item s)) = Some y"
    show "?ok E k mode v present \<longrightarrow> dir_wf E s \<longrightarrow> enter_post Q E k v mode s (fst y) (snd y)"
    proof (intro impI)
      assume ok: "?ok E k mode v present" and wf: "dir_wf E s"
      show "enter_post Q E k v mode s (fst y) (snd y)"
      proof (cases "hash_find E k s")
        case None
        then consider (evict) b s1 where "mode \<noteq> DIR_LOCK_NONE" "EliminateDirPathHashByLRU E (partition_index E k) s = Some (b, s1)"
            "loop E k mode v present s1 = Some y"
          | (none) "mode = DIR_LOCK_NONE" "y = (Inr False, s)"
          | (new) "y = op_bind (DirPathHashToCommitAddEntry k) (\<lambda>_ s1. (Inr True, s1)) (enter_item E k v s)"
          using step by (auto split: if_splits option.splits)
        then show ?thesis
        proof cases
          case evict
          show ?thesis
            by (rule enter_post_eliminate [OF _ wf evict(2,1)]) (use IH [OF evict(3)] ok in blast)+
        next
          case none
          then show ?thesis using None wf
            by (auto simp: enter_post_def cache_step_refl hash_find_None_cache)
        next
          case new
          then show ?thesis using None ok
            by (intro enter_post_new [OF wf]) (auto simp: hash_find_None_cache)
        qed
      next
        case (Some item)
        then show ?thesis using step ok wf by auto
      qed
    qed
  qed
  then show ?thesis using assms by fastforce
qed

lemma enter_loop_post:
  assumes "enter_loop E k mode v s = Some (r, s')" "scan_complete E" "dir_wf E s"
  shows "enter_post (\<lambda>c. c = Some v) E k v mode s r s'"
  using assms(1) unfolding enter_loop_def
proof (rule entry_loop_post [OF _ assms(2,3)])
  fix s item
  assume "dir_wf E s" "hash_find E k s = Some item"
  then show "enter_post (\<lambda>c. c = Some v) E k v mode s
      (fst (if item_inodeId item = DIR_HASH_TABLE_PATH_UNKNOWN
        then (Inr True, write_item E k (\<lambda>i. i\<lparr>item_inodeId := v\<rparr>) s)
        else if item_inodeId item \<noteq> v then (Inl PROGRAM_ERROR, s) else (Inr True, s)))
      (snd (if item_inodeId item = DIR_HASH_TABLE_PATH_UNKNOWN
        then (Inr True, write_item E k (\<lambda>i. i\<lparr>item_inodeId := v\<rparr>) s)
        else if item_inodeId item \<noteq> v then (Inl PROGRAM_ERROR, s) else (Inr True, s)))"
    using cache_step_write [of E s k v]
    by (auto simp: enter_post_def cache_step_refl hash_find_write_item cache_def)
qed simp

lemma delete_enter_loop_post:
  assumes "delete_enter_loop E k mode s = Some (r, s')" "scan_complete E" "dir_wf E s"
  shows "enter_post (\<lambda>c. c \<noteq> None) E k DIR_HASH_TABLE_PATH_UNKNOWN mode s r s'"
  using assms(1) unfolding delete_enter_loop_def
  by (rule entry_loop_post [OF _ assms(2,3)]) (auto simp: enter_post_def cache_step_refl cache_def)

text \<open>With room for a new entry, the lookup enters or completes the entry at once.\<close>

lemma enter_loop_ok:
  assumes wf: "dir_wf E s" and unknown: "cached_id E k s = DIR_HASH_TABLE_PATH_UNKNOWN"
    and room: "cache E s k = None \<Longrightarrow> \<not> enter_fails E (PathDirHash s (partition_index E k))
        \<and> length (DirPathHashToCommit s) < MAX_DIRECTORY_HASH_TO_COMMIT_ACTION_LENGTH"
  shows "\<exists>s'. enter_loop E k mode v s = Some (Inr True, s') \<and> cache E s' k = Some v
     \<and> held_rwlocks (dir_locks s') = held_rwlocks (dir_locks s)
     \<and> rw_state (dir_locks s') = (if cache E s k = None then (rw_state (dir_locks s))(k := 0) else rw_state (dir_locks s))
     \<and> length (DirPathHashToCommit s') \<le> Suc (length (DirPathHashToCommit s))"
proof (cases "hash_find E k s")
  case None
  then have new: "cache E s k = None" by (simp add: hash_find_None_cache)
  let ?s1 = "enter_item E k v s"
  let ?s' = "?s1\<lparr>DirPathHashToCommit := DirPathHashToCommit ?s1 @ [ActionA k]\<rparr>"
  have "enter_loop E k mode v s = Some (Inr True, ?s')"
    unfolding enter_loop_def using None room [OF new]
    by (subst entry_loop.simps) (simp add: op_bind_def DirPathHashToCommitAddEntry_def)
  moreover have "cache E ?s' = cache E ?s1" by (rule cache_same_parts) simp
  ultimately show ?thesis using enter_item_cache(2) [OF wf new, of v] new by simp
next
  case (Some item)
  then have c: "cache E s k = Some DIR_HASH_TABLE_PATH_UNKNOWN"
    using unknown by (simp add: cached_id_def cache_def)
  then have "enter_loop E k mode v s = Some (Inr True, write_item E k (\<lambda>i. i\<lparr>item_inodeId := v\<rparr>) s)"
    unfolding enter_loop_def using Some by (subst entry_loop.simps) (simp add: cache_def)
  then show ?thesis using c by (simp add: cache_write_inodeId)
qed

section \<open>Coherence with the table\<close>

abbreviation committed :: "dir_state \<Rightarrow> DirPathHashKey \<rightharpoonup> u64" where
  "committed s \<equiv> map_of (h_base (directory_table s))"

abbreviation written :: "dir_state \<Rightarrow> DirPathHashKey \<rightharpoonup> u64" where
  "written s \<equiv> map_of (h_now (directory_table s))"

definition coherent :: "dir_env \<Rightarrow> dir_state \<Rightarrow> bool" where
  "coherent E s \<longleftrightarrow> (\<forall>k v. cache E s k = Some v \<longrightarrow>
     v = DIR_HASH_TABLE_PATH_UNKNOWN \<or> v = table_id (committed s) k)"

text \<open>
  The updates remembered for commit are exactly how the transaction's table differs from the
  committed one.
\<close>

definition updates_mirror_table :: "dir_state \<Rightarrow> bool" where
  "updates_mirror_table s \<longleftrightarrow> (\<forall>k. table_id (written s) k =
     (case map_of (rev (updates (DirPathHashToCommit s))) k of None \<Rightarrow> table_id (committed s) k | Some v \<Rightarrow> v))"

text \<open>The transaction has not yet made a change of its own visible at this key.\<close>

definition unchanged_view :: "DirPathHashKey \<Rightarrow> dir_state \<Rightarrow> bool" where
  "unchanged_view k s \<longleftrightarrow> map_of (h_seen (directory_table s)) k = committed s k"

lemma coherent_cache_step:
  assumes "coherent E s" "cache_step E k v s s'"
    and "v = DIR_HASH_TABLE_PATH_UNKNOWN \<or> v = table_id (committed s) k"
  shows "coherent E s'"
  using assms unfolding coherent_def cache_step_def by (metis option.distinct(1) option.inject)

lemma mirror_cong:
  assumes "directory_table s' = directory_table s"
    "updates (DirPathHashToCommit s') = updates (DirPathHashToCommit s)"
  shows "updates_mirror_table s' = updates_mirror_table s"
  by (simp only: updates_mirror_table_def assms)

lemma mirror_cache_step:
  "updates_mirror_table s \<Longrightarrow> cache_step E k v s s' \<Longrightarrow> updates_mirror_table s'"
  using mirror_cong [of s' s] by (simp add: cache_step_def)

lemma lock_item_step:
  assumes "lock_item E k mode s = Returns (r, s')" "dir_wf E s"
  shows "cache_step E k v s s'"
  using lock_item_cache [OF assms(1)] lock_item_parts [OF assms(1)] assms(2) by (simp add: cache_step_def)

text \<open>A lookup whatever its outcome: the cache stays a cache, and a result is the table's.\<close>

lemma Search_post:
  assumes "SearchDirectoryByDirectoryHashTable E pid name mode s = Returns (r, s')"
    and E: "scan_complete E" and wf: "dir_wf E s"
  defines "k \<equiv> (pid, name)"
  defines "v \<equiv> SearchDirectoryTableInfo (directory_table s) k"
  shows "cache_step E k v s s'
     \<and> (\<forall>x. r = Inr x \<longrightarrow> x = (if cached_id E k s = DIR_HASH_TABLE_PATH_UNKNOWN then v else cached_id E k s))"
proof (cases "cached_id E k s = DIR_HASH_TABLE_PATH_UNKNOWN")
  case True
  have run: "exec_bind (exec_loop (enter_loop E k mode v)) (\<lambda>have_item.
      if \<not> have_item then exec_return v
      else exec_bind (lock_item E k mode) (\<lambda>_. exec_gets (cached_id E k))) s = Returns (r, s')"
    using assms(1) True unfolding SearchDirectoryByDirectoryHashTable_def k_def v_def
    by (auto simp: exec_bind_def key_copy_def Let_def split: if_splits)
  then obtain r1 s1 where e: "enter_loop E k mode v s = Some (r1, s1)"
    by (auto simp: exec_bind_def exec_loop_def split: option.splits)
  note post = enter_loop_post [OF e E wf]
  have step1: "cache_step E k v s s1" using post by (simp add: enter_post_def)
  have wf1: "dir_wf E s1" using step1 by (simp add: cache_step_def)
  show ?thesis
  proof (cases r1)
    case (Inl err)
    then show ?thesis using run e step1 by (auto simp: exec_bind_def exec_loop_def)
  next
    case (Inr b)
    show ?thesis
    proof (cases b)
      case False
      then show ?thesis using run e step1 Inr True by (auto simp: exec_bind_def exec_loop_def)
    next
      case b: True
      then have "exec_bind (lock_item E k mode) (\<lambda>_. exec_gets (cached_id E k)) s1 = Returns (r, s')"
        using run e Inr by (simp add: exec_bind_def exec_loop_def)
      then show ?thesis
      proof (cases rule: exec_bind_Returns)
        case (error err)
        then show ?thesis
          using cache_step_trans [OF step1 lock_item_step [OF error(1) wf1]] by simp
      next
        case (ok x s2)
        then have "s' = s2" "r = Inr (cached_id E k s2)" by auto
        then show ?thesis
          using cache_step_trans [OF step1 lock_item_step [OF ok(1) wf1]] post Inr b True
            lock_item_cache(1) [OF ok(1)]
          by (simp add: enter_post_def cached_id_cache)
      qed
    qed
  qed
next
  case False
  then have "exec_bind (lock_item E k mode) (\<lambda>_. exec_gets (cached_id E k)) s = Returns (r, s')"
    using assms(1) unfolding SearchDirectoryByDirectoryHashTable_def k_def
    by (auto simp: exec_bind_def key_copy_def Let_def split: if_splits)
  then show ?thesis
  proof (cases rule: exec_bind_Returns)
    case (error err)
    then show ?thesis using lock_item_step [OF error(1) wf] by simp
  next
    case (ok x s2)
    then have "s' = s2" "r = Inr (cached_id E k s2)" by auto
    then show ?thesis using lock_item_step [OF ok(1) wf] lock_item_cache(1) [OF ok(1)] False
      by (simp add: cached_id_cache)
  qed
qed

text \<open>A lookup that finds room and a free lock, with everything it does.\<close>

lemma Search_ok:
  assumes E: "scan_complete E" and wf: "dir_wf E s" and coh: "coherent E s"
    and view: "unchanged_view (pid, name) s"
    and name: "length name < MAX_DIRECTORY_PATH_HASH_SIZE"
    and room: "cache E s (pid, name) = None \<longrightarrow>
        \<not> enter_fails E (PathDirHash s (partition_index E (pid, name)))
        \<and> length (DirPathHashToCommit s) < MAX_DIRECTORY_HASH_TO_COMMIT_ACTION_LENGTH"
    and held: "length (held_rwlocks (dir_locks s)) + 2 \<le> MAX_SIMUL_RWLOCKS"
    and admits: "lock_admits mode (if cache E s (pid, name) = None then 0 else rw_state (dir_locks s) (pid, name))"
  shows "\<exists>s' words. SearchDirectoryByDirectoryHashTable E pid name mode s
       = Returns (Inr (table_id (committed s) (pid, name)), s')
     \<and> cache_step E (pid, name) (table_id (committed s) (pid, name)) s s'
     \<and> held_rwlocks (dir_locks s') = held_rwlocks (dir_locks s) @ lock_entries (pid, name) mode
     \<and> words \<in> {rw_state (dir_locks s), (rw_state (dir_locks s))((pid, name) := 0)}
     \<and> rw_state (dir_locks s') = locked_words (pid, name) mode words
     \<and> length (DirPathHashToCommit s') \<le> Suc (length (DirPathHashToCommit s))"
proof -
  let ?k = "(pid, name)"
  let ?v = "SearchDirectoryTableInfo (directory_table s) ?k" and ?w = "rw_state (dir_locks s)"
  let ?post = "\<lambda>s' words. held_rwlocks (dir_locks s') = held_rwlocks (dir_locks s) @ lock_entries ?k mode
     \<and> words \<in> {?w, ?w(?k := 0)} \<and> rw_state (dir_locks s') = locked_words ?k mode words
     \<and> length (DirPathHashToCommit s') \<le> Suc (length (DirPathHashToCommit s))"
  have v: "?v = table_id (committed s) ?k"
    using view by (simp add: SearchDirectoryTableInfo_eq unchanged_view_def table_id_def)
  have "\<exists>s' r words. SearchDirectoryByDirectoryHashTable E pid name mode s = Returns (Inr r, s') \<and> ?post s' words"
  proof (cases "cached_id E ?k s = DIR_HASH_TABLE_PATH_UNKNOWN")
    case True
    obtain s1 where s1: "enter_loop E ?k mode ?v s = Some (Inr True, s1)"
      "held_rwlocks (dir_locks s1) = held_rwlocks (dir_locks s)"
      "rw_state (dir_locks s1) = (if cache E s ?k = None then ?w(?k := 0) else ?w)"
      "length (DirPathHashToCommit s1) \<le> Suc (length (DirPathHashToCommit s))"
      using enter_loop_ok [OF wf True] room by metis
    have "lock_admits mode (rw_state (dir_locks s1) ?k)" using admits s1(3) by (auto split: if_splits)
    then obtain s2 where l: "lock_item E ?k mode s1 = Returns (Inr (), s2)"
      "held_rwlocks (dir_locks s2) = held_rwlocks (dir_locks s1) @ lock_entries ?k mode"
      "rw_state (dir_locks s2) = locked_words ?k mode (rw_state (dir_locks s1))"
      using lock_item_ok [of mode s1 ?k E] held s1(2) by auto
    have "SearchDirectoryByDirectoryHashTable E pid name mode s = Returns (Inr (cached_id E ?k s2), s2)"
      using l(1) s1(1) True name
      by (simp add: SearchDirectoryByDirectoryHashTable_def exec_bind_def key_copy_def exec_loop_def Let_def)
    moreover have "?post s2 (rw_state (dir_locks s1))"
      using l s1 lock_item_parts(3) [OF l(1)] by (auto split: if_splits)
    ultimately show ?thesis by blast
  next
    case False
    then have "cache E s ?k \<noteq> None" by (cases "cache E s ?k") (simp_all add: cached_id_cache)
    then obtain s2 where l: "lock_item E ?k mode s = Returns (Inr (), s2)"
      "held_rwlocks (dir_locks s2) = held_rwlocks (dir_locks s) @ lock_entries ?k mode"
      "rw_state (dir_locks s2) = locked_words ?k mode (rw_state (dir_locks s))"
      using lock_item_ok [of mode s ?k E] held admits by auto
    then have "SearchDirectoryByDirectoryHashTable E pid name mode s = Returns (Inr (cached_id E ?k s2), s2)"
      using False name by (simp add: SearchDirectoryByDirectoryHashTable_def exec_bind_def key_copy_def Let_def)
    moreover have "?post s2 ?w" using l lock_item_parts(3) [OF l(1)] by auto
    ultimately show ?thesis by blast
  qed
  then obtain s' r words where run: "SearchDirectoryByDirectoryHashTable E pid name mode s = Returns (Inr r, s')"
    and post: "?post s' words" by blast
  have step: "cache_step E ?k ?v s s'"
    and r: "r = (if cached_id E ?k s = DIR_HASH_TABLE_PATH_UNKNOWN then ?v else cached_id E ?k s)"
    using Search_post [OF run E wf] by simp_all
  have "r = table_id (committed s) ?k"
    using r v coh by (auto simp: coherent_def cached_id_cache split: option.splits if_splits)
  then show ?thesis using run step post unfolding v by blast
qed

text \<open>
  C38: Looking a directory up gives exactly what the committed directory table says, \<^verbatim>\<open>-1\<close> when the
  table has no such row, whether or not the answer was cached; it leaves the cache coherent and the
  table alone, and it holds the lock of the entry in the requested mode. This needs a short enough
  name, room for a new entry when there is none yet, and a lock that is free for the mode.
\<close>

theorem search_returns_directory:
  assumes E: "scan_complete E" and wf: "dir_wf E s" and coh: "coherent E s"
    and view: "unchanged_view (pid, name) s"
    and name: "length name < MAX_DIRECTORY_PATH_HASH_SIZE"
    and room: "cache E s (pid, name) = None \<longrightarrow>
        \<not> enter_fails E (PathDirHash s (partition_index E (pid, name)))
        \<and> length (DirPathHashToCommit s) < MAX_DIRECTORY_HASH_TO_COMMIT_ACTION_LENGTH"
    and held: "length (held_rwlocks (dir_locks s)) + 2 \<le> MAX_SIMUL_RWLOCKS"
    and admits: "lock_admits mode (if cache E s (pid, name) = None then 0 else rw_state (dir_locks s) (pid, name))"
  shows "\<exists>s'. SearchDirectoryByDirectoryHashTable E pid name mode s
       = Returns (Inr (table_id (committed s) (pid, name)), s')
     \<and> coherent E s' \<and> directory_table s' = directory_table s
     \<and> held_rwlocks (dir_locks s') = held_rwlocks (dir_locks s) @ lock_entries (pid, name) mode"
  using Search_ok [OF assms] coherent_cache_step [OF coh] by (fastforce simp: cache_step_def)

section \<open>Changing the directory\<close>

lemma InsertIntoDirectoryTable_post:
  assumes "InsertIntoDirectoryTable k i s = (r, s')"
  shows "PathDirHash s' = PathDirHash s" "PathDirHashEntryCount s' = PathDirHashEntryCount s"
    "DirPathHashToCommit s' = DirPathHashToCommit s" "committed s' = committed s"
    "r = Inr () \<Longrightarrow> written s' = (written s)(k \<mapsto> i)"
proof -
  obtain r' t where t: "heap_insert k i (directory_table s) = (r', t)" by fastforce
  then have s': "s' = s\<lparr>directory_table := t\<rparr>" "r = r'" using assms by (simp_all add: InsertIntoDirectoryTable_def)
  show "PathDirHash s' = PathDirHash s" "PathDirHashEntryCount s' = PathDirHashEntryCount s"
    "DirPathHashToCommit s' = DirPathHashToCommit s" by (simp_all add: s')
  show "committed s' = committed s"
    using t s' by (cases r') (auto dest: heap_fail_unchanged(1) heap_insert_Inr(3))
  show "written s' = (written s)(k \<mapsto> i)" if "r = Inr ()"
    using t s' that heap_insert_Inr(2) by auto
qed

lemma DeleteFromDirectoryTable_post:
  assumes "DeleteFromDirectoryTable k s = (r, s')"
  shows "PathDirHash s' = PathDirHash s" "PathDirHashEntryCount s' = PathDirHashEntryCount s"
    "DirPathHashToCommit s' = DirPathHashToCommit s" "committed s' = committed s"
    "r = Inr () \<Longrightarrow> written s' = (written s)(k := None)"
proof -
  obtain r' t where t: "heap_delete k (directory_table s) = (r', t)" by fastforce
  have s': "s' = s \<and> r \<noteq> Inr () \<or> s' = s\<lparr>directory_table := t\<rparr> \<and> r = r'"
    using assms t by (auto simp: DeleteFromDirectoryTable_def split: option.splits)
  show "PathDirHash s' = PathDirHash s" "PathDirHashEntryCount s' = PathDirHashEntryCount s"
    "DirPathHashToCommit s' = DirPathHashToCommit s" using s' by auto
  show "committed s' = committed s"
    using t s' by (cases r') (auto dest: heap_fail_unchanged(2) heap_delete_Inr(2))
  show "written s' = (written s)(k := None)" if "r = Inr ()"
    using t s' that heap_delete_Inr(1) by auto
qed

lemmas table_write_post = InsertIntoDirectoryTable_post DeleteFromDirectoryTable_post

text \<open>
  The common end of insertion and deletion: take the lock, write the table, remember the update.
\<close>

definition changed :: "dir_env \<Rightarrow> DirPathHashKey \<Rightarrow> u64 \<Rightarrow> u64 option \<Rightarrow> u64 \<Rightarrow> dir_state \<Rightarrow> dir_state \<Rightarrow> bool \<Rightarrow> bool" where
  "changed E k v row i s s' done \<longleftrightarrow> dir_wf E s' \<and> committed s' = committed s
     \<and> (\<exists>s1. cache_step E k v s s1 \<and> cache E s' = cache E s1)
     \<and> (done \<longrightarrow> written s' = (written s)(k := row)
          \<and> updates (DirPathHashToCommit s') = updates (DirPathHashToCommit s) @ [(k, i)])"

lemma changed_idle: "dir_wf E s \<Longrightarrow> \<not> done \<Longrightarrow> changed E k v row i s s done"
  using cache_step_refl [of E s k v] unfolding changed_def by blast

lemma lock_and_write:
  assumes run: "exec_bind (lock_item E k mode) (\<lambda>_. exec_bind (exec_op put) (\<lambda>_.
        exec_op (DirPathHashToCommitUpdateEntry k i))) s1 = Returns (r, s')"
    and step: "cache_step E k v s s1"
    and put: "\<And>s r s'. put s = (r, s') \<Longrightarrow> PathDirHash s' = PathDirHash s
      \<and> PathDirHashEntryCount s' = PathDirHashEntryCount s \<and> DirPathHashToCommit s' = DirPathHashToCommit s
      \<and> committed s' = committed s \<and> (r = Inr () \<longrightarrow> written s' = (written s)(k := row))"
  shows "changed E k v row i s s' (r = Inr ())"
proof -
  have wf1: "dir_wf E s1" and t1: "directory_table s1 = directory_table s"
    "updates (DirPathHashToCommit s1) = updates (DirPathHashToCommit s)"
    using step by (simp_all add: cache_step_def)
  from run show ?thesis
  proof (cases rule: exec_bind_Returns)
    case (error e)
    then show ?thesis using cache_step_trans [OF step lock_item_step [OF error(1) wf1]]
      by (auto simp: changed_def cache_step_def)
  next
    case (ok u s2)
    note st2 = cache_step_trans [OF step lock_item_step [OF ok(1) wf1]]
    obtain r3 s3 where w: "put s2 = (r3, s3)" by fastforce
    note w3 = put [OF w]
    have c3: "cache E s3 = cache E s2" "dir_wf E s3 = dir_wf E s2"
      using w3 cache_same_parts [of s3 s2] dir_wf_same_parts [of s3 s2] by simp_all
    have wf2: "dir_wf E s2" "committed s2 = committed s" "written s2 = written s"
      "updates (DirPathHashToCommit s2) = updates (DirPathHashToCommit s)"
      using st2 by (simp_all add: cache_step_def)
    show ?thesis
    proof (cases r3)
      case (Inl e)
      then have "s' = s3" "r = Inl e" using ok(2) w by auto
      then show ?thesis using st2 c3 wf2 w3 by (auto simp: changed_def)
    next
      case (Inr u3)
      then have u: "DirPathHashToCommitUpdateEntry k i s3 = (r, s')" using ok(2) w by simp
      have "PathDirHash s' = PathDirHash s3" "PathDirHashEntryCount s' = PathDirHashEntryCount s3"
        "directory_table s' = directory_table s3"
        "r = Inr () \<longrightarrow> DirPathHashToCommit s' = DirPathHashToCommit s3 @ [ActionU k i]"
        using u by (auto simp: DirPathHashToCommitUpdateEntry_def split: if_splits)
      moreover from this have "cache E s' = cache E s3" "dir_wf E s' = dir_wf E s3"
        using cache_same_parts [of s' s3] dir_wf_same_parts [of s' s3] by simp_all
      ultimately show ?thesis using st2 c3 wf2 w3 Inr by (auto simp: changed_def)
    qed
  qed
qed

lemma enter_and_write:
  assumes run: "exec_bind (exec_loop loop) (\<lambda>have_item. if \<not> have_item then plain
      else exec_bind (lock_item E k mode) (\<lambda>_. exec_bind (exec_op put) (\<lambda>_.
        exec_op (DirPathHashToCommitUpdateEntry k i)))) s = Returns (r, s')"
    and loop: "\<And>q s1. loop s = Some (q, s1) \<Longrightarrow> enter_post Q E k v mode s q s1"
    and entry: "mode \<noteq> DIR_LOCK_NONE \<or> cache E s k \<noteq> None"
    and put: "\<And>s r s'. put s = (r, s') \<Longrightarrow> PathDirHash s' = PathDirHash s
      \<and> PathDirHashEntryCount s' = PathDirHashEntryCount s \<and> DirPathHashToCommit s' = DirPathHashToCommit s
      \<and> committed s' = committed s \<and> (r = Inr () \<longrightarrow> written s' = (written s)(k := row))"
  shows "changed E k v row i s s' (r = Inr ())"
  using run
proof (cases rule: exec_bind_Returns)
  case (error e)
  then have "loop s = Some (Inl e, s')" by (simp add: exec_loop_def split: option.splits)
  from loop [OF this] show ?thesis using error(2) by (auto simp: changed_def enter_post_def cache_step_def)
next
  case (ok b s1)
  then have "loop s = Some (Inr b, s1)" by (simp add: exec_loop_def split: option.splits)
  note post = loop [OF this]
  have step: "cache_step E k v s s1" using post by (simp add: enter_post_def)
  have b using post entry by (cases b) (auto simp: enter_post_def)
  then show ?thesis using ok(2) by (intro lock_and_write [OF _ step put]) simp
qed

lemma Insert_changed:
  assumes run: "InsertDirectoryByDirectoryHashTable E pid name i mode s = Returns (r, s')"
    and E: "scan_complete E" and wf: "dir_wf E s"
    and entry: "mode \<noteq> DIR_LOCK_NONE \<or> cache E s (pid, name) \<noteq> None"
  shows "changed E (pid, name) (SearchDirectoryTableInfo (directory_table s) (pid, name))
           (Some i) i s s' (r = Inr ())"
proof -
  let ?k = "(pid, name)"
  let ?v = "SearchDirectoryTableInfo (directory_table s) ?k"
  let ?put = "InsertIntoDirectoryTable ?k i"
  have put: "PathDirHash t' = PathDirHash t \<and> PathDirHashEntryCount t' = PathDirHashEntryCount t
      \<and> DirPathHashToCommit t' = DirPathHashToCommit t \<and> committed t' = committed t
      \<and> (q = Inr () \<longrightarrow> written t' = (written t)(?k := Some i))" if "?put t = (q, t')" for t q t'
    using InsertIntoDirectoryTable_post [OF that] by simp
  note unfold = InsertDirectoryByDirectoryHashTable_def exec_bind_def key_copy_def Let_def
  show ?thesis
  proof (cases "cached_id E ?k s = DIR_HASH_TABLE_PATH_UNKNOWN")
    case False
    then have "exec_bind (lock_item E ?k mode) (\<lambda>_. exec_bind (exec_op ?put) (\<lambda>_.
        exec_op (DirPathHashToCommitUpdateEntry ?k i))) s = Returns (r, s')"
      using run by (auto simp: unfold split: if_splits)
    then show ?thesis by (rule lock_and_write [OF _ cache_step_refl [OF wf] put])
  next
    case True
    show ?thesis
    proof (cases "?v = DIR_HASH_TABLE_PATH_NOT_EXIST")
      case False
      then show ?thesis using run True changed_idle [OF wf] by (auto simp: unfold split: if_splits)
    next
      case v: True
      then have "exec_bind (exec_loop (enter_loop E ?k mode ?v)) (\<lambda>have_item.
          if \<not> have_item then exec_op ?put
          else exec_bind (lock_item E ?k mode) (\<lambda>_. exec_bind (exec_op ?put) (\<lambda>_.
            exec_op (DirPathHashToCommitUpdateEntry ?k i)))) s = Returns (r, s')"
        using run True by (auto simp: unfold split: if_splits)
      then show ?thesis by (rule enter_and_write [OF _ enter_loop_post [OF _ E wf] entry put])
    qed
  qed
qed

lemma Delete_changed:
  assumes run: "DeleteDirectoryByDirectoryHashTable E pid name mode s = Returns (r, s')"
    and E: "scan_complete E" and wf: "dir_wf E s"
    and entry: "mode \<noteq> DIR_LOCK_NONE \<or> cache E s (pid, name) \<noteq> None"
  shows "changed E (pid, name) DIR_HASH_TABLE_PATH_UNKNOWN None DIR_HASH_TABLE_PATH_NOT_EXIST s s' (r = Inr ())"
proof -
  let ?k = "(pid, name)"
  let ?put = "DeleteFromDirectoryTable ?k"
  have put: "PathDirHash t' = PathDirHash t \<and> PathDirHashEntryCount t' = PathDirHashEntryCount t
      \<and> DirPathHashToCommit t' = DirPathHashToCommit t \<and> committed t' = committed t
      \<and> (q = Inr () \<longrightarrow> written t' = (written t)(?k := None))" if "?put t = (q, t')" for t q t'
    using DeleteFromDirectoryTable_post [OF that] by simp
  note unfold = DeleteDirectoryByDirectoryHashTable_def exec_bind_def key_copy_def Let_def
  show ?thesis
  proof (cases "mode = DIR_LOCK_SHARED")
    case True
    then have "s' = s" "r \<noteq> Inr ()" using run by (auto simp: unfold)
    then show ?thesis using changed_idle [OF wf] by simp
  next
    case mode: False
    show ?thesis
    proof (cases "hash_find E ?k s = None")
      case False
      then have "exec_bind (lock_item E ?k mode) (\<lambda>_. exec_bind (exec_op ?put) (\<lambda>_.
          exec_op (DirPathHashToCommitUpdateEntry ?k DIR_HASH_TABLE_PATH_NOT_EXIST))) s = Returns (r, s')"
        using run mode by (auto simp: unfold split: if_splits)
      then show ?thesis by (rule lock_and_write [OF _ cache_step_refl [OF wf] put])
    next
      case True
      then have "exec_bind (exec_loop (delete_enter_loop E ?k mode)) (\<lambda>have_item.
          if \<not> have_item then exec_op ?put
          else exec_bind (lock_item E ?k mode) (\<lambda>_. exec_bind (exec_op ?put) (\<lambda>_.
            exec_op (DirPathHashToCommitUpdateEntry ?k DIR_HASH_TABLE_PATH_NOT_EXIST)))) s = Returns (r, s')"
        using run mode by (auto simp: unfold split: if_splits)
      then show ?thesis by (rule enter_and_write [OF _ delete_enter_loop_post [OF _ E wf] entry put])
    qed
  qed
qed

section \<open>Committing\<close>

declare split_paired_All [simp del] split_paired_Ex [simp del]

text \<open>While the remembered actions are applied, only entries still to be updated may be off.\<close>

definition settling :: "dir_env \<Rightarrow> (DirPathHashKey \<times> u64) list \<Rightarrow> dir_state \<Rightarrow> bool" where
  "settling E us s \<longleftrightarrow> dir_wf E s
     \<and> (\<forall>k v. cache E s k = Some v \<longrightarrow>
          v = DIR_HASH_TABLE_PATH_UNKNOWN \<or> v = table_id (committed s) k \<or> k \<in> fst ` set us)
     \<and> (\<forall>k v. map_of (rev us) k = Some v \<longrightarrow> v = table_id (committed s) k)"

lemma commit_one_A:
  assumes "scan_complete E" "settling E us s"
  shows "\<exists>s'. commit_one E (ActionA k) s = Some s' \<and> settling E us s' \<and> directory_table s' = directory_table s"
proof -
  have wf: "dir_wf E s" using assms(2) by (simp add: settling_def)
  obtain b s' where e: "EliminateDirPathHashByLRU E (partition_index E k) s = Some (b, s')"
    "dir_wf E s'" "cache E s' \<subseteq>\<^sub>m cache E s" "directory_table s' = directory_table s"
    using Eliminate_cache [OF assms(1) wf] by blast
  have "cache E s k' = Some v" if "cache E s' k' = Some v" for k' v
    using e(3) that unfolding map_le_def by (metis domI)
  then show ?thesis using e assms(2) by (auto simp: commit_one_def settling_def)
qed

lemma commit_one_U:
  assumes "settling E ((k, i) # us) s"
  shows "\<exists>s'. commit_one E (ActionU k i) s = Some s' \<and> settling E us s' \<and> directory_table s' = directory_table s"
proof -
  have wf: "dir_wf E s" using assms by (simp add: settling_def)
  obtain s' where s': "commit_one E (ActionU k i) s = Some s'" "dir_wf E s'"
    "directory_table s' = directory_table s"
    "cache E s' = (cache E s)(k \<mapsto> i) \<or> cache E s k = None \<and> cache E s' = cache E s"
  proof (cases "hash_find E k s")
    case (Some item)
    then have "commit_one E (ActionU k i) s = Some (write_item E k (\<lambda>j. j\<lparr>item_inodeId := i\<rparr>) s)"
      by (simp add: commit_one_def Let_def)
    moreover have "cache E (write_item E k (\<lambda>j. j\<lparr>item_inodeId := i\<rparr>) s) = (cache E s)(k \<mapsto> i)"
      using Some by (simp add: cache_write_inodeId) (simp add: cache_def)
    ultimately show ?thesis using that wf by (simp add: dir_wf_write_item)
  next
    case None
    then have new: "cache E s k = None" by (simp add: cache_def)
    show ?thesis
    proof (cases "enter_fails E (PathDirHash s (partition_index E k))")
      case True
      then have "commit_one E (ActionU k i) s = Some s"
        using None by (simp add: commit_one_def Let_def)
      then show ?thesis using that wf new by simp
    next
      case False
      let ?p = "partition_index E k"
      let ?s1 = "set_partition ?p (PathDirHash s ?p @
          [\<lparr>item_key = k, item_inodeId = i, usageCount = snd (recycled E s)\<rparr>]) s"
      let ?s' = "set_lock_word k (fst (recycled E s))
          (?s1\<lparr>PathDirHashEntryCount := (PathDirHashEntryCount ?s1)(?p := PathDirHashEntryCount ?s1 ?p + 1)\<rparr>)"
      have "commit_one E (ActionU k i) s = Some ?s'"
        using None False by (simp add: commit_one_def Let_def split: prod.split)
      moreover have "dir_wf E ?s'" "cache E ?s' = (cache E s)(k \<mapsto> i)"
        by (rule appended_entry [OF wf new refl]; simp)+
      ultimately show ?thesis by (intro that [of ?s']) simp_all
    qed
  qed
  have last: "v = table_id (committed s) k'" if "map_of (rev us) k' = Some v" for k' v
    using assms that by (simp add: settling_def map_add_def)
  have i: "i = table_id (committed s) k" if "k \<notin> fst ` set us"
  proof -
    have "map_of (rev us) k = None" using that by (simp add: map_of_eq_None_iff)
    then have "map_of (rev ((k, i) # us)) k = Some i" by (simp add: map_add_def)
    then show ?thesis using assms unfolding settling_def by blast
  qed
  have "v = DIR_HASH_TABLE_PATH_UNKNOWN \<or> v = table_id (committed s) x \<or> x \<in> fst ` set us"
    if "cache E s' x = Some v" for x v
  proof (cases "x = k")
    case True
    then show ?thesis using s'(4) i that by auto
  next
    case False
    then have "cache E s x = Some v" using s'(4) that by auto
    then show ?thesis using assms False unfolding settling_def by fastforce
  qed
  then have "settling E us s'" using s'(2,3) last unfolding settling_def by simp
  then show ?thesis using s' by blast
qed

lemma commit_actions_settle:
  "scan_complete E \<Longrightarrow> settling E (updates as) s \<Longrightarrow>
   \<exists>s'. commit_actions E as s = Some s' \<and> settling E [] s' \<and> directory_table s' = directory_table s"
proof (induction as arbitrary: s)
  case (Cons a as)
  have "\<exists>s1. commit_one E a s = Some s1 \<and> settling E (updates as) s1 \<and> directory_table s1 = directory_table s"
    using Cons.prems by (cases a) (auto intro: commit_one_A commit_one_U)
  then obtain s1 where s1: "commit_one E a s = Some s1" "settling E (updates as) s1"
    "directory_table s1 = directory_table s" by blast
  then show ?case using Cons.IH [OF Cons.prems(1) s1(2)] by auto
qed simp

section \<open>The cache implements the directory\<close>

text \<open>
  What a transaction is promised: a directory it looks up in, whose changes take effect at commit.
\<close>

record directory_txn =
  dt_committed :: "DirPathHashKey \<rightharpoonup> u64"
  dt_written :: "DirPathHashKey \<rightharpoonup> u64"

definition spec_lookup :: "DirPathHashKey \<Rightarrow> directory_txn \<Rightarrow> u64" where
  "spec_lookup k d = table_id (dt_committed d) k"

definition spec_put :: "DirPathHashKey \<Rightarrow> u64 option \<Rightarrow> directory_txn \<Rightarrow> directory_txn" where
  "spec_put k row d = d\<lparr>dt_written := (dt_written d)(k := row)\<rparr>"

definition spec_commit :: "directory_txn \<Rightarrow> directory_txn" where
  "spec_commit d = d\<lparr>dt_committed := dt_written d\<rparr>"

definition spec_abort :: "directory_txn \<Rightarrow> directory_txn" where
  "spec_abort d = d\<lparr>dt_written := dt_committed d\<rparr>"

definition abs_dir :: "dir_state \<Rightarrow> directory_txn" where
  "abs_dir s = \<lparr>dt_committed = committed s, dt_written = written s\<rparr>"

text \<open>
  The end of a transaction as the transaction callback sees it: the server has committed or rolled
  back the table before the callback brings the cache up to date.
\<close>

definition end_commit :: "dir_env \<Rightarrow> dir_state \<Rightarrow> dir_state option" where
  "end_commit E s = CommitForDirPathHash E (s\<lparr>directory_table := heap_commit (directory_table s)\<rparr>)"

definition end_abort :: "dir_state \<Rightarrow> dir_state" where
  "end_abort s = AbortForDirPathHash (s\<lparr>directory_table := heap_abort (directory_table s)\<rparr>)"

definition cache_ok :: "dir_env \<Rightarrow> dir_state \<Rightarrow> bool" where
  "cache_ok E s \<longleftrightarrow> scan_complete E \<and> dir_wf E s \<and> coherent E s"

definition dir_inv :: "dir_env \<Rightarrow> dir_state \<Rightarrow> bool" where
  "dir_inv E s \<longleftrightarrow> cache_ok E s \<and> updates_mirror_table s"

lemma seen_value: "unchanged_view k s \<Longrightarrow> SearchDirectoryTableInfo (directory_table s) k = table_id (committed s) k"
  by (simp add: SearchDirectoryTableInfo_eq unchanged_view_def table_id_def)

lemma Search_refines:
  assumes "SearchDirectoryByDirectoryHashTable E pid name mode s = Returns (r, s')"
    and "cache_ok E s" and "unchanged_view (pid, name) s"
  shows "cache_ok E s' \<and> directory_table s' = directory_table s
     \<and> updates (DirPathHashToCommit s') = updates (DirPathHashToCommit s)
     \<and> (\<forall>v. r = Inr v \<longrightarrow> v = table_id (committed s) (pid, name))"
proof -
  let ?k = "(pid, name)"
  have ok: "scan_complete E" "dir_wf E s" "coherent E s" using assms(2) by (simp_all add: cache_ok_def)
  note post = Search_post [OF assms(1) ok(1,2), unfolded seen_value [OF assms(3)]]
  have "coherent E s'" by (rule coherent_cache_step [OF ok(3)]) (use post in auto)
  moreover have "x = table_id (committed s) ?k"
    if "x = (if cached_id E ?k s = DIR_HASH_TABLE_PATH_UNKNOWN then table_id (committed s) ?k else cached_id E ?k s)" for x
    using that ok(3) by (auto simp: coherent_def cached_id_cache split: option.splits if_splits)
  ultimately show ?thesis using post ok(1) by (auto simp: cache_ok_def cache_step_def)
qed

lemma changed_refines:
  assumes "changed E k v row i s s' done" "cache_ok E s"
    and "v = DIR_HASH_TABLE_PATH_UNKNOWN \<or> v = table_id (committed s) k"
  shows "cache_ok E s' \<and> committed s' = committed s"
proof -
  obtain s1 where s1: "cache_step E k v s s1" "cache E s' = cache E s1"
    using assms(1) by (auto simp: changed_def)
  have "coherent E s1" using coherent_cache_step [OF _ s1(1) assms(3)] assms(2) by (simp add: cache_ok_def)
  then show ?thesis using s1 assms(1,2)
    by (simp add: cache_ok_def changed_def coherent_def cache_step_def)
qed

lemma changed_mirror:
  assumes "changed E k v row i s s' True" "updates_mirror_table s" "i = table_id (\<lambda>_. row) k"
  shows "updates_mirror_table s' \<and> written s' = (written s)(k := row)"
proof -
  have c: "written s' = (written s)(k := row)" "committed s' = committed s"
    "updates (DirPathHashToCommit s') = updates (DirPathHashToCommit s) @ [(k, i)]"
    using assms(1) by (simp_all add: changed_def)
  have "table_id (written s') x = (case map_of (rev (updates (DirPathHashToCommit s'))) x of
      None \<Rightarrow> table_id (committed s') x | Some v \<Rightarrow> v)" for x
  proof (cases "x = k")
    case True
    then show ?thesis unfolding c using assms(3) by (simp add: table_id_def)
  next
    case False
    then have "table_id (written s') x = table_id (written s) x" unfolding c by (simp add: table_id_def)
    then show ?thesis using assms(2) False unfolding c updates_mirror_table_def by simp
  qed
  then show ?thesis using c(1) unfolding updates_mirror_table_def by blast
qed

lemma commit_refines:
  assumes "dir_inv E s"
  shows "\<exists>s'. end_commit E s = Some s' \<and> dir_inv E s' \<and> DirPathHashToCommit s' = []
     \<and> directory_table s' = heap_commit (directory_table s)"
proof -
  let ?s = "s\<lparr>directory_table := heap_commit (directory_table s)\<rparr>"
  have ok: "scan_complete E" "dir_wf E s" "coherent E s" "updates_mirror_table s"
    using assms by (simp_all add: dir_inv_def cache_ok_def)
  have com: "committed ?s = written s" by (simp add: heap_commit_def)
  have "settling E (updates (DirPathHashToCommit s)) ?s" unfolding settling_def com
  proof (intro conjI allI impI)
    show "dir_wf E ?s" using ok(2) by (simp add: dir_wf_def)
    fix k v
    show "v = DIR_HASH_TABLE_PATH_UNKNOWN \<or> v = table_id (written s) k
        \<or> k \<in> fst ` set (updates (DirPathHashToCommit s))" if "cache E ?s k = Some v"
    proof (cases "map_of (rev (updates (DirPathHashToCommit s))) k")
      case None
      then have "table_id (written s) k = table_id (committed s) k"
        using ok(4) unfolding updates_mirror_table_def by simp
      moreover have "cache E s k = Some v" using that cache_same_parts [of ?s s] by simp
      ultimately show ?thesis using ok(3) unfolding coherent_def by auto
    next
      case (Some w)
      then show ?thesis by (metis domI dom_map_of_conv_image_fst set_rev)
    qed
    show "v = table_id (written s) k" if "map_of (rev (updates (DirPathHashToCommit s))) k = Some v"
      using ok(4) that unfolding updates_mirror_table_def by simp
  qed
  then obtain s1 where s1: "commit_actions E (DirPathHashToCommit s) ?s = Some s1" "settling E [] s1"
    "directory_table s1 = directory_table ?s" using commit_actions_settle [OF ok(1)] by blast
  let ?s' = "DirPathHashToCommitClear s1"
  have "end_commit E s = Some ?s'" using s1 by (simp add: end_commit_def CommitForDirPathHash_def)
  moreover have "cache E ?s' = cache E s1" "dir_wf E ?s' = dir_wf E s1"
    using cache_same_parts [of ?s' s1] dir_wf_same_parts [of ?s' s1] by (simp_all add: DirPathHashToCommitClear_def)
  moreover have "updates_mirror_table ?s'"
    using s1(3) by (simp add: updates_mirror_table_def DirPathHashToCommitClear_def heap_commit_def)
  ultimately show ?thesis using s1 ok(1)
    by (auto simp: dir_inv_def cache_ok_def settling_def coherent_def DirPathHashToCommitClear_def)
qed

lemma abort_refines:
  assumes "cache_ok E s"
  shows "dir_inv E (end_abort s) \<and> directory_table (end_abort s) = heap_abort (directory_table s)"
proof -
  have "cache E (end_abort s) = cache E s" "dir_wf E (end_abort s) = dir_wf E s"
    using cache_same_parts [of "end_abort s" s] dir_wf_same_parts [of "end_abort s" s]
    by (simp_all add: end_abort_def AbortForDirPathHash_def DirPathHashToCommitClear_def)
  moreover have "directory_table (end_abort s) = heap_abort (directory_table s)"
    "DirPathHashToCommit (end_abort s) = []"
    by (simp_all add: end_abort_def AbortForDirPathHash_def DirPathHashToCommitClear_def)
  ultimately show ?thesis using assms
    by (simp add: dir_inv_def cache_ok_def coherent_def updates_mirror_table_def heap_abort_def)
qed

text \<open>
  C1: The cached directory implements the transactional directory. A lookup answers from the committed
  directory and changes nothing; a successful insertion or deletion under the entry's lock (or of an
  entry already cached) writes exactly its key; commit makes the written directory the committed one and
  leaves the cache coherent with it; a failed operation leaves everything in a state from which abort
  restores the committed directory. Commit always ends.
\<close>

theorem cache_refines_directory:
  assumes inv: "dir_inv E s"
  shows "(\<forall>v s'. SearchDirectoryByDirectoryHashTable E pid name mode s = Returns (Inr v, s')
        \<longrightarrow> unchanged_view (pid, name) s
        \<longrightarrow> v = spec_lookup (pid, name) (abs_dir s) \<and> dir_inv E s' \<and> abs_dir s' = abs_dir s)
     \<and> (\<forall>s'. InsertDirectoryByDirectoryHashTable E pid name i mode s = Returns (Inr (), s')
        \<longrightarrow> unchanged_view (pid, name) s \<longrightarrow> mode \<noteq> DIR_LOCK_NONE \<or> cache E s (pid, name) \<noteq> None
        \<longrightarrow> dir_inv E s' \<and> abs_dir s' = spec_put (pid, name) (Some i) (abs_dir s))
     \<and> (\<forall>s'. DeleteDirectoryByDirectoryHashTable E pid name mode s = Returns (Inr (), s')
        \<longrightarrow> mode \<noteq> DIR_LOCK_NONE \<or> cache E s (pid, name) \<noteq> None
        \<longrightarrow> dir_inv E s' \<and> abs_dir s' = spec_put (pid, name) None (abs_dir s))
     \<and> (\<forall>e s'. InsertDirectoryByDirectoryHashTable E pid name i mode s = Returns (Inl e, s')
          \<or> DeleteDirectoryByDirectoryHashTable E pid name mode s = Returns (Inl e, s')
        \<longrightarrow> unchanged_view (pid, name) s \<longrightarrow> mode \<noteq> DIR_LOCK_NONE \<or> cache E s (pid, name) \<noteq> None
        \<longrightarrow> dir_inv E (end_abort s') \<and> abs_dir (end_abort s') = spec_abort (abs_dir s))
     \<and> (\<exists>s'. end_commit E s = Some s' \<and> dir_inv E s' \<and> abs_dir s' = spec_commit (abs_dir s))"
proof (intro conjI allI impI)
  have ok: "cache_ok E s" "scan_complete E" "dir_wf E s" "updates_mirror_table s"
    using inv by (simp_all add: dir_inv_def cache_ok_def)
  let ?k = "(pid, name)"
  { fix v s'
    assume "SearchDirectoryByDirectoryHashTable E pid name mode s = Returns (Inr v, s')" "unchanged_view ?k s"
    note post = Search_refines [OF this(1) ok(1) this(2)]
    show "v = spec_lookup ?k (abs_dir s)" using post by (simp add: spec_lookup_def abs_dir_def)
    show "dir_inv E s'" using post ok(4) mirror_cong [of s' s] by (simp add: dir_inv_def)
    show "abs_dir s' = abs_dir s" using post by (simp add: abs_dir_def)
  next
    fix s'
    assume run: "InsertDirectoryByDirectoryHashTable E pid name i mode s = Returns (Inr (), s')"
      and view: "unchanged_view ?k s" and entry: "mode \<noteq> DIR_LOCK_NONE \<or> cache E s ?k \<noteq> None"
    note ch = Insert_changed [OF run ok(2,3) entry, unfolded seen_value [OF view] simp_thms]
    have "updates_mirror_table s' \<and> written s' = (written s)(?k := Some i)"
      by (rule changed_mirror [OF ch ok(4)]) (simp add: table_id_def)
    then show "dir_inv E s'" "abs_dir s' = spec_put ?k (Some i) (abs_dir s)"
      using changed_refines [OF ch ok(1)] by (simp_all add: dir_inv_def abs_dir_def spec_put_def)
  next
    fix s'
    assume run: "DeleteDirectoryByDirectoryHashTable E pid name mode s = Returns (Inr (), s')"
      and entry: "mode \<noteq> DIR_LOCK_NONE \<or> cache E s ?k \<noteq> None"
    note ch = Delete_changed [OF run ok(2,3) entry, unfolded simp_thms]
    have "updates_mirror_table s' \<and> written s' = (written s)(?k := None)"
      by (rule changed_mirror [OF ch ok(4)]) (simp add: table_id_def)
    then show "dir_inv E s'" "abs_dir s' = spec_put ?k None (abs_dir s)"
      using changed_refines [OF ch ok(1)] by (simp_all add: dir_inv_def abs_dir_def spec_put_def)
  next
    fix e s'
    assume run: "InsertDirectoryByDirectoryHashTable E pid name i mode s = Returns (Inl e, s')
          \<or> DeleteDirectoryByDirectoryHashTable E pid name mode s = Returns (Inl e, s')"
      and view: "unchanged_view ?k s" and entry: "mode \<noteq> DIR_LOCK_NONE \<or> cache E s ?k \<noteq> None"
    have "cache_ok E s' \<and> committed s' = committed s"
      using run Insert_changed [OF _ ok(2,3) entry] Delete_changed [OF _ ok(2,3) entry]
        changed_refines [OF _ ok(1)] seen_value [OF view] by metis
    then show "dir_inv E (end_abort s')" "abs_dir (end_abort s') = spec_abort (abs_dir s)"
      using abort_refines [of E s'] by (simp_all add: abs_dir_def spec_abort_def heap_abort_def)
  next
    show "\<exists>s'. end_commit E s = Some s' \<and> dir_inv E s' \<and> abs_dir s' = spec_commit (abs_dir s)"
      using commit_refines [OF inv] by (auto simp: abs_dir_def spec_commit_def heap_commit_def)
  }
qed

section \<open>A concrete directory\<close>

definition small_env :: dir_env where
  "small_env = \<lparr>hash_any_extended = (\<lambda>name seed. seed), enter_fails = (\<lambda>items. length items \<ge> 16),
     hash_seq = (\<lambda>ks. ks), rand_skip = (\<lambda>n. 3), recycled = (\<lambda>s. (0, 0))\<rparr>"

definition small_dir :: dir_state where
  "small_dir = DirPathShmemInit [((0, ''/''), 1), ((1, ''a''), 7)]"

definition full_dir :: dir_state where
  "full_dir = (set_partition 0 (map (\<lambda>i. \<lparr>item_key = (of_nat (128 * i), ''d''), item_inodeId = 5, usageCount = 2\<rparr>) [0..<13])
     small_dir)\<lparr>PathDirHashEntryCount := (\<lambda>p. if p = 0 then 13 else 0)\<rparr>"

lemma small_env_scans: "scan_complete small_env"
  by (simp add: scan_complete_def small_env_def)

lemma small_dir_inv: "dir_inv small_env small_dir"
  using small_env_scans
  by (simp add: dir_inv_def cache_ok_def dir_wf_def coherent_def cache_def hash_find_def small_dir_def
      DirPathShmemInit_def find_item_def updates_mirror_table_def heap_of_def)

lemma small_dir_view: "unchanged_view k small_dir"
  by (simp add: unchanged_view_def small_dir_def DirPathShmemInit_def heap_of_def)

theorem eviction_spares_referenced_entries_witness:
  "\<exists>s'. EliminateDirPathHashByLRU small_env 0 full_dir = Some (True, s')
     \<and> length (PathDirHash s' 0) = 12 \<and> PathDirHashEntryCount s' 0 = 12"
proof -
  have keys: "map item_key (PathDirHash full_dir 0) = map (\<lambda>i. (of_nat (128 * i), ''d'')) [0..<13]"
    by (simp add: full_dir_def)
  have d: "distinct (map item_key (PathDirHash full_dir 0))" unfolding keys by code_simp
  have count: "PathDirHashEntryCount full_dir 0 = 13" by (simp add: full_dir_def)
  have free: "entry_destroyable full_dir k" for k
    by (simp add: entry_destroyable_def full_dir_def small_dir_def DirPathShmemInit_def
        RWLockCheckDestroyable_def RWLockInitialize_def)
  have len: "length (ident (PathDirHash full_dir 0)) = 13" by (simp add: full_dir_def ident_def)
  obtain b s' where e: "EliminateDirPathHashByLRU small_env 0 full_dir = Some (b, s')"
    and r: "if b then \<exists>k \<in> item_key ` set (PathDirHash full_dir 0). entry_destroyable full_dir k
              \<and> ident (PathDirHash s' 0) = filter (\<lambda>e. fst e \<noteq> k) (ident (PathDirHash full_dir 0))
              \<and> PathDirHashEntryCount s' = (PathDirHashEntryCount full_dir)(0 := PathDirHashEntryCount full_dir 0 - 1)
        else ident (PathDirHash s' 0) = ident (PathDirHash full_dir 0)
              \<and> PathDirHashEntryCount s' = PathDirHashEntryCount full_dir
              \<and> (PathDirHashEntryCount full_dir 0 \<le> 12
                 \<or> (\<forall>k \<in> item_key ` set (PathDirHash full_dir 0). \<not> entry_destroyable full_dir k))"
    using eviction_spares_referenced_entries [OF small_env_scans d] by blast
  have b using r count free keys by (auto split: if_splits simp: full_dir_def)
  then obtain k where k: "k \<in> fst ` set (ident (PathDirHash full_dir 0))"
    "ident (PathDirHash s' 0) = filter (\<lambda>e. fst e \<noteq> k) (ident (PathDirHash full_dir 0))"
    and c: "PathDirHashEntryCount s' = (PathDirHashEntryCount full_dir)(0 := PathDirHashEntryCount full_dir 0 - 1)"
    using r unfolding fst_set_ident by (simp only: if_True) blast
  have "distinct (map fst (ident (PathDirHash full_dir 0)))" using d by (simp add: ident_def comp_def)
  from filter_one_less [OF this k(1)] have "length (PathDirHash s' 0) = 12"
    using len unfolding k(2) [symmetric] by (simp add: length_ident)
  then show ?thesis using e c count \<open>b\<close> by simp
qed

theorem search_returns_directory_witness:
  "\<exists>s'. SearchDirectoryByDirectoryHashTable small_env 1 ''a'' DIR_LOCK_SHARED small_dir = Returns (Inr 7, s')
     \<and> held_rwlocks (dir_locks s') = [((1, ''a''), RW_SHARED)]"
proof -
  have "cache small_env small_dir (1, ''a'') = None" "\<not> enter_fails small_env (PathDirHash small_dir p)" for p
    by (simp_all add: cache_def hash_find_def small_dir_def DirPathShmemInit_def find_item_def small_env_def)
  moreover have "lock_admits DIR_LOCK_SHARED 0"
    by (simp add: lock_admits_def rw_mode_def attempt_state_def RW_VAL_REF_COUNT_def RW_VAL_EXCLUSIVE_def
        RW_FLAG_HAS_EXCLUSIVE_WAITER_def)
  moreover have "committed small_dir (1, ''a'') = Some 7" "held_rwlocks (dir_locks small_dir) = []"
    "DirPathHashToCommit small_dir = []"
    by (simp_all add: small_dir_def DirPathShmemInit_def heap_of_def)
  ultimately show ?thesis
    using search_returns_directory [OF small_env_scans _ _ small_dir_view [of "(1, ''a'')"], where mode = DIR_LOCK_SHARED]
      small_dir_inv
    by (simp add: dir_inv_def cache_ok_def MAX_DIRECTORY_PATH_HASH_SIZE_def MAX_SIMUL_RWLOCKS_def
        MAX_DIRECTORY_HASH_TO_COMMIT_ACTION_LENGTH_def table_id_def lock_entries_def rw_mode_def) auto
qed

theorem cache_refines_directory_witness:
  "\<exists>s'. end_commit small_env small_dir = Some s' \<and> dir_inv small_env s'
     \<and> abs_dir s' = spec_commit (abs_dir small_dir)"
  using cache_refines_directory [OF small_dir_inv, of 1 "''b''" DIR_LOCK_EXCLUSIVE 9] by blast

end
