(* ===== verification/Path_Parse.thy ===== *)
theory Path_Parse
  imports Dir_Path_Hash Meta_Ids
begin

text \<open>
  \<^verbatim>\<open>cuckoo/utils/path_parse.c\<close>: resolving a path to the inode of its parent directory and its last
  name. Every directory on the way is looked up once per transaction and remembered with the lock
  taken on it in a tree of names; the tree lives until the transaction ends. Also the check of a
  path's shape and the sequence numbers from which new inode numbers are made.

  The operations the parser calls are passed in a record: the directory lookup, the release of the
  lock taken last, and the generation of an inode number. A path is scanned by its suffixes: \<open>cur\<close> is
  the path from the current name on, \<open>len\<close> the length of that name.
\<close>

section \<open>The tree of names\<close>

datatype PPLockMode = PP_NONE | PP_SHARED | PP_EXCLUSIVE | PP_EXCLUSIVE_FOR_CREATE

datatype PathParseTreeNode =
  PPNode (pp_inodeId: u64) (pp_lock: PPLockMode) (pp_children: "(string \<times> PathParseTreeNode) list")

definition PathParseTreeInit :: PathParseTreeNode where
  "PathParseTreeInit = PPNode 0 PP_NONE []"

definition find_child :: "string \<Rightarrow> PathParseTreeNode \<Rightarrow> PathParseTreeNode option" where
  "find_child name node = map_of (pp_children node) name"

definition set_child :: "string \<Rightarrow> PathParseTreeNode \<Rightarrow> PathParseTreeNode \<Rightarrow> PathParseTreeNode" where
  "set_child name child node =
     PPNode (pp_inodeId node) (pp_lock node)
       ((name, child) # filter (\<lambda>c. fst c \<noteq> name) (pp_children node))"

definition set_lock :: "PPLockMode \<Rightarrow> PathParseTreeNode \<Rightarrow> PathParseTreeNode" where
  "set_lock mode node = PPNode (pp_inodeId node) mode (pp_children node)"

section \<open>Parsing\<close>

definition PATH_PARSE_FLAG_NOT_ROOT :: u16 where "PATH_PARSE_FLAG_NOT_ROOT = 1"
definition PATH_PARSE_FLAG_TARGET_IS_DIRECTORY :: u16 where "PATH_PARSE_FLAG_TARGET_IS_DIRECTORY = 2"
definition PATH_PARSE_FLAG_TARGET_TO_BE_CREATED :: u16 where "PATH_PARSE_FLAG_TARGET_TO_BE_CREATED = 4"
definition PATH_PARSE_FLAG_INODE_ID_FOR_INPUT :: u16 where "PATH_PARSE_FLAG_INODE_ID_FOR_INPUT = 8"
definition PATH_PARSE_FLAG_TARGET_TO_BE_DELETED :: u16 where "PATH_PARSE_FLAG_TARGET_TO_BE_DELETED = 16"
definition PATH_PARSE_FLAG_ALLOW_OPERATION_UNDER_CREATED_DIRECTORY :: u16 where
  "PATH_PARSE_FLAG_ALLOW_OPERATION_UNDER_CREATED_DIRECTORY = 32"
definition PATH_PARSE_FLAG_ACQUIRE_SHARED_LOCK_IF_TARGET_IS_DIRECTORY :: u16 where
  "PATH_PARSE_FLAG_ACQUIRE_SHARED_LOCK_IF_TARGET_IS_DIRECTORY = 64"

lemmas path_flag_defs = PATH_PARSE_FLAG_NOT_ROOT_def PATH_PARSE_FLAG_TARGET_IS_DIRECTORY_def
  PATH_PARSE_FLAG_TARGET_TO_BE_CREATED_def PATH_PARSE_FLAG_INODE_ID_FOR_INPUT_def
  PATH_PARSE_FLAG_TARGET_TO_BE_DELETED_def PATH_PARSE_FLAG_ALLOW_OPERATION_UNDER_CREATED_DIRECTORY_def
  PATH_PARSE_FLAG_ACQUIRE_SHARED_LOCK_IF_TARGET_IS_DIRECTORY_def

definition has_flag :: "u16 \<Rightarrow> u16 \<Rightarrow> bool" where
  "has_flag flag f \<longleftrightarrow> flag AND f \<noteq> 0"

text \<open>
  The result: the returned code and what is stored through the pointers, \<open>None\<close> where nothing is. The
  pointer to the inode number may be null (\<open>None\<close>) and carries an input value.
\<close>

record pp_out =
  pp_code :: CuckooErrorCode
  out_parentId :: "u64 option"
  out_fileName :: "string option"
  out_inodeId :: "u64 option"

record 's pp_ops =
  pp_search :: "u64 \<Rightarrow> string \<Rightarrow> DirPathLockMode \<Rightarrow> ('s, u64) exec"
  pp_release :: "('s, unit) exec"
  pp_new_id :: "('s, u64) exec"

text \<open>Calling an operation from inside the tree: an error leaves the tree as it is at that moment.\<close>

definition pp_call ::
    "('s, 'a) exec \<Rightarrow> PathParseTreeNode \<Rightarrow> 's
     \<Rightarrow> ('a \<Rightarrow> 's \<Rightarrow> ((CuckooErrorCode + pp_out) \<times> PathParseTreeNode \<times> 's) run)
     \<Rightarrow> ((CuckooErrorCode + pp_out) \<times> PathParseTreeNode \<times> 's) run" where
  "pp_call m node s continue =
     (case m s of
        Returns (Inl e, s1) \<Rightarrow> Returns (Inl e, node, s1)
      | Returns (Inr x, s1) \<Rightarrow> continue x s1
      | Loops \<Rightarrow> Loops
      | Faults \<Rightarrow> Faults)"

definition pp_create ::
    "'s pp_ops \<Rightarrow> u16 \<Rightarrow> string \<Rightarrow> pp_out \<Rightarrow> PathParseTreeNode \<Rightarrow> 's
     \<Rightarrow> ((CuckooErrorCode + pp_out) \<times> PathParseTreeNode \<times> 's) run" where
  "pp_create ops flag target out node s =
     (case out_inodeId out of
        None \<Rightarrow> Returns (Inl PROGRAM_ERROR, node, s)
      | Some inputId \<Rightarrow>
          let for_input = has_flag flag PATH_PARSE_FLAG_INODE_ID_FOR_INPUT in
          if has_flag flag PATH_PARSE_FLAG_TARGET_IS_DIRECTORY then
            (if find_child target node \<noteq> None then Returns (Inr (out\<lparr>pp_code := PATH_EXISTS\<rparr>), node, s)
             else
               pp_call (pp_search ops (pp_inodeId node) target DIR_LOCK_EXCLUSIVE) node s (\<lambda>targetInodeId s1.
               pp_call (if for_input then exec_return inputId
                        else if targetInodeId \<noteq> DIR_HASH_TABLE_PATH_NOT_EXIST then exec_return targetInodeId
                        else pp_new_id ops) node s1 (\<lambda>inodeId s2.
               let lock = (if has_flag flag PATH_PARSE_FLAG_ALLOW_OPERATION_UNDER_CREATED_DIRECTORY
                           then PP_EXCLUSIVE_FOR_CREATE else PP_EXCLUSIVE) in
               Returns (Inr (out\<lparr>out_inodeId := Some inodeId,
                                 pp_code := (if targetInodeId \<noteq> DIR_HASH_TABLE_PATH_NOT_EXIST
                                             then PATH_EXISTS else SUCCESS)\<rparr>),
                        set_child target (PPNode inodeId lock []) node, s2))))
          else
            pp_call (if for_input then exec_return inputId else pp_new_id ops) node s (\<lambda>inodeId s1.
              Returns (Inr (out\<lparr>out_inodeId := Some inodeId\<rparr>), node, s1)))"

definition pp_delete ::
    "'s pp_ops \<Rightarrow> string \<Rightarrow> pp_out \<Rightarrow> PathParseTreeNode \<Rightarrow> 's
     \<Rightarrow> ((CuckooErrorCode + pp_out) \<times> PathParseTreeNode \<times> 's) run" where
  "pp_delete ops target out node s =
     (if out_inodeId out = None then Returns (Inl PROGRAM_ERROR, node, s)
      else if (case find_child target node of None \<Rightarrow> False | Some child \<Rightarrow> pp_lock child \<noteq> PP_NONE)
      then Returns (Inr (out\<lparr>pp_code := PATH_LOCK_CONFLICT\<rparr>), node, s)
      else
        pp_call (pp_search ops (pp_inodeId node) target DIR_LOCK_EXCLUSIVE) node s (\<lambda>inodeId s1.
          let out1 = out\<lparr>out_inodeId := Some inodeId\<rparr> in
          if inodeId = DIR_HASH_TABLE_PATH_NOT_EXIST
          then Returns (Inr (out1\<lparr>pp_code := PATH_NOT_EXISTS\<rparr>), node, s1)
          else
            (case find_child target node of
               Some child \<Rightarrow> Returns (Inr out1, set_child target (set_lock PP_EXCLUSIVE child) node, s1)
             | None \<Rightarrow> Returns (Inr out1, set_child target (PPNode inodeId PP_EXCLUSIVE []) node, s1))))"

definition pp_shared ::
    "'s pp_ops \<Rightarrow> u16 \<Rightarrow> string \<Rightarrow> pp_out \<Rightarrow> PathParseTreeNode \<Rightarrow> 's
     \<Rightarrow> ((CuckooErrorCode + pp_out) \<times> PathParseTreeNode \<times> 's) run" where
  "pp_shared ops flag target out node s =
     (let finish = (\<lambda>child node s. Returns
            (Inr (out\<lparr>out_inodeId := map_option (\<lambda>_. pp_inodeId child) (out_inodeId out)\<rparr>), node, s)) in
      case find_child target node of
        Some child \<Rightarrow>
          if pp_lock child = PP_EXCLUSIVE then Returns (Inr (out\<lparr>pp_code := PATH_LOCK_CONFLICT\<rparr>), node, s)
          else if pp_inodeId child \<noteq> DIR_HASH_TABLE_PATH_NOT_EXIST \<and> pp_lock child = PP_NONE
          then pp_call (pp_search ops (pp_inodeId child) target DIR_LOCK_SHARED) node s (\<lambda>_ s1.
                 finish child (set_child target (set_lock PP_SHARED child) node) s1)
          else finish child node s
      | None \<Rightarrow>
          pp_call (pp_search ops (pp_inodeId node) target DIR_LOCK_SHARED) node s (\<lambda>currentDirectoryId s1.
            if currentDirectoryId = DIR_HASH_TABLE_PATH_NOT_EXIST
               \<and> has_flag flag PATH_PARSE_FLAG_TARGET_IS_DIRECTORY
            then Returns (Inr (out\<lparr>pp_code := PATH_NOT_EXISTS\<rparr>), node, s1)
            else if currentDirectoryId = DIR_HASH_TABLE_PATH_NOT_EXIST
            then pp_call (pp_release ops) node s1 (\<lambda>_ s2.
                   let child = PPNode currentDirectoryId PP_NONE [] in
                   finish child (set_child target child node) s2)
            else let child = PPNode currentDirectoryId PP_SHARED [] in
                 finish child (set_child target child node) s1))"

text \<open>What is done with the last name of the path, below the node of its parent directory.\<close>

definition pp_target ::
    "'s pp_ops \<Rightarrow> u16 \<Rightarrow> u64 option \<Rightarrow> string \<Rightarrow> PathParseTreeNode \<Rightarrow> 's
     \<Rightarrow> ((CuckooErrorCode + pp_out) \<times> PathParseTreeNode \<times> 's) run" where
  "pp_target ops flag inodeId target node s =
     (let out = \<lparr>pp_code = SUCCESS, out_parentId = Some (pp_inodeId node), out_fileName = Some target,
                 out_inodeId = inodeId\<rparr> in
      if has_flag flag PATH_PARSE_FLAG_TARGET_TO_BE_CREATED then pp_create ops flag target out node s
      else if has_flag flag PATH_PARSE_FLAG_TARGET_TO_BE_DELETED
              \<and> has_flag flag PATH_PARSE_FLAG_TARGET_IS_DIRECTORY
      then pp_delete ops target out node s
      else if has_flag flag PATH_PARSE_FLAG_ACQUIRE_SHARED_LOCK_IF_TARGET_IS_DIRECTORY
      then pp_shared ops flag target out node s
      else Returns (Inr out, node, s))"

definition pp_stop :: "CuckooErrorCode \<Rightarrow> u64 option \<Rightarrow> pp_out" where
  "pp_stop code inodeId = \<lparr>pp_code = code, out_parentId = None, out_fileName = None, out_inodeId = inodeId\<rparr>"

function pp_walk ::
    "'s pp_ops \<Rightarrow> u16 \<Rightarrow> u64 option \<Rightarrow> bool \<Rightarrow> string \<Rightarrow> nat \<Rightarrow> PathParseTreeNode \<Rightarrow> 's
     \<Rightarrow> ((CuckooErrorCode + pp_out) \<times> PathParseTreeNode \<times> 's) run" where
  "pp_walk ops flag inodeId first cur len node s =
     (if len < length cur then
        let name = take len cur;
            cur1 = (if first then drop 1 cur else drop (len + 1) cur);
            len1 = length (takeWhile (\<lambda>c. c \<noteq> CHR ''/'') cur1);
            descend = (\<lambda>child s1.
              case pp_walk ops flag inodeId False cur1 len1 child s1 of
                Returns (r, child1, s2) \<Rightarrow> Returns (r, set_child name child1 node, s2)
              | Loops \<Rightarrow> Loops
              | Faults \<Rightarrow> Faults)
        in case find_child name node of
             Some child \<Rightarrow>
               if pp_lock child = PP_EXCLUSIVE
               then Returns (Inr (pp_stop PATH_LOCK_CONFLICT inodeId), node, s)
               else if pp_lock child = PP_NONE
               then pp_call (pp_search ops (pp_inodeId child) name DIR_LOCK_SHARED) node s (\<lambda>_ s1.
                      descend (set_lock PP_SHARED child) s1)
               else descend child s
           | None \<Rightarrow>
               pp_call (pp_search ops (pp_inodeId node) name DIR_LOCK_SHARED) node s (\<lambda>currentDirectoryId s1.
                 if currentDirectoryId = - 1
                 then Returns (Inr (pp_stop PATH_IS_INVALID inodeId), node, s1)
                 else descend (PPNode currentDirectoryId PP_SHARED []) s1)
      else pp_target ops flag inodeId cur node s)"
  by pat_completeness auto
termination
  by (relation "measure (\<lambda>(ops, flag, inodeId, first, cur, len, node, s). length cur)") auto

declare pp_walk.simps [simp del]

text \<open>The whole parser on the transaction's tree, which is created on first use.\<close>

definition PathParseTreeInsert ::
    "'s pp_ops \<Rightarrow> string \<Rightarrow> u16 \<Rightarrow> u64 option \<Rightarrow> (PathParseTreeNode option \<times> 's, pp_out) exec" where
  "PathParseTreeInsert ops path flag inodeId ts =
     (case ts of (tree, s) \<Rightarrow>
        if path = ''/'' \<and> has_flag flag PATH_PARSE_FLAG_NOT_ROOT
        then Returns (Inr (pp_stop PATH_IS_ROOT inodeId), (tree, s))
        else if path = [] then Faults
        else
          let root = (case tree of None \<Rightarrow> PathParseTreeInit | Some root \<Rightarrow> root) in
          (case pp_walk ops flag inodeId True path 1 root s of
             Returns (r, root1, s1) \<Rightarrow> Returns (r, (Some root1, s1))
           | Loops \<Rightarrow> Loops
           | Faults \<Rightarrow> Faults))"

definition TransactionLevelPathParseReset :: "PathParseTreeNode option \<times> 's \<Rightarrow> PathParseTreeNode option \<times> 's" where
  "TransactionLevelPathParseReset ts = (None, snd ts)"

section \<open>The existence check\<close>

function check_loop ::
    "(u64 \<Rightarrow> string \<Rightarrow> DirPathLockMode \<Rightarrow> ('s, u64) exec) \<Rightarrow> bool \<Rightarrow> string \<Rightarrow> nat \<Rightarrow> u64 \<Rightarrow> ('s, u64) exec" where
  "check_loop search first cur len parentId =
     (if cur = [] then exec_return parentId
      else
        exec_bind (search parentId (take len cur) DIR_LOCK_NONE) (\<lambda>currentDirectoryId.
          if currentDirectoryId = DIR_HASH_TABLE_PATH_NOT_EXIST then exec_return DIR_HASH_TABLE_PATH_NOT_EXIST
          else if first then
            check_loop search False (drop 1 cur) (length (takeWhile (\<lambda>c. c \<noteq> CHR ''/'') (drop 1 cur)))
              currentDirectoryId
          else if length cur \<le> len then exec_return currentDirectoryId
          else
            check_loop search False (drop (len + 1) cur)
              (length (takeWhile (\<lambda>c. c \<noteq> CHR ''/'') (drop (len + 1) cur))) currentDirectoryId))"
  by pat_completeness auto
termination
  by (relation "measure (\<lambda>(search, first, cur, len, parentId). length cur)") auto

declare check_loop.simps [simp del]

definition CheckWhetherPathExistsInDirectoryTable ::
    "(u64 \<Rightarrow> string \<Rightarrow> DirPathLockMode \<Rightarrow> ('s, u64) exec) \<Rightarrow> string option \<Rightarrow> ('s, u64) exec" where
  "CheckWhetherPathExistsInDirectoryTable search path =
     (case path of
        None \<Rightarrow> exec_raise ARGUMENT_ERROR
      | Some p \<Rightarrow>
          if p = [] then exec_raise ARGUMENT_ERROR
          else if hd p \<noteq> CHR ''/'' then exec_raise ARGUMENT_ERROR
          else check_loop search True p 1 0)"

section \<open>The shape of a path\<close>

definition VERIFY_PATH_VALIDITY_REQUIREMENT_MUST_BE_DIRECTORY :: "32 word" where
  "VERIFY_PATH_VALIDITY_REQUIREMENT_MUST_BE_DIRECTORY = 1"
definition VERIFY_PATH_VALIDITY_REQUIREMENT_MUST_BE_FILE :: "32 word" where
  "VERIFY_PATH_VALIDITY_REQUIREMENT_MUST_BE_FILE = 2"
definition VERIFY_PATH_VALIDITY_PROPERTY_CAN_BE_DIRECTORY :: "32 word" where
  "VERIFY_PATH_VALIDITY_PROPERTY_CAN_BE_DIRECTORY = 1"
definition VERIFY_PATH_VALIDITY_PROPERTY_CAN_BE_FILE :: "32 word" where
  "VERIFY_PATH_VALIDITY_PROPERTY_CAN_BE_FILE = 2"

definition VerifyPathValidity :: "string option \<Rightarrow> 32 word \<Rightarrow> CuckooErrorCode \<times> 32 word" where
  "VerifyPathValidity path requirement =
     (case path of
        None \<Rightarrow> (PATH_IS_INVALID, 0)
      | Some p \<Rightarrow>
          if p = [] \<or> hd p \<noteq> CHR ''/'' then (PATH_IS_INVALID, 0)
          else
            let property = (if last p = CHR ''/'' then VERIFY_PATH_VALIDITY_PROPERTY_CAN_BE_DIRECTORY
                            else VERIFY_PATH_VALIDITY_PROPERTY_CAN_BE_DIRECTORY
                                 OR VERIFY_PATH_VALIDITY_PROPERTY_CAN_BE_FILE) in
            if requirement AND VERIFY_PATH_VALIDITY_REQUIREMENT_MUST_BE_DIRECTORY \<noteq> 0
               \<and> property AND VERIFY_PATH_VALIDITY_PROPERTY_CAN_BE_DIRECTORY = 0
            then (PATH_VERIFY_FAILED, property)
            else if requirement AND VERIFY_PATH_VALIDITY_REQUIREMENT_MUST_BE_FILE \<noteq> 0
               \<and> property AND VERIFY_PATH_VALIDITY_PROPERTY_CAN_BE_FILE = 0
            then (PATH_VERIFY_FAILED, property)
            else (SUCCESS, property))"

section \<open>Sequence numbers\<close>

text \<open>
  The static variables of one backend; \<open>nextval\<close> gives what the \<open>n\<close>-th call of the database sequence,
  counted over all backends, returns.
\<close>

record seq_local =
  remainNumberCount :: nat
  currentSequenceNumber :: u64

definition GetNextSequenceNum :: "(nat \<Rightarrow> u64) \<Rightarrow> seq_local \<Rightarrow> nat \<Rightarrow> u64 \<times> seq_local \<times> nat" where
  "GetNextSequenceNum nextval l draws =
     (let (l1, draws1) = (if remainNumberCount l = 0
                          then (\<lparr>remainNumberCount = 32, currentSequenceNumber = nextval draws\<rparr>, Suc draws)
                          else (l, draws));
          l2 = \<lparr>remainNumberCount = remainNumberCount l1 - 1,
                currentSequenceNumber = currentSequenceNumber l1 + 1\<rparr>
      in (currentSequenceNumber l2 - 1, l2, draws1))"

section \<open>Reference semantics\<close>

text \<open>The names of a path, and the inode a list of names leads to.\<close>

function split_slash :: "string \<Rightarrow> string list" where
  "split_slash p = (let w = takeWhile (\<lambda>c. c \<noteq> CHR ''/'') p; r = dropWhile (\<lambda>c. c \<noteq> CHR ''/'') p in
     if r = [] then [w] else w # split_slash (tl r))"
  by pat_completeness auto
termination
proof (relation "measure length")
  fix p w r :: string
  assume r: "r = dropWhile (\<lambda>c. c \<noteq> CHR ''/'') p" and pos: "r \<noteq> []"
  have le: "length r \<le> length p" unfolding r by (rule length_dropWhile_le)
  from pos have "length r \<noteq> 0" by (simp only: length_0_conv not_False_eq_True)
  with le have "length r - 1 < length p" by linarith
  then show "(tl r, p) \<in> measure length" by simp
qed simp

declare split_slash.simps [simp del]

definition path_dirs :: "string \<Rightarrow> string list" where
  "path_dirs p = (if length p \<le> 1 then [] else take 1 p # butlast (split_slash (drop 1 p)))"

definition path_target :: "string \<Rightarrow> string" where
  "path_target p = (if length p \<le> 1 then p else last (split_slash (drop 1 p)))"

primrec resolve :: "(DirPathHashKey \<Rightarrow> u64) \<Rightarrow> u64 \<Rightarrow> string list \<Rightarrow> u64 option" where
  "resolve dir p [] = Some p"
| "resolve dir p (n # ns) = (if dir (p, n) = - 1 then None else resolve dir (dir (p, n)) ns)"

text \<open>The names the existence check looks up: a trailing slash adds none.\<close>

definition check_names :: "string list \<Rightarrow> string list" where
  "check_names ns = (if last ns = [] then butlast ns else ns)"

text \<open>A tree that remembers only what the directory says, under shared locks.\<close>

fun tree_ok :: "(DirPathHashKey \<Rightarrow> u64) \<Rightarrow> PathParseTreeNode \<Rightarrow> bool" where
  "tree_ok dir (PPNode i l cs) \<longleftrightarrow> (\<forall>e \<in> set cs. pp_lock (snd e) = PP_SHARED
     \<and> pp_inodeId (snd e) = dir (i, fst e) \<and> dir (i, fst e) \<noteq> - 1 \<and> tree_ok dir (snd e))"

lemma split_slash_nonempty [simp]: "split_slash p \<noteq> []"
  by (subst split_slash.simps) (simp add: Let_def)

lemma split_slash_last_name:
  assumes "length p \<le> length (takeWhile (\<lambda>c. c \<noteq> CHR ''/'') p)"
  shows "split_slash p = [p]"
proof -
  have "length (takeWhile (\<lambda>c. c \<noteq> CHR ''/'') p) + length (dropWhile (\<lambda>c. c \<noteq> CHR ''/'') p) = length p"
    by (metis length_append takeWhile_dropWhile_id)
  then have "length (dropWhile (\<lambda>c. c \<noteq> CHR ''/'') p) = 0" using assms by linarith
  then have "dropWhile (\<lambda>c. c \<noteq> CHR ''/'') p = []" by (simp only: length_0_conv)
  moreover from this have "takeWhile (\<lambda>c. c \<noteq> CHR ''/'') p = p" by (simp add: dropWhile_eq_Nil_conv takeWhile_eq_all_conv)
  ultimately show ?thesis by (subst split_slash.simps) (simp add: Let_def)
qed

lemma split_slash_next_name:
  assumes "length (takeWhile (\<lambda>c. c \<noteq> CHR ''/'') p) < length p"
  shows "split_slash p = take (length (takeWhile (\<lambda>c. c \<noteq> CHR ''/'') p)) p
     # split_slash (drop (length (takeWhile (\<lambda>c. c \<noteq> CHR ''/'') p) + 1) p)"
proof -
  let ?w = "takeWhile (\<lambda>c. c \<noteq> CHR ''/'') p" and ?r = "dropWhile (\<lambda>c. c \<noteq> CHR ''/'') p"
  have r: "?r = drop (length ?w) p" by (rule dropWhile_eq_drop)
  have "?r \<noteq> []" unfolding r using assms by (simp only: drop_eq_Nil not_le)
  moreover have "take (length ?w) p = ?w" by (rule takeWhile_eq_take [symmetric])
  moreover have "drop (length ?w + 1) p = tl ?r" unfolding r by (simp only: Suc_eq_plus1 [symmetric] drop_Suc tl_drop)
  ultimately show ?thesis unfolding split_slash.simps [of p] Let_def by (simp only: if_False)
qed

lemma tree_ok_child:
  "tree_ok dir node \<Longrightarrow> find_child name node = Some child \<Longrightarrow>
   pp_lock child = PP_SHARED \<and> pp_inodeId child = dir (pp_inodeId node, name)
     \<and> dir (pp_inodeId node, name) \<noteq> - 1 \<and> tree_ok dir child"
  by (cases node) (auto simp: find_child_def dest!: map_of_SomeD)

lemma tree_ok_set_child:
  assumes "tree_ok dir node" "pp_lock child = PP_SHARED" "pp_inodeId child = dir (pp_inodeId node, name)"
    "dir (pp_inodeId node, name) \<noteq> - 1" "tree_ok dir child"
  shows "tree_ok dir (set_child name child node)"
  using assms by (cases node) (auto simp: set_child_def)

lemma set_child_sel [simp]:
  "pp_inodeId (set_child name child node) = pp_inodeId node" "pp_lock (set_child name child node) = pp_lock node"
  by (simp_all add: set_child_def)

text \<open>Flags under which the last name is only reported.\<close>

definition plain :: "u16 \<Rightarrow> bool" where
  "plain flag \<longleftrightarrow> \<not> has_flag flag PATH_PARSE_FLAG_TARGET_TO_BE_CREATED
     \<and> \<not> (has_flag flag PATH_PARSE_FLAG_TARGET_TO_BE_DELETED \<and> has_flag flag PATH_PARSE_FLAG_TARGET_IS_DIRECTORY)
     \<and> \<not> has_flag flag PATH_PARSE_FLAG_ACQUIRE_SHARED_LOCK_IF_TARGET_IS_DIRECTORY"

text \<open>The report of a plain lookup.\<close>

definition lookup_out :: "(DirPathHashKey \<Rightarrow> u64) \<Rightarrow> u64 \<Rightarrow> string list \<Rightarrow> string \<Rightarrow> u64 option \<Rightarrow> pp_out" where
  "lookup_out dir p names target inodeId =
     (case resolve dir p names of
        None \<Rightarrow> pp_stop PATH_IS_INVALID inodeId
      | Some parent \<Rightarrow> \<lparr>pp_code = SUCCESS, out_parentId = Some parent, out_fileName = Some target,
                        out_inodeId = inodeId\<rparr>)"

text \<open>
  Whatever is to be done with the last name: the walk fails at a missing directory, or does it below a node for
  the directory the path leads to. A node may be replaced by one for the same directory under the same lock.
\<close>

definition same_node :: "(DirPathHashKey \<Rightarrow> u64) \<Rightarrow> PathParseTreeNode \<Rightarrow> PathParseTreeNode \<Rightarrow> bool" where
  "same_node dir node n \<longleftrightarrow> tree_ok dir n \<and> pp_inodeId n = pp_inodeId node \<and> pp_lock n = pp_lock node"

definition reaches :: "'s pp_ops \<Rightarrow> u16 \<Rightarrow> u64 option \<Rightarrow> (DirPathHashKey \<Rightarrow> u64) \<Rightarrow> ('s \<Rightarrow> bool) \<Rightarrow> string list \<Rightarrow> string
    \<Rightarrow> PathParseTreeNode \<Rightarrow> ((CuckooErrorCode + pp_out) \<times> PathParseTreeNode \<times> 's) run \<Rightarrow> bool" where
  "reaches ops flag ino dir ok names target node w \<longleftrightarrow>
     (case resolve dir (pp_inodeId node) names of
        None \<Rightarrow> \<exists>node1 s1. w = Returns (Inr (pp_stop PATH_IS_INVALID ino), node1, s1) \<and> ok s1 \<and> same_node dir node node1
      | Some parent \<Rightarrow> \<exists>node1 up s1. ok s1 \<and> tree_ok dir node1 \<and> pp_inodeId node1 = parent
          \<and> (\<forall>n. same_node dir node1 n \<longrightarrow> same_node dir node (up n))
          \<and> w = run_bind (pp_target ops flag ino target node1 s1) (\<lambda>(r, n, s2). Returns (r, up n, s2)))"

lemma reaches_here:
  "tree_ok dir node \<Longrightarrow> ok s \<Longrightarrow> reaches ops flag ino dir ok [] target node (pp_target ops flag ino target node s)"
  by (cases "pp_target ops flag ino target node s")
    (auto simp: reaches_def intro!: exI [of _ node] exI [of _ "\<lambda>n. n"] exI [of _ s])

lemma reaches_missing:
  "tree_ok dir node \<Longrightarrow> ok s \<Longrightarrow> dir (pp_inodeId node, name) = - 1
     \<Longrightarrow> reaches ops flag ino dir ok (name # names) target node (Returns (Inr (pp_stop PATH_IS_INVALID ino), node, s))"
  by (simp add: reaches_def same_node_def)

lemma reaches_below:
  assumes t: "tree_ok dir node" and child: "pp_lock child = PP_SHARED" "pp_inodeId child = dir (pp_inodeId node, name)"
    "dir (pp_inodeId node, name) \<noteq> - 1" and w: "reaches ops flag ino dir ok names target child w"
  shows "reaches ops flag ino dir ok (name # names) target node
     (run_bind w (\<lambda>(r, child1, s2). Returns (r, set_child name child1 node, s2)))"
proof -
  have up: "same_node dir node (set_child name n node)" if "same_node dir child n" for n
    using that child tree_ok_set_child [OF t] by (simp add: same_node_def)
  have names: "resolve dir (pp_inodeId node) (name # names) = resolve dir (pp_inodeId child) names" using child by simp
  show ?thesis
  proof (cases "resolve dir (pp_inodeId child) names")
    case None
    then show ?thesis using w up unfolding reaches_def names by auto
  next
    case (Some parent)
    then obtain node1 climb s1 where t: "ok s1" "tree_ok dir node1" "pp_inodeId node1 = parent"
      "\<forall>n. same_node dir node1 n \<longrightarrow> same_node dir child (climb n)"
      and w: "w = run_bind (pp_target ops flag ino target node1 s1) (\<lambda>(r, n, s2). Returns (r, climb n, s2))"
      using w by (auto simp: reaches_def)
    have "run_bind w (\<lambda>(r, child1, s2). Returns (r, set_child name child1 node, s2))
        = run_bind (pp_target ops flag ino target node1 s1) (\<lambda>(r, n, s2). Returns (r, set_child name (climb n) node, s2))"
      unfolding w by (cases "pp_target ops flag ino target node1 s1") auto
    then show ?thesis using Some t up unfolding reaches_def names
      by (auto intro!: exI [of _ node1] exI [of _ "\<lambda>n. set_child name (climb n) node"] exI [of _ s1])
  qed
qed

lemma reaches_plain:
  assumes "reaches ops flag ino dir ok names target node w" "plain flag"
  shows "\<exists>node1 s1. w = Returns (Inr (lookup_out dir (pp_inodeId node) names target ino), node1, s1)
     \<and> same_node dir node node1 \<and> ok s1"
proof (cases "resolve dir (pp_inodeId node) names")
  case None
  then show ?thesis using assms(1) by (auto simp: reaches_def lookup_out_def)
next
  case (Some parent)
  have "pp_target ops flag ino target n s
      = Returns (Inr \<lparr>pp_code = SUCCESS, out_parentId = Some (pp_inodeId n), out_fileName = Some target, out_inodeId = ino\<rparr>, n, s)"
    for n s using assms(2) by (auto simp: pp_target_def plain_def Let_def)
  then show ?thesis using Some assms(1) by (auto simp: reaches_def lookup_out_def same_node_def)
qed

section \<open>The parser on top of a directory\<close>

text \<open>
  What the parser needs from the directory: as long as the resources for \<open>n\<close> further lookups last, a
  lookup of a short name without exclusive lock returns what the directory says, which it does not
  change, and leaves resources for one lookup less.
\<close>

locale directory_lookup =
  fixes search :: "u64 \<Rightarrow> string \<Rightarrow> DirPathLockMode \<Rightarrow> ('s, u64) exec"
    and ready :: "nat \<Rightarrow> 's \<Rightarrow> bool"
    and view :: "'s \<Rightarrow> DirPathHashKey \<Rightarrow> u64"
    and short :: "string \<Rightarrow> bool"
  assumes search_ok: "ready (Suc n) s \<Longrightarrow> short name \<Longrightarrow> mode \<noteq> DIR_LOCK_EXCLUSIVE \<Longrightarrow>
      \<exists>s'. search pid name mode s = Returns (Inr (view s (pid, name)), s') \<and> ready n s' \<and> view s' = view s"
    and ready_less: "ready (Suc n) s \<Longrightarrow> ready n s"
begin

lemma ready_mono: "ready n s \<Longrightarrow> m \<le> n \<Longrightarrow> ready m s"
  by (induction n arbitrary: m) (auto simp: le_Suc_eq dest: ready_less)

text \<open>One directory on the way: looked up or remembered, it ends the walk or is descended into.\<close>

lemma walk_step:
  assumes ops: "pp_search ops = search" and r: "ready (Suc n) s" and t: "tree_ok (view s) node"
    and sh: "short (take len cur)" and more: "len < length cur"
    and cur1: "cur1 = (if first then drop 1 cur else drop (len + 1) cur)"
    and len1: "len1 = length (takeWhile (\<lambda>c. c \<noteq> CHR ''/'') cur1)"
  obtains (missing) s1 where "view s (pp_inodeId node, take len cur) = - 1" "ready n s1" "view s1 = view s"
      "pp_walk ops flag ino first cur len node s = Returns (Inr (pp_stop PATH_IS_INVALID ino), node, s1)"
  | (below) child s1 where "view s (pp_inodeId node, take len cur) \<noteq> - 1" "ready n s1" "view s1 = view s"
      "tree_ok (view s) child" "pp_inodeId child = view s (pp_inodeId node, take len cur)" "pp_lock child = PP_SHARED"
      "pp_walk ops flag ino first cur len node s = run_bind (pp_walk ops flag ino False cur1 len1 child s1)
         (\<lambda>(r, child1, s2). Returns (r, set_child (take len cur) child1 node, s2))"
proof -
  let ?name = "take len cur" and ?i = "pp_inodeId node"
  have bind: "(case w of Returns (r, child1, s2) \<Rightarrow> Returns (r, set_child ?name child1 node, s2) | Loops \<Rightarrow> Loops | Faults \<Rightarrow> Faults)
      = run_bind w (\<lambda>(r, child1, s2). Returns (r, set_child ?name child1 node, s2))"
    for w :: "((CuckooErrorCode + pp_out) \<times> PathParseTreeNode \<times> 's) run" by (cases w) auto
  show thesis
  proof (cases "find_child ?name node")
    case (Some child)
    note c = tree_ok_child [OF t Some]
    then have "pp_walk ops flag ino first cur len node s = run_bind (pp_walk ops flag ino False cur1 len1 child s)
         (\<lambda>(r, child1, s2). Returns (r, set_child ?name child1 node, s2))"
      using Some more by (subst pp_walk.simps) (simp add: Let_def cur1 len1 bind)
    then show thesis using below [of s child] c ready_less [OF r] by simp
  next
    case None
    obtain s1 where s1: "search ?i ?name DIR_LOCK_SHARED s = Returns (Inr (view s (?i, ?name)), s1)"
      "ready n s1" "view s1 = view s" using search_ok [OF r sh] by blast
    show thesis
    proof (cases "view s (?i, ?name) = - 1")
      case True
      then have "pp_walk ops flag ino first cur len node s = Returns (Inr (pp_stop PATH_IS_INVALID ino), node, s1)"
        using None more s1(1) ops by (subst pp_walk.simps) (simp add: Let_def pp_call_def)
      then show thesis using True s1 missing by blast
    next
      case False
      let ?child = "PPNode (view s (?i, ?name)) PP_SHARED []"
      have "pp_walk ops flag ino first cur len node s = run_bind (pp_walk ops flag ino False cur1 len1 ?child s1)
         (\<lambda>(r, child1, s2). Returns (r, set_child ?name child1 node, s2))"
        using None more s1(1) ops False by (subst pp_walk.simps) (simp add: Let_def pp_call_def cur1 len1 bind)
      then show thesis using below [OF False s1(2,3), of ?child] by simp
    qed
  qed
qed

lemma walk_reaches:
  assumes ops: "pp_search ops = search"
  shows "ready (k + length (split_slash cur)) s \<Longrightarrow> tree_ok (view s) node \<Longrightarrow> list_all short (split_slash cur) \<Longrightarrow>
     reaches ops flag ino (view s) (\<lambda>s1. view s1 = view s \<and> ready k s1) (butlast (split_slash cur)) (last (split_slash cur))
       node (pp_walk ops flag ino False cur (length (takeWhile (\<lambda>c. c \<noteq> CHR ''/'') cur)) node s)"
proof (induction "length cur" arbitrary: cur node s rule: less_induct)
  case less
  let ?len = "length (takeWhile (\<lambda>c. c \<noteq> CHR ''/'') cur)"
  show ?case
  proof (cases "?len < length cur")
    case False
    then have e: "split_slash cur = [cur]" using split_slash_last_name by simp
    have "pp_walk ops flag ino False cur ?len node s = pp_target ops flag ino cur node s"
      using False by (subst pp_walk.simps) simp
    moreover have "view s = view s \<and> ready k s" using less.prems(1) ready_less unfolding e by simp
    ultimately show ?thesis using reaches_here [OF less.prems(2), where ok = "\<lambda>s1. view s1 = view s \<and> ready k s1"] unfolding e by simp
  next
    case True
    let ?rest = "drop (?len + 1) cur"
    note e = split_slash_next_name [OF True]
    have last: "last (split_slash cur) = last (split_slash ?rest)"
      "butlast (split_slash cur) = take ?len cur # butlast (split_slash ?rest)" by (simp_all add: e)
    have sh: "short (take ?len cur)" "list_all short (split_slash ?rest)" using less.prems(3) by (simp_all add: e)
    have r: "ready (Suc (k + length (split_slash ?rest))) s" using less.prems(1) unfolding e by simp
    have cur1: "?rest = (if False then drop 1 cur else drop (?len + 1) cur)" by simp
    show ?thesis
    proof (cases rule: walk_step [OF ops r less.prems(2) sh(1) True cur1 refl, where flag = flag and ino = ino])
      case missing: (1 s1)
      then show ?thesis unfolding last missing(4)
        by (intro reaches_missing [OF less.prems(2)]) (auto intro: ready_mono)
    next
      case below: (2 child s1)
      have "reaches ops flag ino (view s) (\<lambda>s1. view s1 = view s \<and> ready k s1) (butlast (split_slash ?rest))
          (last (split_slash ?rest)) child
          (pp_walk ops flag ino False ?rest (length (takeWhile (\<lambda>c. c \<noteq> CHR ''/'') ?rest)) child s1)"
        using less.hyps [of ?rest s1 child] True below sh(2) by simp
      then show ?thesis unfolding last below(7) by (intro reaches_below [OF less.prems(2)]) (use below in auto)
    qed
  qed
qed

lemma parse_reaches:
  assumes ops: "pp_search ops = search"
    and path: "path \<noteq> []" "\<not> (path = ''/'' \<and> has_flag flag PATH_PARSE_FLAG_NOT_ROOT)"
    and short: "list_all short (path_dirs path)" "short (path_target path)"
    and tree: "case tree of None \<Rightarrow> True | Some root \<Rightarrow> tree_ok (view s) root \<and> pp_inodeId root = 0"
    and r: "ready (k + length (path_dirs path) + 1) s"
  obtains root w where "pp_inodeId root = 0"
    "reaches ops flag ino (view s) (\<lambda>s1. view s1 = view s \<and> ready k s1) (path_dirs path) (path_target path) root w"
    "PathParseTreeInsert ops path flag ino (tree, s) = run_bind w (\<lambda>(r, root1, s1). Returns (r, Some root1, s1))"
proof -
  define root where "root = (case tree of None \<Rightarrow> PathParseTreeInit | Some root \<Rightarrow> root)"
  have root: "tree_ok (view s) root" "pp_inodeId root = 0"
    using tree by (auto simp: root_def PathParseTreeInit_def split: option.splits)
  let ?w = "pp_walk ops flag ino True path 1 root s"
  have "reaches ops flag ino (view s) (\<lambda>s1. view s1 = view s \<and> ready k s1) (path_dirs path) (path_target path) root ?w"
  proof (cases "1 < length path")
    case False
    then have d: "path_dirs path = []" "path_target path = path" by (simp_all add: path_dirs_def path_target_def)
    have "?w = pp_target ops flag ino path root s" using False by (subst pp_walk.simps) simp
    moreover have "view s = view s \<and> ready k s" using r ready_less unfolding d by simp
    ultimately show ?thesis using reaches_here [OF root(1), where ok = "\<lambda>s1. view s1 = view s \<and> ready k s1"] unfolding d by simp
  next
    case True
    let ?rest = "drop 1 path"
    have d: "path_dirs path = take 1 path # butlast (split_slash ?rest)" "path_target path = last (split_slash ?rest)"
      using True by (simp_all add: path_dirs_def path_target_def)
    have "list_all short (butlast (split_slash ?rest) @ [last (split_slash ?rest)])"
      using short unfolding d by (simp del: append_butlast_last_id)
    then have all: "list_all short (split_slash ?rest)" by simp
    have one: "short (take 1 path)" using short(1) unfolding d by simp
    have "length (path_dirs path) = length (split_slash ?rest)" unfolding d by simp
    then have r1: "ready (Suc (k + length (split_slash ?rest))) s" using r by simp
    have cur1: "?rest = (if True then drop 1 path else drop (1 + 1) path)" by simp
    show ?thesis
    proof (cases rule: walk_step [OF ops r1 root(1) one True cur1 refl, where flag = flag and ino = ino])
      case missing: (1 s1)
      then show ?thesis unfolding d missing(4) by (intro reaches_missing [OF root(1)]) (auto intro: ready_mono)
    next
      case below: (2 child s1)
      have "reaches ops flag ino (view s) (\<lambda>s1. view s1 = view s \<and> ready k s1) (butlast (split_slash ?rest))
          (last (split_slash ?rest)) child
          (pp_walk ops flag ino False ?rest (length (takeWhile (\<lambda>c. c \<noteq> CHR ''/'') ?rest)) child s1)"
        using walk_reaches [OF ops, of k ?rest s1 child flag ino] below all by simp
      then show ?thesis unfolding d below(7) by (intro reaches_below [OF root(1)]) (use below in auto)
    qed
  qed
  moreover have "PathParseTreeInsert ops path flag ino (tree, s) = run_bind ?w (\<lambda>(r, root1, s1). Returns (r, Some root1, s1))"
    using path by (cases ?w) (auto simp: PathParseTreeInsert_def root_def [symmetric])
  ultimately show thesis using that root(2) by blast
qed

lemma parse_lookup:
  assumes "pp_search ops = search" "plain flag"
    and "path \<noteq> []" "\<not> (path = ''/'' \<and> has_flag flag PATH_PARSE_FLAG_NOT_ROOT)"
    and "list_all short (path_dirs path)" "short (path_target path)"
    and "case tree of None \<Rightarrow> True | Some root \<Rightarrow> tree_ok (view s) root \<and> pp_inodeId root = 0"
    and "ready (k + length (path_dirs path) + 1) s"
  shows "\<exists>root1 s1. PathParseTreeInsert ops path flag ino (tree, s)
         = Returns (Inr (lookup_out (view s) 0 (path_dirs path) (path_target path) ino), (Some root1, s1))
       \<and> tree_ok (view s) root1 \<and> pp_inodeId root1 = 0 \<and> view s1 = view s \<and> ready k s1"
proof -
  from parse_reaches [OF assms(1,3-8), of ino] obtain root w where root: "pp_inodeId root = 0"
    and w: "reaches ops flag ino (view s) (\<lambda>s1. view s1 = view s \<and> ready k s1) (path_dirs path) (path_target path) root w"
    "PathParseTreeInsert ops path flag ino (tree, s) = run_bind w (\<lambda>(r, root1, s1). Returns (r, Some root1, s1))" by blast
  from reaches_plain [OF w(1) assms(2)] show ?thesis unfolding w(2) root by (auto simp: same_node_def root)
qed

lemma check_lookup:
  "cur \<noteq> [] \<Longrightarrow> ready (k + length (split_slash cur)) s \<Longrightarrow> list_all short (split_slash cur) \<Longrightarrow>
   \<exists>s1. check_loop search False cur (length (takeWhile (\<lambda>c. c \<noteq> CHR ''/'') cur)) p s
       = Returns (Inr (case resolve (view s) p (check_names (split_slash cur)) of
           None \<Rightarrow> - 1 | Some q \<Rightarrow> q), s1)
     \<and> view s1 = view s \<and> ready k s1"
proof (induction "length cur" arbitrary: cur p s rule: less_induct)
  case less
  let ?len = "length (takeWhile (\<lambda>c. c \<noteq> CHR ''/'') cur)"
  have nonempty: "length (split_slash cur) = Suc (length (split_slash cur) - 1)"
    by (cases "split_slash cur") simp_all
  have sh: "short (take ?len cur)"
  proof (cases "?len < length cur")
    case True
    then show ?thesis using less.prems(3) split_slash_next_name [OF True] by simp
  next
    case False
    then show ?thesis using less.prems(3) split_slash_last_name [of cur] by simp
  qed
  have "ready (Suc (k + (length (split_slash cur) - 1))) s"
    using less.prems(2) nonempty by (metis add_Suc_right)
  from search_ok [OF this sh] obtain s1 where
    s1: "search p (take ?len cur) DIR_LOCK_NONE s = Returns (Inr (view s (p, take ?len cur)), s1)"
    "ready (k + (length (split_slash cur) - 1)) s1" "view s1 = view s" by blast
  show ?case
  proof (cases "?len < length cur")
    case False
    then have e: "split_slash cur = [cur]" "take ?len cur = cur" using split_slash_last_name by simp_all
    then show ?thesis using s1 less.prems(1) False
      by (subst check_loop.simps) (simp add: check_names_def DIR_HASH_TABLE_PATH_NOT_EXIST_def)
  next
    case True
    let ?rest = "drop (?len + 1) cur"
    note e = split_slash_next_name [OF True]
    show ?thesis
    proof (cases "view s (p, take ?len cur) = - 1")
      case gone: True
      have "resolve (view s) p (check_names (split_slash cur)) = None"
        unfolding e check_names_def using gone by simp
      then show ?thesis using s1 less.prems(1) gone ready_mono [OF s1(2), of k]
        by (subst check_loop.simps) (simp add: DIR_HASH_TABLE_PATH_NOT_EXIST_def)
    next
      case False
      have step: "check_loop search False cur ?len p s
          = check_loop search False ?rest (length (takeWhile (\<lambda>c. c \<noteq> CHR ''/'') ?rest)) (view s (p, take ?len cur)) s1"
        using s1(1) less.prems(1) False True
        by (subst check_loop.simps) (simp add: DIR_HASH_TABLE_PATH_NOT_EXIST_def)
      have r: "ready (k + length (split_slash ?rest)) s1" using s1(2) unfolding e by simp
      show ?thesis
      proof (cases "?rest = []")
        case True
        then have "split_slash ?rest = [[]]" using split_slash_last_name [of "[]"] by simp
        then have "resolve (view s) p (check_names (split_slash cur)) = Some (view s (p, take ?len cur))"
          unfolding e check_names_def using False by simp
        moreover have "check_loop search False ?rest (length (takeWhile (\<lambda>c. c \<noteq> CHR ''/'') ?rest)) q s1
            = Returns (Inr q, s1)" for q using True by (subst check_loop.simps) simp
        ultimately show ?thesis using step s1(3) ready_mono [OF r, of k] by simp
      next
        case rest: False
        have "check_names (split_slash cur) = take ?len cur # check_names (split_slash ?rest)"
          unfolding e check_names_def by simp
        then show ?thesis
          using less.hyps [OF _ rest r, of "view s (p, take ?len cur)"] less.prems(3) True False step s1(3)
          unfolding e by simp
      qed
    qed
  qed
qed

end

section \<open>The directory cache serves the parser\<close>

definition shared_ready :: "nat \<Rightarrow> u64 \<Rightarrow> bool" where
  "shared_ready n w \<longleftrightarrow> (\<exists>r c. w = rw_enc r 0 c 0 \<and> r + n < 2 ^ 24 \<and> c + n + 1 < 2 ^ 25)"

text \<open>
  Resources for \<open>n\<close> lookups: a coherent cache with room for new entries, free places among the held
  locks and the remembered actions, and no lock held or wanted exclusively.
\<close>

definition lookup_ready :: "dir_env \<Rightarrow> nat \<Rightarrow> dir_state \<Rightarrow> bool" where
  "lookup_ready E n s \<longleftrightarrow> cache_ok E s \<and> (\<forall>k. unchanged_view k s) \<and> (\<forall>items. \<not> enter_fails E items)
     \<and> length (held_rwlocks (dir_locks s)) + n + 1 \<le> MAX_SIMUL_RWLOCKS
     \<and> length (DirPathHashToCommit s) + n \<le> MAX_DIRECTORY_HASH_TO_COMMIT_ACTION_LENGTH
     \<and> (\<forall>k. shared_ready n (rw_state (dir_locks s) k))"

definition directory_view :: "dir_state \<Rightarrow> DirPathHashKey \<Rightarrow> u64" where
  "directory_view s k = table_id (committed s) k"

lemma rw_enc_0: "rw_enc 0 0 0 0 = 0"
  by (simp add: rw_enc_def)

lemma shared_ready_0: "n < 2 ^ 24 \<Longrightarrow> shared_ready n 0"
  unfolding shared_ready_def using rw_enc_0 by (intro exI [of _ 0]) simp

lemma shared_ready_less: "shared_ready (Suc n) w \<Longrightarrow> shared_ready n w"
  unfolding shared_ready_def by fastforce

lemma shared_ready_step:
  assumes "shared_ready (Suc n) w" "mode \<noteq> DIR_LOCK_EXCLUSIVE"
  shows "lock_admits mode w" "shared_ready n (locked_words k mode (\<lambda>_. w) k)"
proof -
  obtain r c where w: "w = rw_enc r 0 c 0" "r + Suc n < 2 ^ 24" "c + Suc n + 1 < 2 ^ 25"
    using assms(1) by (auto simp: shared_ready_def)
  have a: "attempt_state RW_SHARED (w + RW_VAL_REF_COUNT + RW_VAL_REF_COUNT) = (rw_enc (r + 1) 0 (c + 2) 0, True)"
    using attempt_shared [of r 0 "c + 2" 0] w by (simp add: rw_enc_arith(1))
  have m: "mode = DIR_LOCK_NONE \<or> rw_mode mode = RW_SHARED" using assms(2) by (auto simp: rw_mode_def)
  then show "lock_admits mode w" using a by (auto simp: lock_admits_def)
  have "rw_enc (r + 1) 0 (c + 2) 0 - RW_VAL_REF_COUNT = rw_enc (r + 1) 0 (c + 1) 0"
    using rw_enc_arith(2) [of "r + 1" 0 "c + 1" 0] by simp
  moreover have "shared_ready n (rw_enc (r + 1) 0 (c + 1) 0)"
    unfolding shared_ready_def using w(2,3) by (intro exI [of _ "r + 1"] exI [of _ "c + 1"]) simp
  ultimately show "shared_ready n (locked_words k mode (\<lambda>_. w) k)"
    using m a shared_ready_less [OF assms(1)] by (auto simp: locked_words_def)
qed

lemma lookup_ready_step:
  assumes r: "lookup_ready E (Suc n) s" and name: "length name < MAX_DIRECTORY_PATH_HASH_SIZE"
    and mode: "mode \<noteq> DIR_LOCK_EXCLUSIVE"
  shows "\<exists>s'. SearchDirectoryByDirectoryHashTable E pid name mode s
       = Returns (Inr (directory_view s (pid, name)), s')
     \<and> lookup_ready E n s' \<and> directory_view s' = directory_view s"
proof -
  let ?k = "(pid, name)"
  have ok: "scan_complete E" "dir_wf E s" "coherent E s" "unchanged_view ?k s"
    "length (held_rwlocks (dir_locks s)) + 2 \<le> MAX_SIMUL_RWLOCKS"
    using r by (auto simp: lookup_ready_def cache_ok_def)
  have n: "Suc n < 2 ^ 24" using r by (auto simp: lookup_ready_def MAX_SIMUL_RWLOCKS_def)
  have words: "shared_ready (Suc n) (rw_state (dir_locks s) k)" for k using r unfolding lookup_ready_def by blast
  have "lock_admits mode (if cache E s ?k = None then 0 else rw_state (dir_locks s) ?k)"
    using shared_ready_step(1) [OF _ mode] words shared_ready_0 [OF n] by auto
  from Search_ok [OF ok(1-4) name _ ok(5) this] r obtain s' w where
    s': "SearchDirectoryByDirectoryHashTable E pid name mode s = Returns (Inr (table_id (committed s) ?k), s')"
    "cache_step E ?k (table_id (committed s) ?k) s s'"
    "held_rwlocks (dir_locks s') = held_rwlocks (dir_locks s) @ lock_entries ?k mode"
    "w \<in> {rw_state (dir_locks s), (rw_state (dir_locks s))(?k := 0)}"
    "rw_state (dir_locks s') = locked_words ?k mode w"
    "length (DirPathHashToCommit s') \<le> Suc (length (DirPathHashToCommit s))"
    by (auto simp: lookup_ready_def)
  have w: "shared_ready (Suc n) (w k)" for k using s'(4) words [of k] shared_ready_0 [OF n] by auto
  have "shared_ready n (rw_state (dir_locks s') k)" for k
    using shared_ready_step(2) [OF w mode] shared_ready_less [OF w]
    unfolding s'(5) locked_words_def by (auto split: if_splits)
  moreover have t: "directory_table s' = directory_table s" "dir_wf E s'" using s'(2) by (simp_all add: cache_step_def)
  moreover have "coherent E s'" by (rule coherent_cache_step [OF ok(3) s'(2)]) simp
  ultimately have "lookup_ready E n s'"
    using r s'(3,6) ok(1) by (auto simp: lookup_ready_def cache_ok_def unchanged_view_def lock_entries_def)
  then show ?thesis using s'(1) t(1) by (auto simp: directory_view_def)
qed

interpretation dirs: directory_lookup "SearchDirectoryByDirectoryHashTable E" "lookup_ready E" directory_view
    "\<lambda>name. length name < MAX_DIRECTORY_PATH_HASH_SIZE" for E
proof unfold_locales
  show "\<exists>s'. SearchDirectoryByDirectoryHashTable E pid name mode s = Returns (Inr (directory_view s (pid, name)), s')
      \<and> lookup_ready E n s' \<and> directory_view s' = directory_view s"
    if "lookup_ready E (Suc n) s" "length name < MAX_DIRECTORY_PATH_HASH_SIZE" "mode \<noteq> DIR_LOCK_EXCLUSIVE"
    for n s name mode pid by (rule lookup_ready_step [OF that])
  show "lookup_ready E n s" if "lookup_ready E (Suc n) s" for n s
    using that shared_ready_less by (auto simp: lookup_ready_def)
qed


text \<open>
  The existence check of a path agrees with following the directory table name by name.
\<close>

theorem existence_check:
  assumes "path = CHR ''/'' # rest" "rest \<noteq> []"
    and "list_all (\<lambda>n. length n < MAX_DIRECTORY_PATH_HASH_SIZE) (split_slash rest)"
    and "lookup_ready E (k + length (split_slash rest) + 1) s"
  shows "\<exists>s1. CheckWhetherPathExistsInDirectoryTable (SearchDirectoryByDirectoryHashTable E) (Some path) s
         = Returns (Inr (case resolve (directory_view s) 0 (''/'' # check_names (split_slash rest)) of
             None \<Rightarrow> DIR_HASH_TABLE_PATH_NOT_EXIST | Some inode \<Rightarrow> inode), s1)
       \<and> directory_view s1 = directory_view s"
proof -
  let ?search = "SearchDirectoryByDirectoryHashTable E"
  have r: "lookup_ready E (Suc (k + length (split_slash rest))) s" using assms(4) by simp
  obtain s1 where s1: "?search 0 ''/'' DIR_LOCK_NONE s = Returns (Inr (directory_view s (0, ''/'')), s1)"
    "lookup_ready E (k + length (split_slash rest)) s1" "directory_view s1 = directory_view s"
    using lookup_ready_step [OF r, of "''/''" DIR_LOCK_NONE 0] by (auto simp: MAX_DIRECTORY_PATH_HASH_SIZE_def)
  obtain s2 where s2: "check_loop ?search False rest (length (takeWhile (\<lambda>c. c \<noteq> CHR ''/'') rest)) (directory_view s (0, ''/'')) s1
       = Returns (Inr (case resolve (directory_view s) (directory_view s (0, ''/'')) (check_names (split_slash rest)) of
           None \<Rightarrow> - 1 | Some q \<Rightarrow> q), s2)" "directory_view s2 = directory_view s"
    using dirs.check_lookup [OF assms(2) s1(2) assms(3), where p = "directory_view s (0, ''/'')"] s1(3) by auto
  have "check_loop ?search True path 1 0 s = (if directory_view s (0, ''/'') = - 1 then Returns (Inr (- 1), s1)
      else check_loop ?search False rest (length (takeWhile (\<lambda>c. c \<noteq> CHR ''/'') rest)) (directory_view s (0, ''/'')) s1)"
    using s1(1) assms(1) by (subst check_loop.simps) (simp add: DIR_HASH_TABLE_PATH_NOT_EXIST_def)
  then have "CheckWhetherPathExistsInDirectoryTable ?search (Some path) s
      = Returns (Inr (case resolve (directory_view s) 0 (''/'' # check_names (split_slash rest)) of
             None \<Rightarrow> - 1 | Some inode \<Rightarrow> inode), if directory_view s (0, ''/'') = - 1 then s1 else s2)"
    using s2(1) assms(1) by (simp add: CheckWhetherPathExistsInDirectoryTable_def)
  then show ?thesis unfolding DIR_HASH_TABLE_PATH_NOT_EXIST_def using s1(3) s2(2) by (auto simp only: split: if_splits)
qed

section \<open>Sequence numbers are unique\<close>

text \<open>Calls of several backends in any order, the numbers they get.\<close>

primrec sequence_run :: "(nat \<Rightarrow> u64) \<Rightarrow> 'b list \<Rightarrow> ('b \<Rightarrow> seq_local) \<Rightarrow> nat \<Rightarrow> u64 list" where
  "sequence_run nextval [] locals draws = []"
| "sequence_run nextval (b # bs) locals draws =
     (case GetNextSequenceNum nextval (locals b) draws of
        (num, l, draws1) \<Rightarrow> num # sequence_run nextval bs (locals(b := l)) draws1)"

definition reserved :: "seq_local \<Rightarrow> nat set" where
  "reserved l = {unat (currentSequenceNumber l) ..< unat (currentSequenceNumber l) + remainNumberCount l}"

text \<open>
  What the backends have reserved is disjoint, was drawn from the sequence, and fits into a word.
\<close>

definition seq_inv :: "('b \<Rightarrow> seq_local) \<Rightarrow> nat \<Rightarrow> bool" where
  "seq_inv locals draws \<longleftrightarrow> (\<forall>b. reserved (locals b) \<subseteq> {0 ..< 1 + 32 * draws})
     \<and> (\<forall>b c. b \<noteq> c \<longrightarrow> reserved (locals b) \<inter> reserved (locals c) = {})"

text \<open>A call takes the first number of the backend's reservation or of a newly drawn block.\<close>

lemma GetNextSequenceNum_block:
  assumes nv: "unat (nextval draws) = 1 + 32 * draws" and fit: "32 * draws + 34 < 2 ^ 64"
    and old: "reserved l0 \<subseteq> {0 ..< 1 + 32 * draws}"
    and run: "GetNextSequenceNum nextval l0 draws = (num, l, draws1)"
  obtains R where "R = reserved l0 \<and> draws1 = draws \<or> R = {1 + 32 * draws ..< 1 + 32 * draws1} \<and> draws1 = Suc draws"
    "unat num \<in> R" "reserved l = R - {unat num}"
proof (cases "remainNumberCount l0 = 0")
  case True
  then have e: "num = nextval draws" "l = \<lparr>remainNumberCount = 31, currentSequenceNumber = nextval draws + 1\<rparr>"
    "draws1 = Suc draws" using run by (auto simp: GetNextSequenceNum_def)
  have "unat (nextval draws + 1) = unat (nextval draws) + 1"
    using unat_plus_small [of "nextval draws" 1] nv fit by simp
  then have "reserved l = {1 + 32 * draws ..< 1 + 32 * draws1} - {unat num}"
    by (auto simp: reserved_def e nv)
  then show ?thesis using that [of "{1 + 32 * draws ..< 1 + 32 * draws1}"] e nv by simp
next
  case False
  then have e: "num = currentSequenceNumber l0" "draws1 = draws"
    "l = \<lparr>remainNumberCount = remainNumberCount l0 - 1, currentSequenceNumber = currentSequenceNumber l0 + 1\<rparr>"
    using run by (auto simp: GetNextSequenceNum_def)
  have "unat (currentSequenceNumber l0) \<in> reserved l0" using False by (simp add: reserved_def)
  then have m: "unat num \<in> reserved l0" "unat num < 1 + 32 * draws" using old e(1) by auto
  then have "unat (num + 1) = unat num + 1" using unat_plus_small [of num 1] fit by simp
  then have "reserved l = reserved l0 - {unat num}" using False by (auto simp: reserved_def e)
  then show ?thesis using that [of "reserved l0"] e(2) m(1) by simp
qed

lemma seq_inv_step:
  assumes inv: "seq_inv locals draws"
    and R: "R = reserved (locals b) \<and> draws1 = draws \<or> R = {1 + 32 * draws ..< 1 + 32 * draws1} \<and> draws1 = Suc draws"
    and l: "reserved l \<subseteq> R"
  shows "seq_inv (locals(b := l)) draws1"
proof -
  have old: "reserved (locals c) \<subseteq> {0 ..< 1 + 32 * draws}" for c using inv by (simp add: seq_inv_def)
  have dis: "reserved (locals c) \<inter> reserved (locals e) = {}" if "c \<noteq> e" for c e
    using inv that by (simp add: seq_inv_def)
  have "R \<inter> reserved (locals c) = {}" if "c \<noteq> b" for c
    using R old [of c] dis [of b c] that by auto
  then have new: "reserved l \<inter> reserved (locals c) = {}" if "c \<noteq> b" for c using l that by blast
  have "reserved ((locals(b := l)) c) \<inter> reserved ((locals(b := l)) e) = {}" if "c \<noteq> e" for c e
    using new [of c] new [of e] dis [OF that] that by (cases "c = b"; cases "e = b") (simp_all add: Int_commute)
  moreover have "reserved ((locals(b := l)) c) \<subseteq> {0 ..< 1 + 32 * draws1}" for c
  proof (cases "c = b")
    case True
    have "R \<subseteq> {0 ..< 1 + 32 * draws1}" using R old [of b] by auto
    then show ?thesis using True l by simp
  next
    case False
    then show ?thesis using old [of c] R by auto
  qed
  ultimately show ?thesis unfolding seq_inv_def by blast
qed

lemma sequence_run_fresh:
  assumes nv: "\<And>i. i \<le> draws + length bs \<Longrightarrow> unat (nextval i) = 1 + 32 * i"
    and fit: "32 * (draws + length bs) + 34 < 2 ^ 64" and inv: "seq_inv locals draws"
  shows "distinct (sequence_run nextval bs locals draws)
    \<and> unat ` set (sequence_run nextval bs locals draws) \<subseteq> (\<Union>b. reserved (locals b)) \<union> {1 + 32 * draws ..}"
  using assms
proof (induction bs arbitrary: locals draws)
  case (Cons b bs)
  obtain num l draws1 where run: "GetNextSequenceNum nextval (locals b) draws = (num, l, draws1)"
    by (cases "GetNextSequenceNum nextval (locals b) draws") auto
  have old: "reserved (locals c) \<subseteq> {0 ..< 1 + 32 * draws}" for c using Cons.prems(3) by (simp add: seq_inv_def)
  have "unat (nextval draws) = 1 + 32 * draws" "32 * draws + 34 < 2 ^ 64" using Cons.prems(1) [of draws] Cons.prems(2) by simp_all
  from GetNextSequenceNum_block [OF this old run] obtain R where
    R: "R = reserved (locals b) \<and> draws1 = draws \<or> R = {1 + 32 * draws ..< 1 + 32 * draws1} \<and> draws1 = Suc draws"
    and num: "unat num \<in> R" and l: "reserved l = R - {unat num}" by blast
  let ?ls = "locals(b := l)" and ?rest = "sequence_run nextval bs (locals(b := l)) draws1"
  have inv1: "seq_inv ?ls draws1" by (rule seq_inv_step [OF Cons.prems(3) R]) (use l in blast)
  have "unat (nextval i) = 1 + 32 * i" if "i \<le> draws1 + length bs" for i
    using Cons.prems(1) [of i] that R by auto
  moreover have "32 * (draws1 + length bs) + 34 < 2 ^ 64" using Cons.prems(2) R by auto
  ultimately have IH: "distinct ?rest" "unat ` set ?rest \<subseteq> (\<Union>c. reserved (?ls c)) \<union> {1 + 32 * draws1 ..}"
    using Cons.IH [OF _ _ inv1] by blast+
  have Rsub: "R \<subseteq> reserved (locals b) \<union> {1 + 32 * draws ..}" "R \<subseteq> {0 ..< 1 + 32 * draws1}"
    using R old [of b] by auto
  have "unat num \<notin> reserved (?ls c)" for c
  proof (cases "c = b")
    case False
    then have "reserved (locals b) \<inter> reserved (locals c) = {}" using Cons.prems(3) by (auto simp: seq_inv_def)
    then have "R \<inter> reserved (locals c) = {}" using R old [of c] by auto
    then show ?thesis using num False by auto
  qed (simp add: l)
  moreover have "unat num \<notin> {1 + 32 * draws1 ..}" using num Rsub(2) by auto
  ultimately have fresh: "num \<notin> set ?rest" using IH(2) by blast
  have f1: "reserved (?ls c) \<subseteq> (\<Union>c. reserved (locals c)) \<union> {1 + 32 * draws ..}" for c
    using l Rsub(1) by (cases "c = b") auto
  have f2: "{1 + 32 * draws1 ..} \<subseteq> {1 + 32 * draws ..}" using R by auto
  have "(\<Union>c. reserved (?ls c)) \<union> {1 + 32 * draws1 ..} \<subseteq> (\<Union>c. reserved (locals c)) \<union> {1 + 32 * draws ..}"
    by (rule Un_least [OF UN_least [OF f1] le_supI2 [OF f2]])
  with IH(2) have "unat ` set ?rest \<subseteq> (\<Union>c. reserved (locals c)) \<union> {1 + 32 * draws ..}" by (rule subset_trans)
  then show ?case using run IH(1) fresh num Rsub(1) by auto
qed simp

text \<open>
  C40: Whatever the order in which backends ask for sequence numbers, no number is ever handed out twice.
  The sequence is the one the extension declares: it starts at 1 and advances by 32 per call, so that a
  backend owns the 32 numbers from the value it drew; this holds until the numbers no longer fit 64 bits.
\<close>

theorem sequence_numbers_unique:
  assumes "\<And>i. i \<le> length bs \<Longrightarrow> unat (nextval i) = 1 + 32 * i" and "32 * length bs + 34 < 2 ^ 64"
  shows "distinct (sequence_run nextval bs (\<lambda>b. \<lparr>remainNumberCount = 0, currentSequenceNumber = 0\<rparr>) 0)"
proof -
  have "seq_inv (\<lambda>b. \<lparr>remainNumberCount = 0, currentSequenceNumber = 0\<rparr>) 0" by (simp add: seq_inv_def reserved_def)
  from sequence_run_fresh [OF _ _ this, of bs nextval] show ?thesis using assms by simp
qed

section \<open>Examples\<close>

definition roomy_env :: dir_env where
  "roomy_env = small_env\<lparr>enter_fails := (\<lambda>_. False)\<rparr>"

definition small_ops :: "dir_state pp_ops" where
  "small_ops = \<lparr>pp_search = SearchDirectoryByDirectoryHashTable roomy_env,
     pp_release = exec_return (), pp_new_id = exec_return 99\<rparr>"

lemma small_dir_ready: "n \<le> 4096 \<Longrightarrow> lookup_ready roomy_env n small_dir"
proof -
  assume n: "n \<le> 4096"
  have "shared_ready n (rw_state (dir_locks small_dir) k)" for k
    using shared_ready_0 [of n] n by (simp add: small_dir_def DirPathShmemInit_def RWLockInitialize_def)
  moreover have "cache_ok roomy_env small_dir"
    by (simp add: roomy_env_def cache_ok_def scan_complete_def small_env_def dir_wf_def coherent_def cache_def
        hash_find_def small_dir_def DirPathShmemInit_def find_item_def)
  moreover have "length (held_rwlocks (dir_locks small_dir)) = 0" "length (DirPathHashToCommit small_dir) = 0"
    by (simp_all add: small_dir_def DirPathShmemInit_def)
  moreover have "\<not> enter_fails roomy_env items" for items by (simp add: roomy_env_def)
  ultimately show ?thesis using n small_dir_view unfolding lookup_ready_def
    by (simp add: MAX_SIMUL_RWLOCKS_def MAX_DIRECTORY_HASH_TO_COMMIT_ACTION_LENGTH_def)
qed

lemma small_dir_tree: "directory_view small_dir (0, ''/'') = 1" "directory_view small_dir (1, ''a'') = 7"
  by (simp_all add: directory_view_def table_id_def small_dir_def DirPathShmemInit_def heap_of_def)


theorem existence_check_witness:
  "\<exists>s1. CheckWhetherPathExistsInDirectoryTable (SearchDirectoryByDirectoryHashTable roomy_env) (Some ''/a/'') small_dir
     = Returns (Inr 7, s1)"
proof -
  have "split_slash ''a/'' = [''a'', []]" by (simp add: split_slash.simps)
  then show ?thesis
    using existence_check [of "''/a/''" "''a/''" roomy_env 0 small_dir] small_dir_ready small_dir_tree
    by (auto simp: check_names_def MAX_DIRECTORY_PATH_HASH_SIZE_def)
qed

theorem sequence_numbers_unique_witness:
  "distinct (sequence_run (\<lambda>i. 1 + 32 * of_nat i) [True, False, True]
     (\<lambda>b. \<lparr>remainNumberCount = 0, currentSequenceNumber = 0\<rparr>) 0)"
proof (rule sequence_numbers_unique)
  fix i :: nat
  assume "i \<le> length [True, False, True]"
  then show "unat (1 + 32 * of_nat i :: u64) = 1 + 32 * i" by (simp add: unat_word_ariths unat_of_nat)
qed simp

end
