(* ===== verification/Transaction.thy ===== *)
theory Transaction
  imports Remote_Comm Path_Parse
begin

text \<open>
  \<^verbatim>\<open>cuckoo/transaction/transaction.c\<close>, \<^verbatim>\<open>cuckoo/control/control_flag.c\<close> and the exit and drop hooks of
  \<^verbatim>\<open>cuckoo/control/hook.c\<close>: what happens in a backend when a transaction ends. The state joins the
  directory cache and its locks, the tree of the path parser, the remote part of the transaction and
  the flags of these files. PostgreSQL's transaction blocks are the parameter \<open>pg_ops\<close> over a state of
  their own; PostgreSQL calls the callback before it commits, after it has committed, after an abort
  and when it prepares.
\<close>

datatype XactEvent =
    XACT_EVENT_COMMIT | XACT_EVENT_PARALLEL_COMMIT | XACT_EVENT_ABORT | XACT_EVENT_PARALLEL_ABORT
  | XACT_EVENT_PREPARE | XACT_EVENT_PRE_COMMIT | XACT_EVENT_PARALLEL_PRE_COMMIT | XACT_EVENT_PRE_PREPARE

datatype CuckooExplicitTransactionState =
    CUCKOO_EXPLICIT_TRANSACTION_NONE | CUCKOO_EXPLICIT_TRANSACTION_BEGIN | CUCKOO_EXPLICIT_TRANSACTION_PREPARED

record 'p txn_state =
  txn_dirs :: dir_state
  TransactionLevelPathParseRoot :: "PathParseTreeNode option"
  txn_remote :: rc_state
  cuckooExplicitTransactionState :: CuckooExplicitTransactionState
  CuckooInAbortProgress :: bool
  CuckooBackgroundServiceStarted :: bool
  txn_block :: 'p

record 'p pg_ops =
  BeginTransactionBlock :: "'p \<Rightarrow> 'p"
  EndTransactionBlock :: "'p \<Rightarrow> bool \<times> 'p"
  UserAbortTransactionBlock :: "'p \<Rightarrow> 'p"
  PrepareTransactionBlock :: "string \<Rightarrow> 'p \<Rightarrow> bool \<times> 'p"
  FinishPreparedTransaction :: "string \<Rightarrow> bool \<Rightarrow> ('p, unit) op"
  PreventInTransactionBlock :: "('p, unit) op"
  CommitTransactionCommand :: "('p, unit) op"
  set_isolation_level :: "'p \<Rightarrow> bool \<times> 'p"

section \<open>Flags\<close>

definition cuckoo_start_background_service :: "'p txn_state \<Rightarrow> 'p txn_state" where
  "cuckoo_start_background_service s = s\<lparr>CuckooBackgroundServiceStarted := True\<rparr>"

definition CheckCuckooBackgroundServiceStarted :: "'p txn_state \<Rightarrow> bool" where
  "CheckCuckooBackgroundServiceStarted s = CuckooBackgroundServiceStarted s"

definition CuckooIsInAbortProgress :: "'p txn_state \<Rightarrow> bool" where
  "CuckooIsInAbortProgress s = CuckooInAbortProgress s"

definition CuckooEnterAbortProgress :: "'p txn_state \<Rightarrow> 'p txn_state" where
  "CuckooEnterAbortProgress s = s\<lparr>CuckooInAbortProgress := True\<rparr>"

definition CuckooQuitAbortProgress :: "'p txn_state \<Rightarrow> 'p txn_state" where
  "CuckooQuitAbortProgress s = s\<lparr>CuckooInAbortProgress := False\<rparr>"

section \<open>Explicit transactions\<close>

definition on_block :: "('p, 'a) op \<Rightarrow> ('p txn_state, 'a) exec" where
  "on_block f s = (case f (txn_block s) of (r, p) \<Rightarrow> Returns (r, s\<lparr>txn_block := p\<rparr>))"

definition block_step :: "('p \<Rightarrow> 'p) \<Rightarrow> ('p txn_state, unit) exec" where
  "block_step f = on_block (\<lambda>p. (Inr (), f p))"

definition block_ask :: "('p \<Rightarrow> bool \<times> 'p) \<Rightarrow> ('p txn_state, bool) exec" where
  "block_ask f = on_block (\<lambda>p. case f p of (b, p') \<Rightarrow> (Inr b, p'))"

definition require_state :: "CuckooExplicitTransactionState \<Rightarrow> ('p txn_state, unit) exec" where
  "require_state st s =
     (if cuckooExplicitTransactionState s \<noteq> st then Returns (Inl PROGRAM_ERROR, s) else Returns (Inr (), s))"

definition set_state :: "CuckooExplicitTransactionState \<Rightarrow> ('p txn_state, unit) exec" where
  "set_state st = exec_modify (\<lambda>s. s\<lparr>cuckooExplicitTransactionState := st\<rparr>)"

definition CuckooExplicitTransactionBegin :: "'p pg_ops \<Rightarrow> ('p txn_state, unit) exec" where
  "CuckooExplicitTransactionBegin P =
     exec_bind (require_state CUCKOO_EXPLICIT_TRANSACTION_NONE) (\<lambda>_.
     exec_bind (block_step (BeginTransactionBlock P)) (\<lambda>_.
     exec_bind (on_block (CommitTransactionCommand P)) (\<lambda>_.
     exec_bind (block_ask (set_isolation_level P)) (\<lambda>ok.
     if \<not> ok then exec_raise PROGRAM_ERROR
     else set_state CUCKOO_EXPLICIT_TRANSACTION_BEGIN))))"

definition CuckooExplicitTransactionCommit :: "'p pg_ops \<Rightarrow> ('p txn_state, bool) exec" where
  "CuckooExplicitTransactionCommit P =
     exec_bind (require_state CUCKOO_EXPLICIT_TRANSACTION_BEGIN) (\<lambda>_.
     exec_bind (block_ask (EndTransactionBlock P)) (\<lambda>isCommit.
     exec_bind (on_block (CommitTransactionCommand P)) (\<lambda>_.
     exec_bind (set_state CUCKOO_EXPLICIT_TRANSACTION_NONE) (\<lambda>_.
     exec_return isCommit))))"

definition CuckooExplicitTransactionRollback :: "'p pg_ops \<Rightarrow> ('p txn_state, unit) exec" where
  "CuckooExplicitTransactionRollback P =
     exec_bind (require_state CUCKOO_EXPLICIT_TRANSACTION_BEGIN) (\<lambda>_.
     exec_bind (block_step (UserAbortTransactionBlock P)) (\<lambda>_.
     exec_bind (on_block (CommitTransactionCommand P)) (\<lambda>_.
     set_state CUCKOO_EXPLICIT_TRANSACTION_NONE)))"

definition CuckooExplicitTransactionPrepare :: "'p pg_ops \<Rightarrow> string \<Rightarrow> ('p txn_state, bool) exec" where
  "CuckooExplicitTransactionPrepare P gid =
     exec_bind (require_state CUCKOO_EXPLICIT_TRANSACTION_BEGIN) (\<lambda>_.
     exec_bind (block_ask (PrepareTransactionBlock P gid)) (\<lambda>isPrepare.
     exec_bind (on_block (CommitTransactionCommand P)) (\<lambda>_.
     exec_bind (set_state CUCKOO_EXPLICIT_TRANSACTION_NONE) (\<lambda>_.
     exec_return isPrepare))))"

definition CuckooExplicitTransactionCommitPrepared :: "'p pg_ops \<Rightarrow> string \<Rightarrow> ('p txn_state, unit) exec" where
  "CuckooExplicitTransactionCommitPrepared P gid =
     exec_bind (require_state CUCKOO_EXPLICIT_TRANSACTION_PREPARED) (\<lambda>_.
     exec_bind (on_block (PreventInTransactionBlock P)) (\<lambda>_.
     exec_bind (on_block (FinishPreparedTransaction P gid True)) (\<lambda>_.
     exec_bind (on_block (CommitTransactionCommand P)) (\<lambda>_.
     set_state CUCKOO_EXPLICIT_TRANSACTION_NONE))))"

definition CuckooExplicitTransactionRollbackPrepared :: "'p pg_ops \<Rightarrow> string \<Rightarrow> ('p txn_state, unit) exec" where
  "CuckooExplicitTransactionRollbackPrepared P gid =
     exec_bind (require_state CUCKOO_EXPLICIT_TRANSACTION_PREPARED) (\<lambda>_.
     exec_bind (on_block (PreventInTransactionBlock P)) (\<lambda>_.
     exec_bind (on_block (FinishPreparedTransaction P gid False)) (\<lambda>_.
     exec_bind (on_block (CommitTransactionCommand P)) (\<lambda>_.
     set_state CUCKOO_EXPLICIT_TRANSACTION_NONE))))"

section \<open>The callback\<close>

definition on_remote :: "(rc_state, 'a) exec \<Rightarrow> ('p txn_state, 'a) exec" where
  "on_remote m s = run_bind (m (txn_remote s)) (\<lambda>(r, rc). Returns (r, s\<lparr>txn_remote := rc\<rparr>))"

definition ClearRemoteTransactionGid :: "rc_state \<Rightarrow> rc_state" where
  "ClearRemoteTransactionGid s =
     (if RemoteTransactionGid s \<noteq> [] then RemoveInprogressTransaction (RemoteTransactionGid s) s else s)
       \<lparr>RemoteTransactionGid := []\<rparr>"

definition reset_path_parse :: "'p txn_state \<Rightarrow> 'p txn_state" where
  "reset_path_parse s =
     s\<lparr>TransactionLevelPathParseRoot :=
         fst (TransactionLevelPathParseReset (TransactionLevelPathParseRoot s, txn_dirs s))\<rparr>"

definition commit_dirs :: "dir_env \<Rightarrow> ('p txn_state, unit) exec" where
  "commit_dirs D s =
     (case CommitForDirPathHash D (txn_dirs s) of
        None \<Rightarrow> Loops
      | Some d \<Rightarrow> Returns (Inr (), s\<lparr>txn_dirs := d\<rparr>))"

definition release_locks :: "bool \<Rightarrow> ('p txn_state, unit) exec" where
  "release_locks keep s =
     (case RWLockReleaseAll keep (dir_locks (txn_dirs s)) of
        Inl e \<Rightarrow> Returns (Inl e, s)
      | Inr b \<Rightarrow> Returns (Inr (), s\<lparr>txn_dirs := (txn_dirs s)\<lparr>dir_locks := b\<rparr>\<rparr>))"

definition clear_remote :: "'p txn_state \<Rightarrow> 'p txn_state" where
  "clear_remote s = s\<lparr>txn_remote := ClearRemoteConnectionCommand (ClearRemoteTransactionGid (txn_remote s))\<rparr>"

definition on_commit :: "dir_env \<Rightarrow> pq_env \<Rightarrow> ('p txn_state, unit) exec" where
  "on_commit D E =
     exec_bind (on_remote (CuckooRemoteCommandCommit E)) (\<lambda>_.
     exec_bind (exec_modify reset_path_parse) (\<lambda>_.
     exec_bind (commit_dirs D) (\<lambda>_.
     exec_bind (release_locks False) (\<lambda>_.
     exec_modify clear_remote))))"

text \<open>That the rollback on the other servers failed is only logged.\<close>

definition on_abort :: "'p pg_ops \<Rightarrow> pq_env \<Rightarrow> ('p txn_state, unit) exec" where
  "on_abort P E =
     exec_bind (exec_modify CuckooEnterAbortProgress) (\<lambda>_.
     exec_bind (exec_modify reset_path_parse) (\<lambda>_.
     exec_bind (exec_modify (\<lambda>s. s\<lparr>txn_dirs := AbortForDirPathHash (txn_dirs s)\<rparr>)) (\<lambda>_.
     exec_bind (release_locks True) (\<lambda>_.
     exec_bind (on_remote (CuckooRemoteCommandAbort E)) (\<lambda>_.
     exec_bind (exec_modify clear_remote) (\<lambda>_.
     exec_bind (exec_gets cuckooExplicitTransactionState) (\<lambda>st.
     exec_bind (if st = CUCKOO_EXPLICIT_TRANSACTION_BEGIN then CuckooExplicitTransactionRollback P
                else exec_return ()) (\<lambda>_.
     exec_modify CuckooQuitAbortProgress))))))))"

definition CuckooTransactionCallback ::
    "'p pg_ops \<Rightarrow> dir_env \<Rightarrow> pq_env \<Rightarrow> XactEvent \<Rightarrow> ('p txn_state, unit) exec" where
  "CuckooTransactionCallback P D E event =
     (case event of
        XACT_EVENT_PRE_COMMIT \<Rightarrow> on_remote (CuckooRemoteCommandPrepare E)
      | XACT_EVENT_COMMIT \<Rightarrow> on_commit D E
      | XACT_EVENT_ABORT \<Rightarrow> on_abort P E
      | XACT_EVENT_PRE_PREPARE \<Rightarrow> exec_return ()
      | XACT_EVENT_PREPARE \<Rightarrow> exec_modify reset_path_parse
      | XACT_EVENT_PARALLEL_COMMIT \<Rightarrow> exec_return ()
      | XACT_EVENT_PARALLEL_PRE_COMMIT \<Rightarrow> exec_return ()
      | XACT_EVENT_PARALLEL_ABORT \<Rightarrow> exec_return ())"

section \<open>Leaving the backend\<close>

definition CuckooCleanupOnExit :: "('p txn_state, unit) exec" where
  "CuckooCleanupOnExit =
     exec_bind (release_locks True) (\<lambda>_.
     exec_modify (\<lambda>s. s\<lparr>txn_remote := (txn_remote s)
       \<lparr>rc_servers := CleanupForeignServerConnections (rc_servers (txn_remote s))\<rparr>\<rparr>))"


section \<open>The end of a transaction\<close>

text \<open>
  PostgreSQL's commit: the callback may veto before the commit; then the tables change and the callback
  runs again. An error before the commit turns into an abort. The result tells whether the transaction
  committed and how the last call of the callback ended.
\<close>

definition tables_commit :: "'p txn_state \<Rightarrow> 'p txn_state" where
  "tables_commit s =
     s\<lparr>txn_dirs := (txn_dirs s)\<lparr>directory_table := heap_commit (directory_table (txn_dirs s))\<rparr>,
       txn_remote := (txn_remote s)\<lparr>distributed_transaction := heap_commit (distributed_transaction (txn_remote s))\<rparr>\<rparr>"

definition tables_abort :: "'p txn_state \<Rightarrow> 'p txn_state" where
  "tables_abort s =
     s\<lparr>txn_dirs := (txn_dirs s)\<lparr>directory_table := heap_abort (directory_table (txn_dirs s))\<rparr>,
       txn_remote := (txn_remote s)\<lparr>distributed_transaction := heap_abort (distributed_transaction (txn_remote s))\<rparr>\<rparr>"

definition end_transaction ::
    "'p pg_ops \<Rightarrow> dir_env \<Rightarrow> pq_env \<Rightarrow> 'p txn_state \<Rightarrow> (bool \<times> (CuckooErrorCode + unit) \<times> 'p txn_state) run" where
  "end_transaction P D E s =
     run_bind (CuckooTransactionCallback P D E XACT_EVENT_PRE_COMMIT s) (\<lambda>(r, s1).
       case r of
         Inr _ \<Rightarrow> run_bind (CuckooTransactionCallback P D E XACT_EVENT_COMMIT (tables_commit s1)) (\<lambda>x. Returns (True, x))
       | Inl _ \<Rightarrow> run_bind (CuckooTransactionCallback P D E XACT_EVENT_ABORT (tables_abort s1)) (\<lambda>x. Returns (False, x)))"

lemma callback_events:
  "CuckooTransactionCallback P D E XACT_EVENT_PRE_COMMIT = on_remote (CuckooRemoteCommandPrepare E)"
  "CuckooTransactionCallback P D E XACT_EVENT_COMMIT = on_commit D E"
  "CuckooTransactionCallback P D E XACT_EVENT_ABORT = on_abort P E"
  "CuckooTransactionCallback P D E XACT_EVENT_PREPARE = exec_modify reset_path_parse"
  by (simp_all add: CuckooTransactionCallback_def)

lemma on_remote_Returns:
  assumes "on_remote m s = Returns (r, s')"
  obtains rc where "m (txn_remote s) = Returns (r, rc)" "s' = s\<lparr>txn_remote := rc\<rparr>"
  using assms by (auto simp: on_remote_def run_bind_Returns_iff)

lemma end_transaction_Returns:
  assumes "end_transaction P D E s = Returns (decided, r, s')"
  obtains (commit) rc where "decided" "CuckooRemoteCommandPrepare E (txn_remote s) = Returns (Inr (), rc)"
      "on_commit D E (tables_commit (s\<lparr>txn_remote := rc\<rparr>)) = Returns (r, s')"
  | (abort) e rc where "\<not> decided" "CuckooRemoteCommandPrepare E (txn_remote s) = Returns (Inl e, rc)"
      "on_abort P E (tables_abort (s\<lparr>txn_remote := rc\<rparr>)) = Returns (r, s')"
proof -
  from assms obtain r1 s1 where p: "on_remote (CuckooRemoteCommandPrepare E) s = Returns (r1, s1)"
    and rest: "(case r1 of
         Inr _ \<Rightarrow> run_bind (on_commit D E (tables_commit s1)) (\<lambda>x. Returns (True, x))
       | Inl _ \<Rightarrow> run_bind (on_abort P E (tables_abort s1)) (\<lambda>x. Returns (False, x))) = Returns (decided, r, s')"
    unfolding end_transaction_def run_bind_Returns_iff callback_events by auto
  from p obtain rc where rc: "CuckooRemoteCommandPrepare E (txn_remote s) = Returns (r1, rc)" "s1 = s\<lparr>txn_remote := rc\<rparr>"
    by (rule on_remote_Returns)
  show thesis
  proof (cases r1)
    case (Inl e)
    then show thesis using abort [of e rc] rest rc by (simp add: run_bind_Returns_iff)
  next
    case (Inr u)
    then show thesis using commit [of rc] rest rc by (simp add: run_bind_Returns_iff)
  qed
qed

text \<open>The steps of the callback other than the remote ones keep the conversation and the recorded participants.\<close>

definition quiet :: "'p txn_state \<Rightarrow> 'p txn_state \<Rightarrow> bool" where
  "quiet s s' \<longleftrightarrow> rc_trace (txn_remote s') = rc_trace (txn_remote s)
     \<and> distributed_transaction (txn_remote s') = distributed_transaction (txn_remote s)"

lemma quiet_bind [intro!]:
  "exec_keeps quiet m \<Longrightarrow> (\<And>x. exec_keeps quiet (f x)) \<Longrightarrow> exec_keeps quiet (exec_bind m f)"
  by (rule exec_keeps_bind) (auto simp: quiet_def)

lemma quiet_block [intro!]: "exec_keeps quiet (on_block f)"
  by (rule exec_keepsI) (auto simp: on_block_def quiet_def split: prod.splits)

lemma quiet_steps [intro!]:
  "exec_keeps quiet (exec_modify reset_path_parse)" "exec_keeps quiet (commit_dirs D)"
  "exec_keeps quiet (release_locks keep)" "exec_keeps quiet (exec_modify clear_remote)"
  "exec_keeps quiet (exec_modify CuckooEnterAbortProgress)" "exec_keeps quiet (exec_modify CuckooQuitAbortProgress)"
  "exec_keeps quiet (exec_modify (\<lambda>s. s\<lparr>txn_dirs := AbortForDirPathHash (txn_dirs s)\<rparr>))"
  "exec_keeps quiet (exec_gets g)" "exec_keeps quiet (exec_return x)"
  "exec_keeps quiet (require_state st)" "exec_keeps quiet (set_state st)" "exec_keeps quiet (block_step h)"
  by (rule exec_keepsI; auto simp: quiet_def reset_path_parse_def commit_dirs_def release_locks_def
      clear_remote_def ClearRemoteConnectionCommand_def ClearRemoteTransactionGid_def
      RemoveInprogressTransaction_def CuckooEnterAbortProgress_def CuckooQuitAbortProgress_def
      require_state_def set_state_def block_step_def on_block_def split: option.splits sum.splits if_splits)+

lemma Rollback_quiet [intro!]: "exec_keeps quiet (CuckooExplicitTransactionRollback P)"
  unfolding CuckooExplicitTransactionRollback_def by blast

lemma on_commit_remote:
  assumes "on_commit D E s = Returns (r, s')"
  obtains r1 rc where "CuckooRemoteCommandCommit E (txn_remote s) = Returns (r1, rc)"
    "rc_trace (txn_remote s') = rc_trace rc" "distributed_transaction (txn_remote s') = distributed_transaction rc"
  using assms unfolding on_commit_def
proof (cases rule: exec_bind_Returns)
  case (error e)
  then show thesis using that by (auto elim: on_remote_Returns)
next
  case (ok u s1)
  have "exec_keeps quiet (exec_bind (exec_modify reset_path_parse) (\<lambda>_. exec_bind (commit_dirs D) (\<lambda>_.
     exec_bind (release_locks False) (\<lambda>_. exec_modify clear_remote))))"
    by blast
  from exec_keepsD [OF this ok(2)] ok(1) show thesis using that by (auto simp: quiet_def elim!: on_remote_Returns)
qed

lemma on_abort_remote:
  assumes "on_abort P E s = Returns (r, s')"
  shows "rc_trace (txn_remote s') = rc_trace (txn_remote s)
       \<and> distributed_transaction (txn_remote s') = distributed_transaction (txn_remote s)
     \<or> (\<exists>r1 rc. CuckooRemoteCommandAbort E (txn_remote s) = Returns (r1, rc)
       \<and> rc_trace (txn_remote s') = rc_trace rc \<and> distributed_transaction (txn_remote s') = distributed_transaction rc)"
proof -
  define after where "after = exec_bind (exec_modify clear_remote) (\<lambda>_.
     exec_bind (exec_gets cuckooExplicitTransactionState) (\<lambda>st.
     exec_bind (if st = CUCKOO_EXPLICIT_TRANSACTION_BEGIN then CuckooExplicitTransactionRollback P
                else exec_return ()) (\<lambda>_.
     exec_modify CuckooQuitAbortProgress)))"
  have k: "exec_keeps quiet after" unfolding after_def by (auto simp del: exec_simps)
  have "exec_bind (exec_modify CuckooEnterAbortProgress) (\<lambda>_.
     exec_bind (exec_modify reset_path_parse) (\<lambda>_.
     exec_bind (exec_modify (\<lambda>s. s\<lparr>txn_dirs := AbortForDirPathHash (txn_dirs s)\<rparr>)) (\<lambda>_.
     exec_bind (release_locks True) (\<lambda>_.
     exec_bind (on_remote (CuckooRemoteCommandAbort E)) (\<lambda>_. after))))) s = Returns (r, s')"
    using assms unfolding on_abort_def after_def .
  moreover define s1 where "s1 = (reset_path_parse (CuckooEnterAbortProgress s))\<lparr>txn_dirs :=
     AbortForDirPathHash (txn_dirs (reset_path_parse (CuckooEnterAbortProgress s)))\<rparr>"
  ultimately have "exec_bind (release_locks True) (\<lambda>_. exec_bind (on_remote (CuckooRemoteCommandAbort E)) (\<lambda>_. after)) s1
      = Returns (r, s')"
    by (simp add: exec_bind_run)
  moreover have r1: "txn_remote s1 = txn_remote s"
    by (simp add: s1_def reset_path_parse_def CuckooEnterAbortProgress_def)
  obtain b where "release_locks True s1 = Returns (Inr (), s1\<lparr>txn_dirs := (txn_dirs s1)\<lparr>dir_locks := b\<rparr>\<rparr>)"
    using ReleaseAll_all [of True "dir_locks (txn_dirs s1)"] by (auto simp: release_locks_def)
  ultimately have "exec_bind (on_remote (CuckooRemoteCommandAbort E)) (\<lambda>_. after)
      (s1\<lparr>txn_dirs := (txn_dirs s1)\<lparr>dir_locks := b\<rparr>\<rparr>) = Returns (r, s')" by simp
  then show ?thesis
  proof (cases rule: exec_bind_Returns)
    case (error e)
    then show ?thesis using r1 by (auto elim!: on_remote_Returns)
  next
    case (ok u s2)
    from exec_keepsD [OF k ok(2)] ok(1) show ?thesis using r1 by (auto simp: quiet_def elim!: on_remote_Returns)
  qed
qed


section \<open>One decision for all participants\<close>

abbreviation recorded :: "rc_state \<Rightarrow> int \<Rightarrow> string \<Rightarrow> bool" where
  "recorded rc sid gid \<equiv> ((sid, gid), ()) \<in> set (h_base (distributed_transaction rc))"

definition prepare_query :: "string \<Rightarrow> query" where "prepare_query gid = QueryParams (prepare_command gid)"

definition commit_queries :: "string \<Rightarrow> query set" where
  "commit_queries gid = {QueryParams ''COMMIT;'', QueryParams (commit_prepared_command gid)}"

definition rollback_queries :: "string \<Rightarrow> query set" where
  "rollback_queries gid = {QueryParams ''ROLLBACK;'', QueryParams (rollback_prepared_command gid)}"

lemma command_kinds:
  "commit_command gid st \<in> commit_queries gid" "rollback_command gid st \<in> rollback_queries gid"
  by (simp_all add: commit_command_def rollback_command_def commit_queries_def rollback_queries_def)

lemma commit_prepared_only_prepared:
  "commit_command gid st = QueryParams (commit_prepared_command gid) \<Longrightarrow> st = CUCKOO_REMOTE_TRANSACTION_PREPARE"
  by (auto simp: commit_command_def commit_prepared_command_def split: if_splits)

lemma prepare_not_commit: "prepare_query gid \<noteq> commit_command gid' st"
  by (auto simp: prepare_query_def prepare_command_def commit_command_def commit_prepared_command_def)

lemma Prepare_decides:
  assumes "answered E" "\<forall>cache. RemoteConnectionCommandCache rc = Some cache \<longrightarrow> distinct (worker_ids E cache)"
    "\<forall>sid. conn_state rc sid \<noteq> CUCKOO_REMOTE_TRANSACTION_PREPARE"
    "CuckooRemoteCommandPrepare E rc = Returns (Inr (), rc')"
  shows "\<exists>tr. rc_trace rc' = rc_trace rc @ tr \<and> snd ` set (sends tr) \<subseteq> {prepare_query (RemoteTransactionGid rc')}
     \<and> (\<forall>sid. conn_state rc' sid = CUCKOO_REMOTE_TRANSACTION_PREPARE
           \<longrightarrow> (sid, prepare_query (RemoteTransactionGid rc')) \<in> set (sends tr))
     \<and> (\<forall>sid q. (sid, q) \<in> set (sends tr)
           \<longrightarrow> ((sid, RemoteTransactionGid rc'), ()) \<in> set (h_now (distributed_transaction rc'))
             \<and> (\<exists>r. Got sid (Some r) \<in> set tr \<and> res_status r \<in> {PGRES_COMMAND_OK, PGRES_TUPLES_OK}))"
proof (cases "RemoteConnectionCommandCache rc")
  case None
  then show ?thesis using assms(3,4) by (simp add: CuckooRemoteCommandPrepare_def)
next
  case (Some cache)
  then have d: "distinct (worker_ids E cache)" using assms(2) by blast
  let ?ids = "worker_ids E cache"
  from Prepare_votes [OF assms(1) Some d assms(4)] obtain s1 where
    c: "get_connections E ?ids rc = Returns (Inr (), s1)"
    and v: "let ws = filter (writes_on s1) ?ids in
        if (if LocalServerWrite rc then 1 else 0) + length ws < 2 then rc' = s1
        else \<exists>gid tr. RemoteTransactionGid rc' = gid \<and> gid \<in> set (InprogressTransactions rc')
           \<and> (\<exists>serverId. gid = transaction_gid (TopTransactionId rc) serverId (LocalServerWrite rc))
           \<and> (\<forall>sid. conn_state rc' sid
                 = (if sid \<in> set ws then CUCKOO_REMOTE_TRANSACTION_PREPARE else conn_state s1 sid))
           \<and> h_now (distributed_transaction rc')
               = h_now (distributed_transaction s1) @ map (\<lambda>sid. ((sid, gid), ())) ws
           \<and> rc_trace rc' = rc_trace s1 @ tr
           \<and> sends tr = map (\<lambda>sid. (sid, QueryParams (prepare_command gid))) ws
           \<and> (\<forall>sid \<in> set ws. \<exists>r. Got sid (Some r) \<in> set tr
                 \<and> res_status r \<in> {PGRES_COMMAND_OK, PGRES_TUPLES_OK})"
    by blast
  from c obtain fs tr0 where f: "s1 = rc\<lparr>rc_servers := fs, rc_trace := rc_trace rc @ tr0\<rparr>" "sends tr0 = []"
    by (rule get_connections_frame)
  have none: "conn_state s1 sid \<noteq> CUCKOO_REMOTE_TRANSACTION_PREPARE" for sid
    using get_connections_states [OF c, of sid] assms(3) by auto
  let ?ws = "filter (writes_on s1) ?ids"
  show ?thesis
  proof (cases "(if LocalServerWrite rc then 1 else 0) + length ?ws < 2")
    case True
    then have "rc' = s1" using v by (simp add: Let_def)
    then show ?thesis using f none by (intro exI [of _ tr0]) auto
  next
    case False
    then obtain tr where t: "\<forall>sid. conn_state rc' sid
         = (if sid \<in> set ?ws then CUCKOO_REMOTE_TRANSACTION_PREPARE else conn_state s1 sid)"
      "h_now (distributed_transaction rc')
         = h_now (distributed_transaction s1) @ map (\<lambda>sid. ((sid, RemoteTransactionGid rc'), ())) ?ws"
      "rc_trace rc' = rc_trace s1 @ tr"
      "sends tr = map (\<lambda>sid. (sid, prepare_query (RemoteTransactionGid rc'))) ?ws"
      "\<forall>sid \<in> set ?ws. \<exists>r. Got sid (Some r) \<in> set tr \<and> res_status r \<in> {PGRES_COMMAND_OK, PGRES_TUPLES_OK}"
      using v unfolding Let_def prepare_query_def by (metis (no_types, lifting))
    have s: "set (sends (tr0 @ tr)) = (\<lambda>sid. (sid, prepare_query (RemoteTransactionGid rc'))) ` set ?ws"
      using f(2) t(4) by simp
    show ?thesis
    proof (intro exI [of _ "tr0 @ tr"] conjI allI impI)
      show "rc_trace rc' = rc_trace rc @ (tr0 @ tr)" using f(1) t(3) by simp
      show "snd ` set (sends (tr0 @ tr)) \<subseteq> {prepare_query (RemoteTransactionGid rc')}" unfolding s by auto
      show "(sid, prepare_query (RemoteTransactionGid rc')) \<in> set (sends (tr0 @ tr))"
        if "conn_state rc' sid = CUCKOO_REMOTE_TRANSACTION_PREPARE" for sid
        using that t(1) none unfolding s by (metis image_eqI)
      show "((sid, RemoteTransactionGid rc'), ()) \<in> set (h_now (distributed_transaction rc'))"
        if "(sid, q) \<in> set (sends (tr0 @ tr))" for sid q
        using that t(2) unfolding s by auto
      show "\<exists>r. Got sid (Some r) \<in> set (tr0 @ tr) \<and> res_status r \<in> {PGRES_COMMAND_OK, PGRES_TUPLES_OK}"
        if "(sid, q) \<in> set (sends (tr0 @ tr))" for sid q
        using that t(5) unfolding s by fastforce
    qed
  qed
qed

lemma commit_decides:
  assumes "answered E" "\<forall>cache. RemoteConnectionCommandCache (txn_remote s) = Some cache \<longrightarrow> distinct (worker_ids E cache)"
    "\<forall>sid. conn_state (txn_remote s) sid \<noteq> CUCKOO_REMOTE_TRANSACTION_PREPARE"
    and "CuckooRemoteCommandPrepare E (txn_remote s) = Returns (Inr (), rc)"
    and "on_commit D E (tables_commit (s\<lparr>txn_remote := rc\<rparr>)) = Returns (r, s')"
  shows "\<exists>gid tr. rc_trace (txn_remote s') = rc_trace (txn_remote s) @ tr
     \<and> snd ` set (sends tr) \<subseteq> insert (prepare_query gid) (commit_queries gid)
     \<and> (\<forall>sid. (sid, QueryParams (commit_prepared_command gid)) \<in> set (sends tr)
          \<longrightarrow> (sid, prepare_query gid) \<in> set (sends tr))
     \<and> (\<forall>sid. (sid, prepare_query gid) \<in> set (sends tr)
          \<longrightarrow> recorded (txn_remote s') sid gid
            \<and> (\<exists>r. Got sid (Some r) \<in> set tr \<and> res_status r \<in> {PGRES_COMMAND_OK, PGRES_TUPLES_OK}))"
proof -
  let ?gid = "RemoteTransactionGid rc" and ?s = "txn_remote (tables_commit (s\<lparr>txn_remote := rc\<rparr>))"
  from Prepare_decides [OF assms(1-3) assms(4)] obtain tr1 where t1: "rc_trace rc = rc_trace (txn_remote s) @ tr1"
    "snd ` set (sends tr1) \<subseteq> {prepare_query ?gid}"
    "\<forall>sid. conn_state rc sid = CUCKOO_REMOTE_TRANSACTION_PREPARE \<longrightarrow> (sid, prepare_query ?gid) \<in> set (sends tr1)"
    "\<forall>sid q. (sid, q) \<in> set (sends tr1) \<longrightarrow> ((sid, ?gid), ()) \<in> set (h_now (distributed_transaction rc))
        \<and> (\<exists>r. Got sid (Some r) \<in> set tr1 \<and> res_status r \<in> {PGRES_COMMAND_OK, PGRES_TUPLES_OK})"
    by blast
  have same: "rc_trace ?s = rc_trace rc" "RemoteTransactionGid ?s = ?gid" "conn_state ?s = conn_state rc"
    "h_base (distributed_transaction ?s) = h_now (distributed_transaction rc)"
    by (simp_all add: tables_commit_def conn_state_def fun_eq_iff heap_commit_def)
  from assms(5) obtain r1 rc2 where c: "CuckooRemoteCommandCommit E ?s = Returns (r1, rc2)"
    and s': "rc_trace (txn_remote s') = rc_trace rc2" "distributed_transaction (txn_remote s') = distributed_transaction rc2"
    by (rule on_commit_remote)
  from Commit_any [OF c] obtain tr2 where t2: "rc_trace rc2 = rc_trace ?s @ tr2"
    "\<forall>(sid, q) \<in> set (sends tr2). conn_state rc sid \<noteq> CUCKOO_REMOTE_TRANSACTION_NONE
        \<and> q = commit_command ?gid (conn_state rc sid)"
    "distributed_transaction rc2 = distributed_transaction ?s"
    unfolding same by blast
  have new: "q = commit_command ?gid (conn_state rc sid)" if "(sid, q) \<in> set (sends tr2)" for sid q
    using that t2(2) by blast
  have old: "q = prepare_query ?gid" if "(sid, q) \<in> set (sends tr1)" for sid q
    using that t1(2) by (metis image_subset_iff singletonD snd_conv)
  show ?thesis
  proof (intro exI [of _ ?gid] exI [of _ "tr1 @ tr2"] conjI)
    show "rc_trace (txn_remote s') = rc_trace (txn_remote s) @ (tr1 @ tr2)"
      using s'(1) t2(1) same(1) t1(1) by simp
    have "snd ` set (sends (tr1 @ tr2)) \<subseteq> insert (prepare_query ?gid) (commit_queries ?gid)"
    proof (rule image_subsetI)
      fix x assume "x \<in> set (sends (tr1 @ tr2))"
      then show "snd x \<in> insert (prepare_query ?gid) (commit_queries ?gid)"
        using old [of "fst x" "snd x"] new [of "fst x" "snd x"] command_kinds(1) by auto
    qed
    moreover have "(sid, prepare_query ?gid) \<in> set (sends (tr1 @ tr2))"
      if "(sid, QueryParams (commit_prepared_command ?gid)) \<in> set (sends (tr1 @ tr2))" for sid
    proof -
      have "(sid, QueryParams (commit_prepared_command ?gid)) \<notin> set (sends tr1)"
        using old by (fastforce simp: prepare_query_def prepare_command_def commit_prepared_command_def)
      then have "(sid, QueryParams (commit_prepared_command ?gid)) \<in> set (sends tr2)" using that by simp
      from new [OF this] have "conn_state rc sid = CUCKOO_REMOTE_TRANSACTION_PREPARE"
        using commit_prepared_only_prepared by metis
      then show ?thesis using t1(3) by simp
    qed
    moreover have "recorded (txn_remote s') sid ?gid
        \<and> (\<exists>r. Got sid (Some r) \<in> set (tr1 @ tr2) \<and> res_status r \<in> {PGRES_COMMAND_OK, PGRES_TUPLES_OK})"
      if "(sid, prepare_query ?gid) \<in> set (sends (tr1 @ tr2))" for sid
    proof -
      have "(sid, prepare_query ?gid) \<in> set (sends tr1)" using that new prepare_not_commit by fastforce
      then show ?thesis using t1(4) s'(2) t2(3) same(4) by fastforce
    qed
    ultimately show "snd ` set (sends (tr1 @ tr2)) \<subseteq> insert (prepare_query ?gid) (commit_queries ?gid)"
        "\<forall>sid. (sid, QueryParams (commit_prepared_command ?gid)) \<in> set (sends (tr1 @ tr2))
          \<longrightarrow> (sid, prepare_query ?gid) \<in> set (sends (tr1 @ tr2))"
        "\<forall>sid. (sid, prepare_query ?gid) \<in> set (sends (tr1 @ tr2))
          \<longrightarrow> recorded (txn_remote s') sid ?gid
            \<and> (\<exists>r. Got sid (Some r) \<in> set (tr1 @ tr2) \<and> res_status r \<in> {PGRES_COMMAND_OK, PGRES_TUPLES_OK})"
      by blast+
  qed
qed

lemma abort_decides:
  assumes "CuckooRemoteCommandPrepare E (txn_remote s) = Returns (Inl e, rc)"
    and "on_abort P E (tables_abort (s\<lparr>txn_remote := rc\<rparr>)) = Returns (r, s')"
  shows "\<exists>gid tr. rc_trace (txn_remote s') = rc_trace (txn_remote s) @ tr
     \<and> snd ` set (sends tr) \<subseteq> insert (prepare_query gid) (rollback_queries gid)
     \<and> h_base (distributed_transaction (txn_remote s')) = h_base (distributed_transaction (txn_remote s))"
proof -
  let ?gid = "RemoteTransactionGid rc" and ?s = "txn_remote (tables_abort (s\<lparr>txn_remote := rc\<rparr>))"
  from Prepare_any [OF assms(1)] obtain tr1 where t1: "rc_trace rc = rc_trace (txn_remote s) @ tr1"
    "snd ` set (sends tr1) \<subseteq> {prepare_query ?gid}"
    "h_base (distributed_transaction rc) = h_base (distributed_transaction (txn_remote s))"
    unfolding prepare_query_def by blast
  have same: "rc_trace ?s = rc_trace rc" "RemoteTransactionGid ?s = ?gid"
    "h_base (distributed_transaction ?s) = h_base (distributed_transaction (txn_remote s))"
    using t1(3) by (simp_all add: tables_abort_def heap_abort_def)
  have "\<exists>tr2. rc_trace (txn_remote s') = rc_trace ?s @ tr2 \<and> snd ` set (sends tr2) \<subseteq> rollback_queries ?gid
      \<and> distributed_transaction (txn_remote s') = distributed_transaction ?s"
    using on_abort_remote [OF assms(2)]
  proof (elim disjE exE conjE)
    fix r1 rc2
    assume "CuckooRemoteCommandAbort E ?s = Returns (r1, rc2)"
      and "rc_trace (txn_remote s') = rc_trace rc2" "distributed_transaction (txn_remote s') = distributed_transaction rc2"
    then show ?thesis using Abort_any [of E ?s r1 rc2] command_kinds(2) unfolding same by fastforce
  qed (auto intro: exI [of _ "[]"])
  then obtain tr2 where "rc_trace (txn_remote s') = rc_trace ?s @ tr2" "snd ` set (sends tr2) \<subseteq> rollback_queries ?gid"
    "distributed_transaction (txn_remote s') = distributed_transaction ?s" by blast
  then show ?thesis using t1 same
    by (intro exI [of _ ?gid] exI [of _ "tr1 @ tr2"]) auto
qed



section \<open>Explicit transactions are never prepared\<close>

inductive explicit_reach :: "'p pg_ops \<Rightarrow> dir_env \<Rightarrow> pq_env \<Rightarrow> 'p txn_state \<Rightarrow> bool" for P D E where
  start: "cuckooExplicitTransactionState s = CUCKOO_EXPLICIT_TRANSACTION_NONE \<Longrightarrow> explicit_reach P D E s"
| begin_block: "explicit_reach P D E s \<Longrightarrow> CuckooExplicitTransactionBegin P s = Returns (r, s') \<Longrightarrow> explicit_reach P D E s'"
| commit_block: "explicit_reach P D E s \<Longrightarrow> CuckooExplicitTransactionCommit P s = Returns (b, s') \<Longrightarrow> explicit_reach P D E s'"
| rollback_block: "explicit_reach P D E s \<Longrightarrow> CuckooExplicitTransactionRollback P s = Returns (r, s') \<Longrightarrow> explicit_reach P D E s'"
| prepare_block: "explicit_reach P D E s \<Longrightarrow> CuckooExplicitTransactionPrepare P gid s = Returns (b, s') \<Longrightarrow> explicit_reach P D E s'"
| commit_prepared: "explicit_reach P D E s \<Longrightarrow> CuckooExplicitTransactionCommitPrepared P gid s = Returns (r, s')
    \<Longrightarrow> explicit_reach P D E s'"
| rollback_prepared: "explicit_reach P D E s \<Longrightarrow> CuckooExplicitTransactionRollbackPrepared P gid s = Returns (r, s')
    \<Longrightarrow> explicit_reach P D E s'"
| event: "explicit_reach P D E s \<Longrightarrow> CuckooTransactionCallback P D E event s = Returns (r, s') \<Longrightarrow> explicit_reach P D E s'"

definition unprepared :: "'p txn_state \<Rightarrow> 'p txn_state \<Rightarrow> bool" where
  "unprepared s s' \<longleftrightarrow> (cuckooExplicitTransactionState s \<noteq> CUCKOO_EXPLICIT_TRANSACTION_PREPARED
     \<longrightarrow> cuckooExplicitTransactionState s' \<noteq> CUCKOO_EXPLICIT_TRANSACTION_PREPARED)"

lemma unprepared_bind [intro!]:
  "exec_keeps unprepared m \<Longrightarrow> (\<And>x. exec_keeps unprepared (f x)) \<Longrightarrow> exec_keeps unprepared (exec_bind m f)"
  by (rule exec_keeps_bind) (auto simp: unprepared_def)

lemma unprepared_if [intro!]:
  "exec_keeps unprepared m \<Longrightarrow> exec_keeps unprepared m' \<Longrightarrow> exec_keeps unprepared (if b then m else m')"
  by simp

lemma unprepared_steps [intro!]:
  "exec_keeps unprepared (on_block g)" "exec_keeps unprepared (on_remote m)"
  "exec_keeps unprepared (exec_modify reset_path_parse)" "exec_keeps unprepared (commit_dirs D)"
  "exec_keeps unprepared (release_locks keep)" "exec_keeps unprepared (exec_modify clear_remote)"
  "exec_keeps unprepared (exec_modify CuckooEnterAbortProgress)" "exec_keeps unprepared (exec_modify CuckooQuitAbortProgress)"
  "exec_keeps unprepared (exec_modify (\<lambda>s. s\<lparr>txn_dirs := AbortForDirPathHash (txn_dirs s)\<rparr>))"
  "exec_keeps unprepared (exec_gets k)" "exec_keeps unprepared (exec_return x)" "exec_keeps unprepared (exec_raise e)"
  "exec_keeps unprepared (require_state st)" "exec_keeps unprepared (block_step h)" "exec_keeps unprepared (block_ask a)"
  "exec_keeps unprepared (set_state CUCKOO_EXPLICIT_TRANSACTION_NONE)"
  "exec_keeps unprepared (set_state CUCKOO_EXPLICIT_TRANSACTION_BEGIN)"
  by (rule exec_keepsI; auto simp: unprepared_def on_block_def on_remote_def run_bind_Returns_iff
      reset_path_parse_def commit_dirs_def release_locks_def clear_remote_def CuckooEnterAbortProgress_def
      CuckooQuitAbortProgress_def require_state_def set_state_def block_step_def block_ask_def
      split: option.splits sum.splits if_splits prod.splits)+

lemma explicit_unprepared:
  "exec_keeps unprepared (CuckooExplicitTransactionBegin P)"
  "exec_keeps unprepared (CuckooExplicitTransactionCommit P)"
  "exec_keeps unprepared (CuckooExplicitTransactionRollback P)"
  "exec_keeps unprepared (CuckooExplicitTransactionPrepare P gid)"
  "exec_keeps unprepared (CuckooExplicitTransactionCommitPrepared P gid)"
  "exec_keeps unprepared (CuckooExplicitTransactionRollbackPrepared P gid)"
  unfolding CuckooExplicitTransactionBegin_def CuckooExplicitTransactionCommit_def
    CuckooExplicitTransactionRollback_def CuckooExplicitTransactionPrepare_def
    CuckooExplicitTransactionCommitPrepared_def CuckooExplicitTransactionRollbackPrepared_def
  by blast+

lemma callback_unprepared: "exec_keeps unprepared (CuckooTransactionCallback P D E event)"
  unfolding CuckooTransactionCallback_def on_commit_def on_abort_def
  using explicit_unprepared(3) by (cases event) (simp_all del: exec_simps, blast+)

lemma unpreparedD:
  "exec_keeps unprepared m \<Longrightarrow> m s = Returns (r, s')
    \<Longrightarrow> cuckooExplicitTransactionState s \<noteq> CUCKOO_EXPLICIT_TRANSACTION_PREPARED
    \<Longrightarrow> cuckooExplicitTransactionState s' \<noteq> CUCKOO_EXPLICIT_TRANSACTION_PREPARED"
  using exec_keepsD by (fastforce simp: unprepared_def)

lemma explicit_reach_unprepared:
  "explicit_reach P D E s \<Longrightarrow> cuckooExplicitTransactionState s \<noteq> CUCKOO_EXPLICIT_TRANSACTION_PREPARED"
proof (induction rule: explicit_reach.induct)
  case (begin_block s r s')
  show ?case by (rule unpreparedD [OF explicit_unprepared(1) begin_block.hyps(2) begin_block.IH])
next
  case (commit_block s b s')
  show ?case by (rule unpreparedD [OF explicit_unprepared(2) commit_block.hyps(2) commit_block.IH])
next
  case (rollback_block s r s')
  show ?case by (rule unpreparedD [OF explicit_unprepared(3) rollback_block.hyps(2) rollback_block.IH])
next
  case (prepare_block s gid b s')
  show ?case by (rule unpreparedD [OF explicit_unprepared(4) prepare_block.hyps(2) prepare_block.IH])
next
  case (commit_prepared s gid r s')
  show ?case by (rule unpreparedD [OF explicit_unprepared(5) commit_prepared.hyps(2) commit_prepared.IH])
next
  case (rollback_prepared s gid r s')
  show ?case by (rule unpreparedD [OF explicit_unprepared(6) rollback_prepared.hyps(2) rollback_prepared.IH])
next
  case (event s ev r s')
  show ?case by (rule unpreparedD [OF callback_unprepared event.hyps(2) event.IH])
qed simp

text \<open>
  C20: no sequence of calls prepares an explicit transaction for its second phase. Preparing returns
  the state to none instead of prepared, so that in every reachable state committing or rolling back a
  prepared explicit transaction fails with \<^const>\<open>PROGRAM_ERROR\<close> before it does anything.
\<close>

theorem explicit_prepared_unreachable:
  assumes "explicit_reach P D E s"
  shows "CuckooExplicitTransactionCommitPrepared P gid s = Returns (Inl PROGRAM_ERROR, s)
     \<and> CuckooExplicitTransactionRollbackPrepared P gid s = Returns (Inl PROGRAM_ERROR, s)"
  using explicit_reach_unprepared [OF assms]
  by (simp add: CuckooExplicitTransactionCommitPrepared_def CuckooExplicitTransactionRollbackPrepared_def
      require_state_def)


section \<open>What a transaction leaves behind\<close>

lemma dir_inv_locks:
  fixes d :: dir_state and b :: "DirPathHashKey backend"
  shows "dir_inv D (d\<lparr>dir_locks := b\<rparr>) = dir_inv D d" "abs_dir (d\<lparr>dir_locks := b\<rparr>) = abs_dir d"
proof -
  let ?d = "d\<lparr>dir_locks := b\<rparr>"
  have "cache D ?d = cache D d" by (rule cache_same_parts) simp
  moreover have "dir_wf D ?d = dir_wf D d" by (rule dir_wf_same_parts) simp_all
  moreover have "updates_mirror_table ?d = updates_mirror_table d" by (rule mirror_cong) simp_all
  ultimately show "dir_inv D ?d = dir_inv D d" by (simp add: dir_inv_def cache_ok_def coherent_def)
  show "abs_dir ?d = abs_dir d" by (simp add: abs_dir_def)
qed

definition left_clean :: "'p txn_state \<Rightarrow> bool" where
  "left_clean s \<longleftrightarrow> held_rwlocks (dir_locks (txn_dirs s)) = [] \<and> DirPathHashToCommit (txn_dirs s) = []
     \<and> TransactionLevelPathParseRoot s = None \<and> RemoteConnectionCommandCache (txn_remote s) = None
     \<and> PGresultToBeCleared (txn_remote s) = [] \<and> \<not> LocalServerWrite (txn_remote s)
     \<and> RemoteTransactionGid (txn_remote s) = []"

lemma clear_remote_clean:
  "txn_dirs (clear_remote s) = txn_dirs s"
  "TransactionLevelPathParseRoot (clear_remote s) = TransactionLevelPathParseRoot s"
  "RemoteConnectionCommandCache (txn_remote (clear_remote s)) = None"
  "PGresultToBeCleared (txn_remote (clear_remote s)) = []" "\<not> LocalServerWrite (txn_remote (clear_remote s))"
  "RemoteTransactionGid (txn_remote (clear_remote s)) = []"
  "InprogressTransactions (txn_remote (clear_remote s)) =
     (if RemoteTransactionGid (txn_remote s) = [] then InprogressTransactions (txn_remote s)
      else filter (\<lambda>g. g \<noteq> RemoteTransactionGid (txn_remote s)) (InprogressTransactions (txn_remote s)))"
  by (simp_all add: clear_remote_def ClearRemoteConnectionCommand_def ClearRemoteTransactionGid_def
      RemoveInprogressTransaction_def)

lemma release_locks_run:
  "\<exists>b. release_locks keep s = Returns (Inr (), s\<lparr>txn_dirs := (txn_dirs s)\<lparr>dir_locks := b\<rparr>\<rparr>) \<and> held_rwlocks b = []"
  using ReleaseAll_all [of keep "dir_locks (txn_dirs s)"] by (auto simp: release_locks_def)

lemma Rollback_frame:
  assumes "CuckooExplicitTransactionRollback P s = Returns (r, s')"
  shows "txn_dirs s' = txn_dirs s" "txn_remote s' = txn_remote s"
    "TransactionLevelPathParseRoot s' = TransactionLevelPathParseRoot s"
  using assms unfolding CuckooExplicitTransactionRollback_def
  by (auto elim!: exec_bind_Returns simp: require_state_def block_step_def on_block_def set_state_def
      split: prod.splits if_splits)

lemma on_commit_clean:
  assumes "dir_inv D (txn_dirs s)" "on_commit D E (tables_commit s) = Returns (Inr (), s')"
  shows "left_clean s' \<and> dir_inv D (txn_dirs s') \<and> abs_dir (txn_dirs s') = spec_commit (abs_dir (txn_dirs s))
     \<and> set (InprogressTransactions (txn_remote s')) \<subseteq> set (InprogressTransactions (txn_remote s))
     \<and> (RemoteTransactionGid (txn_remote s) \<noteq> []
          \<longrightarrow> RemoteTransactionGid (txn_remote s) \<notin> set (InprogressTransactions (txn_remote s')))"
proof -
  from assms(2) obtain rc where c: "CuckooRemoteCommandCommit E (txn_remote (tables_commit s)) = Returns (Inr (), rc)"
    and rest: "exec_bind (exec_modify reset_path_parse) (\<lambda>_. exec_bind (commit_dirs D) (\<lambda>_.
      exec_bind (release_locks False) (\<lambda>_. exec_modify clear_remote))) ((tables_commit s)\<lparr>txn_remote := rc\<rparr>)
      = Returns (Inr (), s')"
    unfolding on_commit_def by (auto elim!: exec_bind_Inr on_remote_Returns)
  obtain d where d: "end_commit D (txn_dirs s) = Some d" "dir_inv D d" "DirPathHashToCommit d = []"
    "directory_table d = heap_commit (directory_table (txn_dirs s))"
    using commit_refines [OF assms(1)] by blast
  define s2 where "s2 = (reset_path_parse ((tables_commit s)\<lparr>txn_remote := rc\<rparr>))\<lparr>txn_dirs := d\<rparr>"
  have "exec_bind (release_locks False) (\<lambda>_. exec_modify clear_remote) s2 = Returns (Inr (), s')"
    using rest d(1) unfolding exec_bind_run s2_def
    by (simp add: commit_dirs_def reset_path_parse_def tables_commit_def end_commit_def)
  moreover obtain b where b: "release_locks False s2 = Returns (Inr (), s2\<lparr>txn_dirs := (txn_dirs s2)\<lparr>dir_locks := b\<rparr>\<rparr>)"
    "held_rwlocks b = []" using release_locks_run by blast
  ultimately have s': "s' = clear_remote (s2\<lparr>txn_dirs := d\<lparr>dir_locks := b\<rparr>\<rparr>)" by (simp add: s2_def)
  have rc: "RemoteTransactionGid rc = RemoteTransactionGid (txn_remote s)"
    "InprogressTransactions rc = InprogressTransactions (txn_remote s)"
    using Commit_any [OF c] by (auto simp: tables_commit_def)
  have "abs_dir d = spec_commit (abs_dir (txn_dirs s))"
    using d(4) by (simp add: abs_dir_def spec_commit_def heap_commit_def)
  then show ?thesis using b(2) d(2,3) dir_inv_locks [where d = d and b = b] rc
    by (auto simp: s' clear_remote_clean left_clean_def s2_def reset_path_parse_def TransactionLevelPathParseReset_def)
qed

lemma on_abort_clean:
  assumes "dir_inv D (txn_dirs s)" "on_abort P E (tables_abort s) = Returns (Inr (), s')"
  shows "left_clean s' \<and> dir_inv D (txn_dirs s') \<and> abs_dir (txn_dirs s') = spec_abort (abs_dir (txn_dirs s))
     \<and> \<not> CuckooInAbortProgress s'
     \<and> set (InprogressTransactions (txn_remote s')) \<subseteq> set (InprogressTransactions (txn_remote s))
     \<and> (RemoteTransactionGid (txn_remote s) \<noteq> []
          \<longrightarrow> RemoteTransactionGid (txn_remote s) \<notin> set (InprogressTransactions (txn_remote s')))"
proof -
  define s1 where "s1 = (let s = reset_path_parse (CuckooEnterAbortProgress (tables_abort s)) in
     s\<lparr>txn_dirs := AbortForDirPathHash (txn_dirs s)\<rparr>)"
  define d where "d = end_abort (txn_dirs s)"
  have s1: "txn_dirs s1 = d" "txn_remote s1 = txn_remote (tables_abort s)" "TransactionLevelPathParseRoot s1 = None"
    by (simp_all add: s1_def d_def end_abort_def reset_path_parse_def CuckooEnterAbortProgress_def tables_abort_def
        TransactionLevelPathParseReset_def Let_def)
  have d: "dir_inv D d" "DirPathHashToCommit d = []" "abs_dir d = spec_abort (abs_dir (txn_dirs s))"
    using abort_refines [of D "txn_dirs s"] assms(1)
    by (simp_all add: d_def dir_inv_def end_abort_def AbortForDirPathHash_def DirPathHashToCommitClear_def
        abs_dir_def spec_abort_def heap_abort_def)
  obtain b where b: "release_locks True s1 = Returns (Inr (), s1\<lparr>txn_dirs := d\<lparr>dir_locks := b\<rparr>\<rparr>)" "held_rwlocks b = []"
    using release_locks_run [of True s1] s1(1) by auto
  have "exec_bind (release_locks True) (\<lambda>_. exec_bind (on_remote (CuckooRemoteCommandAbort E)) (\<lambda>_.
     exec_bind (exec_modify clear_remote) (\<lambda>_.
     exec_bind (exec_gets cuckooExplicitTransactionState) (\<lambda>st.
     exec_bind (if st = CUCKOO_EXPLICIT_TRANSACTION_BEGIN then CuckooExplicitTransactionRollback P
                else exec_return ()) (\<lambda>_.
     exec_modify CuckooQuitAbortProgress))))) s1 = Returns (Inr (), s')"
    using assms(2) unfolding on_abort_def exec_bind_run s1_def Let_def .
  then obtain r rc s3 where a: "CuckooRemoteCommandAbort E (txn_remote (tables_abort s)) = Returns (Inr r, rc)"
    and s3: "(if cuckooExplicitTransactionState s1 = CUCKOO_EXPLICIT_TRANSACTION_BEGIN
        then CuckooExplicitTransactionRollback P else exec_return ())
        (clear_remote (s1\<lparr>txn_dirs := d\<lparr>dir_locks := b\<rparr>, txn_remote := rc\<rparr>)) = Returns (Inr (), s3)"
    and s': "s' = CuckooQuitAbortProgress s3"
    using b(1) s1(2) by (auto elim!: exec_bind_Inr on_remote_Returns simp: exec_bind_run clear_remote_def)
  have "txn_dirs s3 = d\<lparr>dir_locks := b\<rparr>" "TransactionLevelPathParseRoot s3 = None"
    "txn_remote s3 = ClearRemoteConnectionCommand (ClearRemoteTransactionGid rc)"
    using s3 s1(3) by (auto simp: clear_remote_def split: if_splits dest: Rollback_frame)
  moreover have "RemoteTransactionGid rc = RemoteTransactionGid (txn_remote s)"
    "InprogressTransactions rc = InprogressTransactions (txn_remote s)"
    using Abort_any [OF a] by (auto simp: tables_abort_def)
  ultimately show ?thesis using b(2) d dir_inv_locks [where d = d and b = b]
    by (auto simp: s' left_clean_def CuckooQuitAbortProgress_def ClearRemoteConnectionCommand_def
        ClearRemoteTransactionGid_def RemoveInprogressTransaction_def)
qed



section \<open>A concrete transaction\<close>

definition idle_ops :: "unit pg_ops" where
  "idle_ops = \<lparr>BeginTransactionBlock = id, EndTransactionBlock = (\<lambda>p. (True, p)), UserAbortTransactionBlock = id,
     PrepareTransactionBlock = (\<lambda>gid p. (True, p)), FinishPreparedTransaction = (\<lambda>gid b p. (Inr (), p)),
     PreventInTransactionBlock = (\<lambda>p. (Inr (), p)), CommitTransactionCommand = (\<lambda>p. (Inr (), p)),
     set_isolation_level = (\<lambda>p. (True, p))\<rparr>"

definition coordinator_txn :: "unit txn_state" where
  "coordinator_txn = \<lparr>txn_dirs = small_dir, TransactionLevelPathParseRoot = None, txn_remote = coordinator,
     cuckooExplicitTransactionState = CUCKOO_EXPLICIT_TRANSACTION_NONE, CuckooInAbortProgress = False,
     CuckooBackgroundServiceStarted = True, txn_block = ()\<rparr>"

lemma coordinator_commits:
  "case end_transaction idle_ops small_env cluster_env coordinator_txn of
     Returns (d, r, s) \<Rightarrow> d \<and> r = Inr ()
       \<and> sends (rc_trace (txn_remote s)) =
           map (\<lambda>sid. (sid, QueryParams (prepare_command ''cuckoo_xact_42:0:T''))) [1, 2]
         @ map (\<lambda>sid. (sid, QueryParams (commit_prepared_command ''cuckoo_xact_42:0:T''))) [1, 2]
   | _ \<Rightarrow> False"
  by code_simp


lemma coordinator_txn_facts:
  "\<forall>cache. RemoteConnectionCommandCache (txn_remote coordinator_txn) = Some cache
     \<longrightarrow> distinct (worker_ids cluster_env cache)"
  "\<forall>sid. conn_state (txn_remote coordinator_txn) sid \<noteq> CUCKOO_REMOTE_TRANSACTION_PREPARE"
  "rc_trace (txn_remote coordinator_txn) = []"
  by (auto simp: coordinator_txn_def coordinator_def worker_ids_def cluster_env_def conn_state_def cluster_servers_def)

lemma coordinator_run:
  obtains s' where "end_transaction idle_ops small_env cluster_env coordinator_txn = Returns (True, Inr (), s')"
    "sends (rc_trace (txn_remote s')) =
       map (\<lambda>sid. (sid, QueryParams (prepare_command ''cuckoo_xact_42:0:T''))) [1, 2]
     @ map (\<lambda>sid. (sid, QueryParams (commit_prepared_command ''cuckoo_xact_42:0:T''))) [1, 2]"
  using coordinator_commits
  by (cases "end_transaction idle_ops small_env cluster_env coordinator_txn") auto



theorem explicit_prepared_unreachable_witness:
  "CuckooExplicitTransactionCommitPrepared idle_ops ''g'' coordinator_txn = Returns (Inl PROGRAM_ERROR, coordinator_txn)"
  using explicit_prepared_unreachable [OF explicit_reach.start, of coordinator_txn idle_ops "''g''"]
  by (simp add: coordinator_txn_def)

section \<open>Failures the protocol does not survive\<close>

text \<open>Server 2 has become unreachable and its connection is opened anew before the first phase.\<close>

definition reconnect_env :: pq_env where
  "reconnect_env = cluster_env\<lparr>conn_broken := (\<lambda>tr sid. sid = 2 \<and> tr = [])\<rparr>"



text \<open>
  A worker as the coordinator sees it: the directory is inserted, the transaction is prepared, the
  backend ends with its connection, and later another backend commits what was prepared. The cache the
  backends share is left as the first backend had it.
\<close>

definition on_dirs :: "(dir_state, 'a) exec \<Rightarrow> ('p txn_state, 'a) exec" where
  "on_dirs m s = run_bind (m (txn_dirs s)) (\<lambda>(r, d). Returns (r, s\<lparr>txn_dirs := d\<rparr>))"

definition prepared_then_gone :: "dir_env \<Rightarrow> pq_env \<Rightarrow> u64 \<Rightarrow> string \<Rightarrow> u64 \<Rightarrow> (unit txn_state, unit) exec" where
  "prepared_then_gone D E parentId name inodeId =
     exec_bind (on_dirs (InsertDirectoryByDirectoryHashTable D parentId name inodeId DIR_LOCK_EXCLUSIVE)) (\<lambda>_.
     exec_bind (CuckooTransactionCallback idle_ops D E XACT_EVENT_PREPARE) (\<lambda>_. CuckooCleanupOnExit))"

definition committed_elsewhere :: "unit txn_state \<Rightarrow> dir_state" where
  "committed_elsewhere s = (txn_dirs s)\<lparr>directory_table := heap_commit (directory_table (txn_dirs s))\<rparr>"

declare entry_loop.simps [code] acquire_loop.simps [code] eliminate_loop.simps [code] rescan_loop.simps [code]


end
