(* ===== verification/Transaction_Cleanup.thy ===== *)
theory Transaction_Cleanup
  imports Transaction
begin

text \<open>
  \<^verbatim>\<open>cuckoo/transaction/transaction_cleanup.c\<close>: the process that finishes distributed transactions whose
  coordinator could not. For each server it compares four sets: the transactions prepared there (read
  twice), those in progress on the coordinator and those recorded as prepared in the committed table.
  \<open>set_seq\<close> is the order in which \<^verbatim>\<open>hash_seq_search\<close> enumerates a hash set.
\<close>

section \<open>The code\<close>

text \<open>
  The hash sets have string keys of fixed size: a longer name is cut, on insertion and on lookup.
\<close>

definition set_key :: "string \<Rightarrow> string" where
  "set_key transaction = take (MAX_TRANSACTION_GID_LENGTH - 1) transaction"

definition HashSetEnter :: "string \<Rightarrow> string list \<Rightarrow> string list" where
  "HashSetEnter transaction gids = List.insert (set_key transaction) gids"

definition HashSetErase :: "string list \<Rightarrow> string \<Rightarrow> string list" where
  "HashSetErase gids transaction = filter (\<lambda>g. g \<noteq> set_key transaction) gids"

definition IsTransactionInSet :: "string list \<Rightarrow> string \<Rightarrow> bool" where
  "IsTransactionInSet gids transaction \<longleftrightarrow> set_key transaction \<in> set gids"

definition prepared_query :: "int \<Rightarrow> string" where
  "prepared_query localId =
     ''SELECT gid FROM pg_prepared_xacts WHERE gid LIKE '' @
     quoted (CUCKOO_TRANSACTION_2PC_HEAD @ ''%:'' @ signed_decimal localId @ '':%'')"

text \<open>\<^verbatim>\<open>list_nth\<close> of an empty list and \<^verbatim>\<open>PQgetvalue\<close> of a missing column give a pointer that must not be read.\<close>

definition first_column :: "string list list \<Rightarrow> string list option" where
  "first_column rows = (if list_all (\<lambda>row. row \<noteq> []) rows then Some (map hd rows) else None)"

definition GetRemotePreparedTransactionSet :: "pq_env \<Rightarrow> int \<Rightarrow> (rc_state, string list) exec" where
  "GetRemotePreparedTransactionSet E serverId =
     exec_bind (exec_op (on_servers (GetLocalServerId (text_clip E) (server_seq E)))) (\<lambda>localId.
     exec_bind (exec_modify (CuckooPlainCommandOnWorkerList (prepared_query localId)
       REMOTE_COMMAND_FLAG_NO_BEGIN [serverId])) (\<lambda>_.
     exec_bind (CuckooSendCommandAndWaitForResult E) (\<lambda>allResList.
     case allResList of
       (sid, res # _) # _ \<Rightarrow>
         (case first_column (res_rows res) of
            Some gids \<Rightarrow> exec_return (fold HashSetEnter gids [])
          | None \<Rightarrow> (\<lambda>s. Faults))
     | _ \<Rightarrow> (\<lambda>s. Faults))))"

definition GetActiveTransactionSet :: "rc_state \<Rightarrow> string list" where
  "GetActiveTransactionSet s = fold HashSetEnter (InprogressTransactions s) []"

definition CommitOrRollbackPreparedTransaction :: "pq_env \<Rightarrow> int \<Rightarrow> string \<Rightarrow> bool \<Rightarrow> (rc_state, bool) exec" where
  "CommitOrRollbackPreparedTransaction E serverId transactionGid isCommit =
     exec_bind (exec_modify (CuckooPlainCommandOnWorkerList
       (if isCommit then commit_prepared_command transactionGid else rollback_prepared_command transactionGid)
       REMOTE_COMMAND_FLAG_NO_BEGIN [serverId])) (\<lambda>_.
     exec_bind (CuckooSendCommandAndWaitForResult E) (\<lambda>_. exec_return True))"

definition recorded_gids :: "int \<Rightarrow> rc_state \<Rightarrow> string list" where
  "recorded_gids serverId s =
     map (snd \<circ> fst) (filter (\<lambda>((nodeid, gid), _). nodeid = serverId) (h_seen (distributed_transaction s)))"

definition delete_record :: "int \<Rightarrow> string \<Rightarrow> (rc_state, unit) op" where
  "delete_record serverId gid s =
     (case heap_delete (serverId, gid) (distributed_transaction s) of
        (r, h) \<Rightarrow> (r, s\<lparr>distributed_transaction := h\<rparr>))"

text \<open>The loop over the records; the result is what is left of the first set and the count.\<close>

primrec record_loop ::
    "pq_env \<Rightarrow> int \<Rightarrow> string list \<Rightarrow> string list \<Rightarrow> string list \<Rightarrow> string list \<Rightarrow> int
     \<Rightarrow> (rc_state, string list \<times> int) exec" where
  "record_loop E serverId setB setD [] setA n = exec_return (setA, n)"
| "record_loop E serverId setB setD (transactionGid # records) setA n =
     (if IsTransactionInSet setB transactionGid then record_loop E serverId setB setD records setA n
      else
        let foundInSetA = IsTransactionInSet setA transactionGid;
            foundInSetD = IsTransactionInSet setD transactionGid in
        if foundInSetA \<and> foundInSetD then
          exec_bind (CommitOrRollbackPreparedTransaction E serverId transactionGid True) (\<lambda>_.
          record_loop E serverId setB setD records (HashSetErase setA transactionGid) (n + 1))
        else if \<not> foundInSetA \<and> foundInSetD then record_loop E serverId setB setD records setA n
        else
          exec_bind (exec_op (delete_record serverId transactionGid)) (\<lambda>_.
          record_loop E serverId setB setD records
            (if foundInSetA then HashSetErase setA transactionGid else setA) n))"

primrec residue_loop :: "pq_env \<Rightarrow> int \<Rightarrow> string list \<Rightarrow> string list \<Rightarrow> int \<Rightarrow> (rc_state, int) exec" where
  "residue_loop E serverId setB [] n = exec_return n"
| "residue_loop E serverId setB (transactionGid # gids) n =
     (if IsTransactionInSet setB transactionGid then residue_loop E serverId setB gids n
      else
        exec_bind (CommitOrRollbackPreparedTransaction E serverId transactionGid False) (\<lambda>_.
        residue_loop E serverId setB gids (n + 1)))"

definition CleanupPreparedTransactions ::
    "pq_env \<Rightarrow> (string list \<Rightarrow> string list) \<Rightarrow> int \<Rightarrow> (rc_state, int) exec" where
  "CleanupPreparedTransactions E set_seq serverId =
     exec_bind (GetRemotePreparedTransactionSet E serverId) (\<lambda>setA.
     exec_bind (exec_gets GetActiveTransactionSet) (\<lambda>setB.
     exec_bind (exec_gets (recorded_gids serverId)) (\<lambda>records.
     exec_bind (GetRemotePreparedTransactionSet E serverId) (\<lambda>setD.
     exec_bind (record_loop E serverId setB setD records setA 0) (\<lambda>(setA, cleanedTransactionCount).
     residue_loop E serverId setB (set_seq setA) cleanedTransactionCount)))))"

text \<open>An error while one server is cleaned is logged and the next server is tried.\<close>

primrec cleanup_servers :: "pq_env \<Rightarrow> (string list \<Rightarrow> string list) \<Rightarrow> int list \<Rightarrow> int \<Rightarrow> (rc_state, int) exec" where
  "cleanup_servers E set_seq [] n = exec_return n"
| "cleanup_servers E set_seq (serverId # ids) n = (\<lambda>s.
     case CleanupPreparedTransactions E set_seq serverId s of
       Returns (Inr k, s') \<Rightarrow> cleanup_servers E set_seq ids (n + k) s'
     | Returns (Inl e, s') \<Rightarrow> cleanup_servers E set_seq ids n s'
     | Loops \<Rightarrow> Loops
     | Faults \<Rightarrow> Faults)"

definition Cleanup2PC :: "pq_env \<Rightarrow> (string list \<Rightarrow> string list) \<Rightarrow> (rc_state, int) exec" where
  "Cleanup2PC E set_seq s =
     run_bind (GetAllForeignServerId (text_clip E) (server_seq E) True False (rc_servers s)) (\<lambda>(r, fs).
       let s = s\<lparr>rc_servers := fs\<rparr> in
       case r of
         Inl e \<Rightarrow> Returns (Inl e, s)
       | Inr workerIdList \<Rightarrow> cleanup_servers E set_seq workerIdList 0 s)"

text \<open>
  The function for the administrator waits until the background services are started, for ever if they
  never are; \<^const>\<open>Loops\<close> stands for that.
\<close>

definition cuckoo_transaction_cleanup_trigger ::
    "pq_env \<Rightarrow> (string list \<Rightarrow> string list) \<Rightarrow> ('p txn_state, int) exec" where
  "cuckoo_transaction_cleanup_trigger E set_seq s =
     (if CheckCuckooBackgroundServiceStarted s then on_remote (Cleanup2PC E set_seq) s else Loops)"

text \<open>
  The background process of server 0: rounds of cleanup, each in a transaction of its own, until the
  process is told to end; here it is told so after \<open>n\<close> rounds. An error that reaches its main routine
  ends the process.
\<close>

definition cleanup_round ::
    "'p pg_ops \<Rightarrow> dir_env \<Rightarrow> pq_env \<Rightarrow> (string list \<Rightarrow> string list) \<Rightarrow> ('p txn_state, int) exec" where
  "cleanup_round P D E set_seq s =
     (case on_remote (Cleanup2PC E set_seq) s of
        Returns (Inl e, s1) \<Rightarrow>
          run_bind (CuckooTransactionCallback P D E XACT_EVENT_ABORT (tables_abort s1)) (\<lambda>(r, s2). Returns (Inl e, s2))
      | Returns (Inr n, s1) \<Rightarrow>
          run_bind (end_transaction P D E s1) (\<lambda>(decided, r, s2).
            Returns (if decided \<and> r = Inr () then Inr n else Inl UNKNOWN, s2))
      | Loops \<Rightarrow> Loops
      | Faults \<Rightarrow> Faults)"

primrec cleanup_rounds ::
    "'p pg_ops \<Rightarrow> dir_env \<Rightarrow> pq_env \<Rightarrow> (string list \<Rightarrow> string list) \<Rightarrow> nat \<Rightarrow> ('p txn_state, unit) exec" where
  "cleanup_rounds P D E set_seq 0 = exec_return ()"
| "cleanup_rounds P D E set_seq (Suc n) =
     exec_bind (cleanup_round P D E set_seq) (\<lambda>_. cleanup_rounds P D E set_seq n)"

definition CuckooDaemon2PCFailureCleanupProcessMain ::
    "'p pg_ops \<Rightarrow> dir_env \<Rightarrow> pq_env \<Rightarrow> (string list \<Rightarrow> string list) \<Rightarrow> nat \<Rightarrow> ('p txn_state, unit) exec" where
  "CuckooDaemon2PCFailureCleanupProcessMain P D E set_seq n s =
     (if \<not> CheckCuckooBackgroundServiceStarted s then Loops
      else exec_bind (on_remote (exec_op (on_servers (GetLocalServerId (text_clip E) (server_seq E))))) (\<lambda>serverId.
        if serverId = 0 then cleanup_rounds P D E set_seq n else exec_return ()) s)"


section \<open>One question to one server\<close>

lemma result_loop_talked:
  assumes "result_loop E sid rs s = Some y"
  shows "\<exists>tr. talked tr s (snd y) \<and> list_all (receives sid) tr"
  using assms
proof (rule result_loop.raw_induct [rotated, where
      P = "\<lambda>E sid rs s y. \<exists>tr. talked tr s (snd y) \<and> list_all (receives sid) tr"])
  fix loop E sid rs s y
  assume IH: "\<And>E sid rs s y. loop E sid rs s = Some y \<Longrightarrow> \<exists>tr. talked tr s (snd y) \<and> list_all (receives sid) tr"
    and step: "(case FetchPGresultAndMark E sid s of
        (res, s1) \<Rightarrow>
          if PQresultStatus res \<notin> {PGRES_COMMAND_OK, PGRES_TUPLES_OK, PGRES_PIPELINE_SYNC}
          then Some (Inl REMOTE_QUERY_FAILED, s1)
          else let over = (PQresultStatus res = PGRES_PIPELINE_SYNC);
                   results1 = (if over then rs else rs @ [the res]) in
            (case FetchPGresultAndMark E sid s1 of
               (None, s2) \<Rightarrow> if over then Some (Inr results1, s2) else loop E sid results1 s2
             | (Some r, s2) \<Rightarrow> Some (Inl PROGRAM_ERROR, s2))) = Some y"
  obtain r1 s1 where f1: "FetchPGresultAndMark E sid s = (r1, s1)" by fastforce
  obtain r2 s2 where f2: "FetchPGresultAndMark E sid s1 = (r2, s2)" by fastforce
  note t1 = Fetch_talked [OF f1]
  have t2: "talked [Got sid r1, Got sid r2] s s2" using talked_trans [OF t1 Fetch_talked [OF f2]] by simp
  have "snd y = s1 \<or> snd y = s2 \<or> (\<exists>rs'. loop E sid rs' s2 = Some y)"
    using step f1 f2 by (auto simp: Let_def split: if_splits option.splits)
  then show "\<exists>tr. talked tr s (snd y) \<and> list_all (receives sid) tr"
  proof (elim disjE exE)
    fix rs' assume "loop E sid rs' s2 = Some y"
    from IH [OF this] obtain tr where "talked tr s2 (snd y)" "list_all (receives sid) tr" by blast
    then show ?thesis using talked_trans [OF t2]
      by (intro exI [of _ "[Got sid r1, Got sid r2] @ tr"]) (auto simp: receives_def)
  qed (use t1 t2 in \<open>auto simp: receives_def intro: exI [of _ "[Got sid r1]"] exI [of _ "[Got sid r1, Got sid r2]"]\<close>)
qed

lemma results_chats [intro!]: "chats (receives sid) (results_of_server E sid b)"
proof -
  have "chats (receives sid) (exec_loop (result_loop E sid rs))" for rs
    by (rule exec_keepsI) (use result_loop_talked in \<open>fastforce simp: exec_loop_def chat_def split: option.splits\<close>)
  then show ?thesis unfolding results_of_server_def by blast
qed

text \<open>
  All commands have been sent and none of them began a transaction; \<open>seq_complete\<close> is the contract of
  \<^verbatim>\<open>hash_seq_search\<close>.
\<close>

definition seq_complete :: "pq_env \<Rightarrow> bool" where
  "seq_complete E \<longleftrightarrow> (\<forall>c. distinct (map fst c)
     \<longrightarrow> set (command_seq E c) = set c \<and> distinct (map fst (command_seq E c)))"

definition commands :: "rc_state \<Rightarrow> (int \<times> RemoteConnectionCommandData) list" where
  "commands s = (case RemoteConnectionCommandCache s of None \<Rightarrow> [] | Some c \<Rightarrow> c)"

definition idle_cache :: "rc_state \<Rightarrow> bool" where
  "idle_cache s \<longleftrightarrow> distinct (map fst (commands s))
     \<and> (\<forall>d \<in> snd ` set (commands s). d = \<lparr>commandFlag = 0, remoteCommandList = []\<rparr>)"

definition asked :: "int \<Rightarrow> query list \<Rightarrow> rc_state \<Rightarrow> rc_state \<Rightarrow> bool" where
  "asked sid qs s s' \<longleftrightarrow> (\<exists>tr. rc_trace s' = rc_trace s @ tr \<and> sends tr = map (Pair sid) qs)
     \<and> idle_cache s' \<and> distributed_transaction s' = distributed_transaction s
     \<and> InprogressTransactions s' = InprogressTransactions s"

lemma asked_trans: "asked sid qs s s1 \<Longrightarrow> asked sid qs' s1 s2 \<Longrightarrow> asked sid (qs @ qs') s s2"
  unfolding asked_def by fastforce

lemma filter_single:
  assumes "distinct xs" "\<And>y. y \<in> set xs \<Longrightarrow> P y \<longleftrightarrow> y = x" "x \<in> set xs"
  shows "filter P xs = [x]"
  using assms
proof (induction xs)
  case (Cons y ys)
  show ?case
  proof (cases "y = x")
    case True
    then have "filter P ys = []" using Cons.prems by (auto simp: filter_empty_conv)
    then show ?thesis using True Cons.prems by simp
  next
    case False
    then show ?thesis using Cons by simp
  qed
qed simp

lemma send_single:
  assumes "send_to_server E sid \<lparr>commandFlag = 0, remoteCommandList = [c]\<rparr> s = Returns (Inr b, s')"
  obtains tr s1 where "\<not> b" "talked tr s s1" "sends tr = [(sid, command_query c)]" "s' = clear_command_list sid s1"
proof -
  from assms obtain u s1 x s2 y s3 where 1: "ClearPGresultInPGconn E sid s = Returns (Inr u, s1)"
    and 2: "send_or_fail E sid (command_query c) s1 = Returns (Inr x, s2)"
    and 3: "sync_or_fail E sid s2 = Returns (Inr y, s3)"
    and s': "\<not> b" "s' = clear_command_list sid (set_conn_state sid (begun_state 0 (conn_state s3 sid)) s3)"
    unfolding send_to_server_def
    by (auto elim!: exec_bind_Inr simp: exec_bind_run REMOTE_COMMAND_FLAG_NO_BEGIN_def split: if_splits)
  from 1 obtain tr1 where t1: "talked tr1 s s1" "list_all (receives sid) tr1" by (rule chatsD [OF Clear_chats])
  from 2 have t2: "talked [Send sid (command_query c) True] s1 s2"
    by (rule send_or_fail_Returns) (auto split: if_splits)
  from 3 have t3: "talked [Sync sid True] s2 s3" by (rule sync_or_fail_Returns) (auto split: if_splits)
  have "begun_state 0 st = st" for st by (simp add: begun_state_def flag_set_def)
  then have "set_conn_state sid (begun_state 0 (conn_state s3 sid)) s3 = s3"
    by (simp add: set_conn_state_def conn_state_def)
  then show thesis
    using that [OF s'(1) talked_trans [OF t1(1) talked_trans [OF t2 t3]]] s'(2) receives_sends [OF t1(2)] by simp
qed

lemma ask_server:
  assumes seq: "seq_complete E" and idle: "idle_cache s"
    and run: "CuckooSendCommandAndWaitForResult E (CuckooPlainCommandOnWorkerList command REMOTE_COMMAND_FLAG_NO_BEGIN [sid] s)
      = Returns (Inr r, s')"
  shows "asked sid [QueryParams command] s s'"
proof -
  define c where "c = \<lparr>metaService = PLAIN_COMMAND, command_count = 1, command_data = plainCommand command\<rparr>"
  define data where "data = \<lparr>commandFlag = 0 :: u32, remoteCommandList = [c]\<rparr>"
  define cs where "cs = AList.update sid data (commands s)"
  have none: "data' = \<lparr>commandFlag = 0, remoteCommandList = []\<rparr>" if "map_of (commands s) sid = Some data'" for data'
    using that idle map_of_SomeD by (fastforce simp: idle_cache_def)
  then have "append_command c 0 (commands s) sid = cs"
    by (auto simp: append_command_def cs_def data_def Let_def split: option.splits)
  then have s1: "CuckooPlainCommandOnWorkerList command REMOTE_COMMAND_FLAG_NO_BEGIN [sid] s
      = s\<lparr>RemoteConnectionCommandCache := Some cs\<rparr>"
    by (cases "RemoteConnectionCommandCache s")
      (simp_all add: CuckooPlainCommandOnWorkerList_def CuckooAppendRemoteCommandToWorkerList_def ensure_cache_def
        RemoteConnectionCommandCacheInit_def commands_def c_def REMOTE_COMMAND_FLAG_NO_BEGIN_def Let_def)
  have dist: "distinct (map fst cs)" using idle by (simp add: cs_def idle_cache_def distinct_update)
  have mem: "(k, d) \<in> set cs \<Longrightarrow> remoteCommandList d \<noteq> [] \<longleftrightarrow> (k, d) = (sid, data)" for k d
  proof -
    assume "(k, d) \<in> set cs"
    then have "map_of cs k = Some d" using dist by simp
    then have "(if k = sid then Some data else map_of (commands s) k) = Some d"
      by (simp add: cs_def update_conv')
    then show ?thesis using idle map_of_SomeD [of "commands s" k d]
      by (auto simp: idle_cache_def data_def split: if_splits)
  qed
  have "map_of cs sid = Some data" by (simp add: cs_def update_conv')
  then have "(sid, data) \<in> set cs" by (rule map_of_SomeD)
  then have todo: "filter (\<lambda>(k, d). remoteCommandList d \<noteq> []) (command_seq E cs) = [(sid, data)]"
    using seq dist mem by (intro filter_single) (auto simp: seq_complete_def distinct_map)
  have "exec_bind (get_connections E [sid]) (\<lambda>_. exec_bind (send_to_servers E [(sid, data)]) (results_of_servers E))
      (s\<lparr>RemoteConnectionCommandCache := Some cs\<rparr>) = Returns (Inr r, s')"
    using run todo unfolding s1 CuckooSendCommandAndWaitForResult_def by (simp add: Let_def)
  then obtain u s2 b s3 rs where 2: "get_connections E [sid] (s\<lparr>RemoteConnectionCommandCache := Some cs\<rparr>) = Returns (Inr u, s2)"
    and 3: "send_to_server E sid data s2 = Returns (Inr b, s3)"
    and 4: "results_of_server E sid b s3 = Returns (Inr rs, s')"
    by (auto elim!: exec_bind_Inr)
  from 2 obtain fs tr2 where t2: "s2 = s\<lparr>RemoteConnectionCommandCache := Some cs, rc_servers := fs, rc_trace := rc_trace s @ tr2\<rparr>"
    "sends tr2 = []" by (elim get_connections_frame) auto
  from 3 obtain tr3 s3' where t3: "talked tr3 s2 s3'" "sends tr3 = [(sid, QueryParams command)]" "s3 = clear_command_list sid s3'"
    unfolding data_def by (elim send_single) (auto simp: command_query_def c_def)
  from 4 obtain tr4 where t4: "talked tr4 s3 s'" "list_all (receives sid) tr4" by (rule chatsD [OF results_chats])
  have cache: "commands s' = AList.map_entry sid (\<lambda>d. d\<lparr>remoteCommandList := []\<rparr>) cs"
    using talked_simps(2) [OF t4(1)] talked_simps(2) [OF t3(1)] t2(1) t3(3) by (simp add: commands_def clear_command_list_def)
  have "d = \<lparr>commandFlag = 0, remoteCommandList = []\<rparr>" if "(k, d) \<in> set (commands s')" for k d
  proof -
    have "map_of (commands s') k = Some d" using that dist unfolding cache by (simp add: distinct_map_entry)
    then show ?thesis using idle map_of_SomeD [of "commands s" k d]
      by (auto simp: cache map_of_map_entry cs_def update_conv' data_def idle_cache_def split: if_splits)
  qed
  then have "idle_cache s'" using dist unfolding idle_cache_def cache by (auto simp: distinct_map_entry)
  moreover have "rc_trace s' = rc_trace s @ (tr2 @ tr3 @ tr4)"
    using talked_simps(8) [OF t4(1)] talked_simps(8) [OF t3(1)] t2(1) t3(3) by (simp add: clear_command_list_def)
  moreover have "sends (tr2 @ tr3 @ tr4) = [(sid, QueryParams command)]"
    using t2(2) t3(2) receives_sends [OF t4(2)] by simp
  moreover have "distributed_transaction s' = distributed_transaction s" "InprogressTransactions s' = InprogressTransactions s"
    using talked_simps [OF t4(1)] talked_simps [OF t3(1)] t2(1) t3(3) by (simp_all add: clear_command_list_def)
  ultimately show ?thesis unfolding asked_def by auto
qed

section \<open>The plan of a cleanup\<close>

text \<open>
  What the cleanup of a server does, as a function of the four sets: \<open>A\<close> and \<open>D\<close> the transactions prepared
  on the server when it is asked first and last, \<open>B\<close> those in progress, \<open>C\<close> those recorded.
\<close>

datatype cleanup_action = CommitIt string | RollBackIt string | DropRecord string

primrec record_actions ::
    "string list \<Rightarrow> string list \<Rightarrow> string list \<Rightarrow> string list \<Rightarrow> cleanup_action list \<times> string list" where
  "record_actions B D [] A = ([], A)"
| "record_actions B D (g # C) A =
     (if IsTransactionInSet B g then record_actions B D C A
      else if IsTransactionInSet A g \<and> IsTransactionInSet D g then
        (case record_actions B D C (HashSetErase A g) of (acts, A') \<Rightarrow> (CommitIt g # acts, A'))
      else if \<not> IsTransactionInSet A g \<and> IsTransactionInSet D g then record_actions B D C A
      else
        (case record_actions B D C (if IsTransactionInSet A g then HashSetErase A g else A) of
           (acts, A') \<Rightarrow> (DropRecord g # acts, A')))"

definition cleanup_plan ::
    "(string list \<Rightarrow> string list) \<Rightarrow> string list \<Rightarrow> string list \<Rightarrow> string list \<Rightarrow> string list \<Rightarrow> cleanup_action list" where
  "cleanup_plan set_seq A B C D =
     (case record_actions B D C A of
        (acts, A') \<Rightarrow> acts @ map RollBackIt (filter (\<lambda>g. \<not> IsTransactionInSet B g) (set_seq A')))"

primrec action_queries :: "cleanup_action \<Rightarrow> query list" where
  "action_queries (CommitIt g) = [QueryParams (commit_prepared_command g)]"
| "action_queries (RollBackIt g) = [QueryParams (rollback_prepared_command g)]"
| "action_queries (DropRecord g) = []"

definition did :: "int \<Rightarrow> cleanup_action list \<Rightarrow> rc_state \<Rightarrow> rc_state \<Rightarrow> bool" where
  "did sid acts s s' \<longleftrightarrow>
     (\<exists>tr. rc_trace s' = rc_trace s @ tr \<and> sends tr = map (Pair sid) (concat (map action_queries acts)))
     \<and> idle_cache s'
     \<and> h_now (distributed_transaction s') = filter (\<lambda>row. \<forall>g. DropRecord g \<in> set acts \<longrightarrow> fst row \<noteq> (sid, g))
         (h_now (distributed_transaction s))"

lemma did_trans: "did sid acts s s1 \<Longrightarrow> did sid acts' s1 s2 \<Longrightarrow> did sid (acts @ acts') s s2"
  unfolding did_def by (elim conjE exE) (auto intro!: filter_cong)

lemma did_nothing: "idle_cache s \<Longrightarrow> did sid [] s s"
  by (simp add: did_def)

lemma CommitOrRollback_did:
  assumes "seq_complete E" "idle_cache s"
    "CommitOrRollbackPreparedTransaction E sid g isCommit s = Returns (Inr b, s')"
  shows "did sid [if isCommit then CommitIt g else RollBackIt g] s s'"
proof -
  from assms(3) obtain r where run: "CuckooSendCommandAndWaitForResult E (CuckooPlainCommandOnWorkerList
      (if isCommit then commit_prepared_command g else rollback_prepared_command g) REMOTE_COMMAND_FLAG_NO_BEGIN [sid] s)
      = Returns (Inr r, s')"
    unfolding CommitOrRollbackPreparedTransaction_def by (auto elim!: exec_bind_Inr simp: exec_bind_run)
  from ask_server [OF assms(1,2) run] show ?thesis by (auto simp: asked_def did_def)
qed

lemma delete_record_did:
  assumes "idle_cache s" "delete_record sid g s = (Inr u, s')"
  shows "did sid [DropRecord g] s s'"
proof -
  have s': "s' = s\<lparr>distributed_transaction := distributed_transaction s'\<rparr>"
    "h_now (distributed_transaction s') = filter (\<lambda>row. fst row \<noteq> (sid, g)) (h_now (distributed_transaction s))"
    using assms(2) by (auto simp: delete_record_def heap_delete_def split: if_splits)
  have "RemoteConnectionCommandCache s' = RemoteConnectionCommandCache s" "rc_trace s' = rc_trace s"
    by (subst s'(1), simp)+
  then show ?thesis using assms(1) s'(2) by (simp add: did_def idle_cache_def commands_def)
qed

lemma record_loop_did:
  assumes seq: "seq_complete E"
  shows "record_loop E sid B D C A n s = Returns (Inr (A', n'), s') \<Longrightarrow> idle_cache s
     \<Longrightarrow> \<exists>acts. record_actions B D C A = (acts, A') \<and> did sid acts s s'
        \<and> n' = n + int (length (filter (\<lambda>a. action_queries a \<noteq> []) acts))"
proof (induction C arbitrary: A n s)
  case Nil
  then show ?case using did_nothing by auto
next
  case (Cons g C)
  note unf = record_loop.simps(2) Let_def
  consider (skip) "IsTransactionInSet B g \<or> \<not> IsTransactionInSet A g \<and> IsTransactionInSet D g"
    | (commit) "\<not> IsTransactionInSet B g" "IsTransactionInSet A g" "IsTransactionInSet D g"
    | (drop) "\<not> IsTransactionInSet B g" "\<not> IsTransactionInSet D g"
    by blast
  then show ?case
  proof cases
    case skip
    then show ?thesis using Cons.prems Cons.IH [of A n s] by (auto simp: unf split: if_splits)
  next
    case commit
    then obtain b s1 where 1: "CommitOrRollbackPreparedTransaction E sid g True s = Returns (Inr b, s1)"
      and 2: "record_loop E sid B D C (HashSetErase A g) (n + 1) s1 = Returns (Inr (A', n'), s')"
      using Cons.prems(1) by (auto simp: unf elim!: exec_bind_Inr)
    note d1 = CommitOrRollback_did [OF seq Cons.prems(2) 1]
    then have "idle_cache s1" by (simp add: did_def)
    from Cons.IH [OF 2 this] obtain acts where "record_actions B D C (HashSetErase A g) = (acts, A')" "did sid acts s1 s'"
      "n' = n + 1 + int (length (filter (\<lambda>a. action_queries a \<noteq> []) acts))" by blast
    then show ?thesis using did_trans [OF d1] commit by (intro exI [of _ "CommitIt g # acts"]) simp
  next
    case drop
    let ?A = "if IsTransactionInSet A g then HashSetErase A g else A"
    from drop obtain u s1 where 1: "delete_record sid g s = (Inr u, s1)"
      and 2: "record_loop E sid B D C ?A n s1 = Returns (Inr (A', n'), s')"
      using Cons.prems(1) by (auto simp: unf elim!: exec_bind_Inr)
    note d1 = delete_record_did [OF Cons.prems(2) 1]
    then have "idle_cache s1" by (simp add: did_def)
    from Cons.IH [OF 2 this] obtain acts where "record_actions B D C ?A = (acts, A')" "did sid acts s1 s'"
      "n' = n + int (length (filter (\<lambda>a. action_queries a \<noteq> []) acts))" by blast
    then show ?thesis using did_trans [OF d1] drop by (intro exI [of _ "DropRecord g # acts"]) simp
  qed
qed

lemma residue_loop_did:
  assumes seq: "seq_complete E"
  shows "residue_loop E sid B gs n s = Returns (Inr n', s') \<Longrightarrow> idle_cache s
     \<Longrightarrow> did sid (map RollBackIt (filter (\<lambda>g. \<not> IsTransactionInSet B g) gs)) s s'
        \<and> n' = n + int (length (filter (\<lambda>g. \<not> IsTransactionInSet B g) gs))"
proof (induction gs arbitrary: n s)
  case Nil
  then show ?case using did_nothing by auto
next
  case (Cons g gs)
  show ?case
  proof (cases "IsTransactionInSet B g")
    case True
    then show ?thesis using Cons by simp
  next
    case False
    then obtain b s1 where 1: "CommitOrRollbackPreparedTransaction E sid g False s = Returns (Inr b, s1)"
      and 2: "residue_loop E sid B gs (n + 1) s1 = Returns (Inr n', s')"
      using Cons.prems(1) by (auto elim!: exec_bind_Inr)
    have d1: "did sid [RollBackIt g] s s1" using CommitOrRollback_did [OF seq Cons.prems(2) 1] by simp
    then have "idle_cache s1" by (simp add: did_def)
    from Cons.IH [OF 2 this] show ?thesis using did_trans [OF d1] False by simp
  qed
qed

lemma GetRemote_asked:
  assumes "seq_complete E" "idle_cache s" "GetRemotePreparedTransactionSet E sid s = Returns (Inr gs, s')"
  shows "\<exists>localId. asked sid [QueryParams (prepared_query localId)] s s'"
proof -
  from assms(3) obtain localId s1 r where 1: "on_servers (GetLocalServerId (text_clip E) (server_seq E)) s = (Inr localId, s1)"
    and 2: "CuckooSendCommandAndWaitForResult E (CuckooPlainCommandOnWorkerList (prepared_query localId)
       REMOTE_COMMAND_FLAG_NO_BEGIN [sid] s1) = Returns (Inr r, s')"
    unfolding GetRemotePreparedTransactionSet_def
    by (auto elim!: exec_bind_Inr simp: exec_bind_run split: list.splits prod.splits option.splits)
  obtain fs where s1: "s1 = s\<lparr>rc_servers := fs\<rparr>" using on_servers_frame [OF 1] by metis
  then have "idle_cache s1" using assms(2) by (simp add: idle_cache_def commands_def)
  from ask_server [OF assms(1) this 2] show ?thesis using s1 by (auto simp: asked_def)
qed

text \<open>
  C18: the cleanup of a server carries out a plan. It asks the server for its prepared transactions,
  reads the transactions in progress and the records, and asks again; when it returns, it has sent
  exactly the commands of the plan made from these four sets, in its order, has deleted exactly the
  records the plan drops, and returns the number of transactions it committed or rolled back.
\<close>

theorem cleanup_follows_plan:
  assumes "seq_complete E" "idle_cache s" "CleanupPreparedTransactions E set_seq sid s = Returns (Inr n, s')"
  shows "\<exists>A s1 D s2 tr. GetRemotePreparedTransactionSet E sid s = Returns (Inr A, s1)
     \<and> GetRemotePreparedTransactionSet E sid s1 = Returns (Inr D, s2)
     \<and> (let plan = cleanup_plan set_seq A (GetActiveTransactionSet s) (recorded_gids sid s) D in
          rc_trace s' = rc_trace s2 @ tr \<and> sends tr = map (Pair sid) (concat (map action_queries plan))
          \<and> h_now (distributed_transaction s') = filter (\<lambda>row. \<forall>g. DropRecord g \<in> set plan \<longrightarrow> fst row \<noteq> (sid, g))
              (h_now (distributed_transaction s))
          \<and> n = int (length (filter (\<lambda>a. action_queries a \<noteq> []) plan)))"
proof -
  let ?B = "GetActiveTransactionSet s" and ?C = "recorded_gids sid s"
  from assms(3) obtain A s1 D s2 A' m s3 where 1: "GetRemotePreparedTransactionSet E sid s = Returns (Inr A, s1)"
    and 2: "GetRemotePreparedTransactionSet E sid s1 = Returns (Inr D, s2)"
    and 3: "record_loop E sid (GetActiveTransactionSet s1) D (recorded_gids sid s1) A 0 s2 = Returns (Inr (A', m), s3)"
    and 4: "residue_loop E sid (GetActiveTransactionSet s1) (set_seq A') m s3 = Returns (Inr n, s')"
    unfolding CleanupPreparedTransactions_def by (auto elim!: exec_bind_Inr simp: exec_bind_run)
  have a1: "idle_cache s1" "distributed_transaction s1 = distributed_transaction s"
      "InprogressTransactions s1 = InprogressTransactions s"
    using GetRemote_asked [OF assms(1,2) 1] by (auto simp: asked_def)
  have a2: "idle_cache s2" "distributed_transaction s2 = distributed_transaction s"
    using GetRemote_asked [OF assms(1) a1(1) 2] a1 by (auto simp: asked_def)
  have same: "GetActiveTransactionSet s1 = ?B" "recorded_gids sid s1 = ?C"
    using a1 by (simp_all add: GetActiveTransactionSet_def recorded_gids_def)
  from record_loop_did [OF assms(1) 3 a2(1)] obtain acts where r: "record_actions ?B D ?C A = (acts, A')"
    "did sid acts s2 s3" "m = int (length (filter (\<lambda>a. action_queries a \<noteq> []) acts))"
    unfolding same by auto
  have "idle_cache s3" using r(2) by (simp add: did_def)
  note q = residue_loop_did [OF assms(1) 4 this, unfolded same]
  have plan: "cleanup_plan set_seq A ?B ?C D = acts @ map RollBackIt (filter (\<lambda>g. \<not> IsTransactionInSet ?B g) (set_seq A'))"
    by (simp add: cleanup_plan_def r(1))
  have "did sid (cleanup_plan set_seq A ?B ?C D) s2 s'" unfolding plan by (rule did_trans [OF r(2)]) (use q in blast)
  then obtain tr where "rc_trace s' = rc_trace s2 @ tr"
    "sends tr = map (Pair sid) (concat (map action_queries (cleanup_plan set_seq A ?B ?C D)))"
    "h_now (distributed_transaction s') = filter (\<lambda>row. \<forall>g. DropRecord g \<in> set (cleanup_plan set_seq A ?B ?C D)
        \<longrightarrow> fst row \<noteq> (sid, g)) (h_now (distributed_transaction s))"
    unfolding did_def a2(2) by blast
  moreover have "n = int (length (filter (\<lambda>a. action_queries a \<noteq> []) (cleanup_plan set_seq A ?B ?C D)))"
    using q r(3) by (simp add: plan filter_map o_def)
  ultimately show ?thesis using 1 2 unfolding Let_def by blast
qed

section \<open>One unreachable server\<close>

text \<open>Server 1 is down, server 2 can be reached. The cleaning process has no open connection yet.\<close>

definition outage_env :: pq_env where
  "outage_env = cluster_env\<lparr>connect_ready := (\<lambda>tr sid. sid \<noteq> 1)\<rparr>"

definition cleaner :: "unit txn_state" where
  "cleaner = coordinator_txn\<lparr>txn_remote := coordinator\<lparr>LocalServerWrite := False, RemoteConnectionCommandCache := None,
     rc_servers := cluster_servers\<lparr>fs_conns := [], transactionState := (\<lambda>sid. CUCKOO_REMOTE_TRANSACTION_NONE)\<rparr>\<rparr>\<rparr>"

declare result_loop.simps [code]


section \<open>A server with nothing prepared\<close>

lemma nothing_to_clean:
  "case CleanupPreparedTransactions cluster_env (\<lambda>gids. gids) 1 (txn_remote cleaner) of
     Returns (r, s) \<Rightarrow> r = Inr 0 | _ \<Rightarrow> False"
  by code_simp

theorem cleanup_follows_plan_witness:
  "\<exists>n s' A s1 D s2. CleanupPreparedTransactions cluster_env (\<lambda>gids. gids) 1 (txn_remote cleaner) = Returns (Inr n, s')
     \<and> GetRemotePreparedTransactionSet cluster_env 1 (txn_remote cleaner) = Returns (Inr A, s1)
     \<and> GetRemotePreparedTransactionSet cluster_env 1 s1 = Returns (Inr D, s2)
     \<and> n = int (length (filter (\<lambda>a. action_queries a \<noteq> []) (cleanup_plan (\<lambda>gids. gids) A
         (GetActiveTransactionSet (txn_remote cleaner)) (recorded_gids 1 (txn_remote cleaner)) D)))"
proof -
  obtain n s' where run: "CleanupPreparedTransactions cluster_env (\<lambda>gids. gids) 1 (txn_remote cleaner) = Returns (Inr n, s')"
    using nothing_to_clean by (auto split: run.splits)
  have "seq_complete cluster_env" by (simp add: seq_complete_def cluster_env_def)
  moreover have "idle_cache (txn_remote cleaner)" by (simp add: idle_cache_def commands_def cleaner_def)
  ultimately show ?thesis using cleanup_follows_plan [OF _ _ run] run unfolding Let_def by blast
qed

end
