(* ===== verification/Cleanup_Protocol.thy ===== *)
theory Cleanup_Protocol
  imports Transaction_Cleanup "HOL-Library.Multiset"
begin

text \<open>
  The two-phase commit of \<open>transaction.c\<close> and \<open>remote_comm_cuckoo.c\<close> and the cleanup process of
  \<open>transaction_cleanup.c\<close> working at the same time on one participating server: safety of the cleanup
  against every interleaving, and progress of one pass.
\<close>

section \<open>Coordinators, a participant and the cleanup process together\<close>

text \<open>
  One participating server, the coordinator's backends and its cleanup process, each step of which may
  come between any steps of the others. Ghost components record what the coordinator decided and what
  became of the transaction on the participant. Names are used once and are short.

  The steps of a coordinator follow \<^const>\<open>CuckooRemoteCommandPrepare\<close> and the transaction callback: the
  name enters the set in progress before anything is sent; the decision to commit makes the record
  visible and needs the participant's vote; the name leaves the set only after the decision, whether
  or not the participant could be told. A command may be carried out late, when the coordinator has
  given up. A crash of the coordinator's server empties the set in progress, aborts what is undecided
  and restarts the cleanup process.

  The cleanup process reads its four sets one after the other and then carries out the plan of
  \<^const>\<open>cleanup_plan\<close>; the records it drops disappear when its transaction commits. It may give up at any time.
\<close>

datatype cleaner_state =
    Resting
  | AskedFirst "string list"
  | ReadActive "string list" "string list"
  | ReadRecords "string list" "string list" "string list"
  | Acting "cleanup_action list" "string list"

record txn_sys =
  begun :: "string set"
  in_progress :: "string set"
  prepared :: "string set"
  records :: "string set"
  decision :: "string \<Rightarrow> bool option"
  outcome :: "string \<Rightarrow> bool option"
  cleaner_at :: cleaner_state

definition short_name :: "string \<Rightarrow> bool" where
  "short_name g \<longleftrightarrow> length g < MAX_TRANSACTION_GID_LENGTH"

definition resolve :: "string \<Rightarrow> bool \<Rightarrow> txn_sys \<Rightarrow> txn_sys" where
  "resolve g b s = s\<lparr>prepared := prepared s - {g}, outcome := (outcome s)(g \<mapsto> b)\<rparr>"

inductive sys_step :: "(string list \<Rightarrow> string list) \<Rightarrow> txn_sys \<Rightarrow> txn_sys \<Rightarrow> bool" for set_seq where
  begin_2pc: "g \<notin> begun s \<Longrightarrow> short_name g
    \<Longrightarrow> sys_step set_seq s (s\<lparr>begun := insert g (begun s), in_progress := insert g (in_progress s)\<rparr>)"
| participant_prepares: "g \<in> begun s \<Longrightarrow> outcome s g = None \<Longrightarrow> decision s g \<noteq> Some True
    \<Longrightarrow> sys_step set_seq s (s\<lparr>prepared := insert g (prepared s)\<rparr>)"
| participant_gives_up: "g \<in> begun s \<Longrightarrow> g \<notin> prepared s \<Longrightarrow> outcome s g = None \<Longrightarrow> decision s g \<noteq> Some True
    \<Longrightarrow> sys_step set_seq s (s\<lparr>outcome := (outcome s)(g \<mapsto> False)\<rparr>)"
| decide_commit: "g \<in> in_progress s \<Longrightarrow> decision s g = None \<Longrightarrow> g \<in> prepared s
    \<Longrightarrow> sys_step set_seq s (s\<lparr>decision := (decision s)(g \<mapsto> True), records := insert g (records s)\<rparr>)"
| decide_abort: "g \<in> begun s \<Longrightarrow> decision s g = None
    \<Longrightarrow> sys_step set_seq s (s\<lparr>decision := (decision s)(g \<mapsto> False)\<rparr>)"
| participant_told: "g \<in> prepared s \<Longrightarrow> decision s g = Some b \<Longrightarrow> sys_step set_seq s (resolve g b s)"
| leave_progress: "decision s g \<noteq> None \<Longrightarrow> sys_step set_seq s (s\<lparr>in_progress := in_progress s - {g}\<rparr>)"
| crash: "sys_step set_seq s (s\<lparr>in_progress := {}, cleaner_at := Resting,
    decision := (\<lambda>g. if g \<in> begun s \<and> decision s g = None then Some False else decision s g)\<rparr>)"
| ask_first: "cleaner_at s = Resting \<Longrightarrow> set A = prepared s \<Longrightarrow> sys_step set_seq s (s\<lparr>cleaner_at := AskedFirst A\<rparr>)"
| read_active: "cleaner_at s = AskedFirst A \<Longrightarrow> set B = in_progress s
    \<Longrightarrow> sys_step set_seq s (s\<lparr>cleaner_at := ReadActive A B\<rparr>)"
| read_records: "cleaner_at s = ReadActive A B \<Longrightarrow> set C = records s \<Longrightarrow> distinct C
    \<Longrightarrow> sys_step set_seq s (s\<lparr>cleaner_at := ReadRecords A B C\<rparr>)"
| ask_again: "cleaner_at s = ReadRecords A B C \<Longrightarrow> set D = prepared s
    \<Longrightarrow> sys_step set_seq s (s\<lparr>cleaner_at := Acting (cleanup_plan set_seq A B C D) []\<rparr>)"
| clean_commit: "cleaner_at s = Acting (CommitIt g # acts) ds \<Longrightarrow> g \<in> prepared s
    \<Longrightarrow> sys_step set_seq s (resolve g True (s\<lparr>cleaner_at := Acting acts ds\<rparr>))"
| clean_rollback: "cleaner_at s = Acting (RollBackIt g # acts) ds \<Longrightarrow> g \<in> prepared s
    \<Longrightarrow> sys_step set_seq s (resolve g False (s\<lparr>cleaner_at := Acting acts ds\<rparr>))"
| clean_drop: "cleaner_at s = Acting (DropRecord g # acts) ds
    \<Longrightarrow> sys_step set_seq s (s\<lparr>cleaner_at := Acting acts (g # ds)\<rparr>)"
| clean_over: "cleaner_at s = Acting [] ds
    \<Longrightarrow> sys_step set_seq s (s\<lparr>records := records s - set ds, cleaner_at := Resting\<rparr>)"
| clean_fails: "sys_step set_seq s (s\<lparr>cleaner_at := Resting\<rparr>)"

definition sys_init :: txn_sys where
  "sys_init = \<lparr>begun = {}, in_progress = {}, prepared = {}, records = {}, decision = (\<lambda>g. None), outcome = (\<lambda>g. None),
     cleaner_at = Resting\<rparr>"

abbreviation sys_reach :: "(string list \<Rightarrow> string list) \<Rightarrow> txn_sys \<Rightarrow> bool" where
  "sys_reach set_seq s \<equiv> (sys_step set_seq)\<^sup>*\<^sup>* sys_init s"

subsection \<open>What a plan contains\<close>

lemma short_key: "short_name g \<Longrightarrow> set_key g = g"
  by (simp add: short_name_def set_key_def MAX_TRANSACTION_GID_LENGTH_def)

definition record_action :: "string list \<Rightarrow> string list \<Rightarrow> string list \<Rightarrow> string \<Rightarrow> cleanup_action list" where
  "record_action A B D g =
     (if g \<in> set B \<or> g \<notin> set A \<and> g \<in> set D then []
      else if g \<in> set A \<and> g \<in> set D then [CommitIt g]
      else [DropRecord g])"

text \<open>Erasing names from the first set as they are met does not change what is done for the others.\<close>

lemma record_actions_each:
  "distinct C \<Longrightarrow> \<forall>g \<in> set C. short_name g
     \<Longrightarrow> record_actions B D C A = (concat (map (record_action A B D) C), filter (\<lambda>g. g \<in> set C \<longrightarrow> g \<in> set B) A)"
proof (induction C arbitrary: A)
  case (Cons g C)
  have key: "set_key g = g" using Cons.prems(2) short_key by simp
  have inset: "IsTransactionInSet gs g \<longleftrightarrow> g \<in> set gs" for gs by (simp add: IsTransactionInSet_def key)
  have erase: "HashSetErase gs g = filter (\<lambda>h. h \<noteq> g) gs" for gs by (auto simp: HashSetErase_def key intro: filter_cong)
  have others: "map (record_action (filter (\<lambda>h. h \<noteq> g) A) B D) C = map (record_action A B D) C"
    using Cons.prems(1) by (intro map_cong) (auto simp: record_action_def)
  have left: "filter (\<lambda>h. h \<in> set C \<longrightarrow> h \<in> set B) (filter (\<lambda>h. h \<noteq> g) A) = filter (\<lambda>h. h \<in> set (g # C) \<longrightarrow> h \<in> set B) A"
    if "g \<notin> set B" using that Cons.prems(1) by (auto simp: filter_filter intro: filter_cong)
  have keep: "filter (\<lambda>h. h \<in> set C \<longrightarrow> h \<in> set B) A = filter (\<lambda>h. h \<in> set (g # C) \<longrightarrow> h \<in> set B) A"
    if "g \<in> set B \<or> g \<notin> set A" using that by (intro filter_cong) auto
  have IH: "record_actions B D C A' = (concat (map (record_action A' B D) C), filter (\<lambda>g. g \<in> set C \<longrightarrow> g \<in> set B) A')" for A'
    using Cons by simp
  consider "g \<in> set B" | "g \<notin> set B" "g \<in> set A" | "g \<notin> set B" "g \<notin> set A" by blast
  then show ?case
  proof cases
    case 1
    then show ?thesis using keep by (simp add: inset IH record_action_def [of A B D g] del: list.set)
  next
    case 2
    then show ?thesis using left others by (simp add: inset erase IH record_action_def [of A B D g] del: list.set map_eq_conv filter_filter)
  next
    case 3
    then show ?thesis using keep by (simp add: inset IH record_action_def [of A B D g] del: list.set)
  qed
qed simp

lemma cleanup_plan_sound:
  assumes "\<forall>g \<in> set A \<union> set C. short_name g" "\<And>gs. set (set_seq gs) = set gs" "distinct C"
  shows "CommitIt g \<in> set (cleanup_plan set_seq A B C D) \<longleftrightarrow> g \<in> set C \<inter> set A \<inter> set D - set B"
    "RollBackIt g \<in> set (cleanup_plan set_seq A B C D) \<longleftrightarrow> g \<in> set A - set B - set C"
    "DropRecord g \<in> set (cleanup_plan set_seq A B C D) \<longleftrightarrow> g \<in> set C - set D - set B"
proof -
  have C: "\<forall>g \<in> set C. short_name g" using assms(1) by blast
  have inB: "IsTransactionInSet B g \<longleftrightarrow> g \<in> set B" if "g \<in> set A" for g
    using that assms(1) short_key by (simp add: IsTransactionInSet_def)
  have plan: "set (cleanup_plan set_seq A B C D)
      = (\<Union>g \<in> set C. set (record_action A B D g)) \<union> RollBackIt ` (set A - set B - set C)"
    using inB by (auto simp: cleanup_plan_def record_actions_each [OF assms(3) C] assms(2))
  show "CommitIt g \<in> set (cleanup_plan set_seq A B C D) \<longleftrightarrow> g \<in> set C \<inter> set A \<inter> set D - set B"
    "RollBackIt g \<in> set (cleanup_plan set_seq A B C D) \<longleftrightarrow> g \<in> set A - set B - set C"
    "DropRecord g \<in> set (cleanup_plan set_seq A B C D) \<longleftrightarrow> g \<in> set C - set D - set B"
    unfolding plan by (auto simp: record_action_def split: if_splits)
qed

subsection \<open>The invariant\<close>

definition undecided_ok :: "txn_sys \<Rightarrow> string \<Rightarrow> bool" where
  "undecided_ok s g \<longleftrightarrow>
     (g \<in> prepared s \<longrightarrow> g \<in> begun s \<and> outcome s g = None)
     \<and> (g \<in> begun s \<longrightarrow> short_name g \<and> (decision s g = None \<longrightarrow> g \<in> in_progress s))
     \<and> (g \<in> in_progress s \<longrightarrow> g \<in> begun s)
     \<and> (g \<notin> begun s \<longrightarrow> decision s g = None \<and> outcome s g = None)"

definition decided_ok :: "txn_sys \<Rightarrow> string \<Rightarrow> bool" where
  "decided_ok s g \<longleftrightarrow>
     (decision s g = Some True \<longrightarrow> outcome s g = Some True \<or> outcome s g = None \<and> g \<in> prepared s \<and> g \<in> records s)
     \<and> (outcome s g = Some True \<longrightarrow> decision s g = Some True)
     \<and> (g \<in> records s \<longrightarrow> decision s g = Some True)"

primrec cleaner_ok :: "txn_sys \<Rightarrow> cleaner_state \<Rightarrow> bool" where
  "cleaner_ok s Resting \<longleftrightarrow> True"
| "cleaner_ok s (AskedFirst A) \<longleftrightarrow> (\<forall>g \<in> set A. g \<in> begun s \<and> (decision s g = Some True \<longrightarrow> g \<in> records s))"
| "cleaner_ok s (ReadActive A B) \<longleftrightarrow>
     (\<forall>g \<in> set A. g \<in> begun s \<and> (decision s g = Some True \<longrightarrow> g \<in> records s) \<and> (g \<notin> set B \<longrightarrow> decision s g \<noteq> None))"
| "cleaner_ok s (ReadRecords A B C) \<longleftrightarrow> distinct C
     \<and> (\<forall>g \<in> set A. g \<in> begun s \<and> (g \<notin> set B \<and> g \<notin> set C \<longrightarrow> decision s g = Some False))
     \<and> (\<forall>g \<in> set C. decision s g = Some True)"
| "cleaner_ok s (Acting acts ds) \<longleftrightarrow>
     (\<forall>g. CommitIt g \<in> set acts \<longrightarrow> decision s g = Some True)
     \<and> (\<forall>g. RollBackIt g \<in> set acts \<longrightarrow> decision s g = Some False)
     \<and> (\<forall>g. DropRecord g \<in> set acts \<or> g \<in> set ds \<longrightarrow> outcome s g = Some True)"

definition sys_inv :: "txn_sys \<Rightarrow> bool" where
  "sys_inv s \<longleftrightarrow> finite (begun s) \<and> (\<forall>g. undecided_ok s g \<and> decided_ok s g) \<and> cleaner_ok s (cleaner_at s)"

lemmas sys_inv_simps = sys_inv_def undecided_ok_def decided_ok_def

text \<open>What the cleanup process knows stays true while the others work.\<close>

lemma cleaner_ok_stable:
  assumes "cleaner_ok s c" "begun s \<subseteq> begun s'" "records s \<subseteq> records s'"
    "\<And>g b. decision s g = Some b \<Longrightarrow> decision s' g = Some b" "\<And>g. outcome s g = Some True \<Longrightarrow> outcome s' g = Some True"
    "\<And>g. decision s' g = Some True \<Longrightarrow> decision s g = Some True \<or> g \<in> records s'"
  shows "cleaner_ok s' c"
  using assms(1)
proof (cases c)
  case (AskedFirst A)
  then show ?thesis using assms by (simp, blast)
next
  case (ReadActive A B)
  have "decision s' g \<noteq> None" if "decision s g \<noteq> None" for g using that assms(4) by fastforce
  then show ?thesis using ReadActive assms by (simp, blast)
next
  case (ReadRecords A B C)
  then show ?thesis using assms by (simp, blast)
next
  case (Acting acts ds)
  then show ?thesis using assms by simp
qed simp

lemma planned_ok:
  assumes "\<forall>g. undecided_ok s g \<and> decided_ok s g" "cleaner_ok s (ReadRecords A B C)" "set D = prepared s"
    "\<And>gs. set (set_seq gs) = set gs"
  shows "cleaner_ok s (Acting (cleanup_plan set_seq A B C D) [])"
proof -
  have short: "\<forall>g \<in> set A \<union> set C. short_name g" and "distinct C" using assms(1,2)
    by (auto simp: undecided_ok_def) (metis option.distinct(1))
  note plan = cleanup_plan_sound [OF short assms(4) \<open>distinct C\<close>]
  show ?thesis using assms(1-3) by (auto simp: plan decided_ok_def)
qed

lemma resolve_simps [simp]:
  "prepared (resolve g b s) = prepared s - {g}" "outcome (resolve g b s) = (outcome s)(g \<mapsto> b)"
  "begun (resolve g b s) = begun s" "in_progress (resolve g b s) = in_progress s" "records (resolve g b s) = records s"
  "decision (resolve g b s) = decision s" "cleaner_at (resolve g b s) = cleaner_at s"
  by (simp_all add: resolve_def)

lemma sys_inv_init: "sys_inv sys_init"
  by (simp add: sys_inv_simps sys_init_def)

lemma each_ok_step:
  assumes "sys_step set_seq s s'" "sys_inv s"
  shows "undecided_ok s' g \<and> decided_ok s' g"
proof -
  have each: "undecided_ok s g \<and> decided_ok s g" and c: "cleaner_ok s (cleaner_at s)" using assms(2) by (auto simp: sys_inv_def)
  note each_def = undecided_ok_def decided_ok_def
  from assms(1) show ?thesis
  proof cases
    case (clean_commit h acts ds)
    then have "decision s h = Some True" using c by simp
    then show ?thesis using each clean_commit by (cases "g = h") (auto simp: each_def)
  next
    case (clean_rollback h acts ds)
    then have "decision s h = Some False" using c by simp
    then show ?thesis using each clean_rollback by (cases "g = h") (auto simp: each_def)
  next
    case (clean_over ds)
    then have "\<forall>g \<in> set ds. outcome s g = Some True" using c by simp
    then show ?thesis using each clean_over by (auto simp: each_def)
  next
    case (participant_told h b)
    then show ?thesis using each by (cases "g = h"; cases b) (auto simp: each_def)
  next
    case (begin_2pc h)
    then show ?thesis using each by (cases "g = h") (auto simp: each_def)
  next
    case (participant_prepares h)
    then show ?thesis using each by (cases "g = h") (auto simp: each_def)
  next
    case (participant_gives_up h)
    then show ?thesis using each by (cases "g = h") (auto simp: each_def)
  next
    case (decide_commit h)
    then show ?thesis using each by (cases "g = h") (auto simp: each_def)
  next
    case (decide_abort h)
    then show ?thesis using each by (cases "g = h") (auto simp: each_def)
  next
    case (leave_progress h)
    then show ?thesis using each by (cases "g = h") (auto simp: each_def)
  next
    case crash
    then show ?thesis using each by (cases "decision s g") (auto simp: each_def)
  qed (use each in \<open>simp_all add: each_def\<close>)
qed

lemma cleaner_ok_step:
  assumes "sys_step set_seq s s'" "sys_inv s" and seq: "\<And>gs. set (set_seq gs) = set gs"
  shows "cleaner_ok s' (cleaner_at s')"
proof -
  have each: "\<forall>g. undecided_ok s g \<and> decided_ok s g" and c: "cleaner_ok s (cleaner_at s)" using assms(2) by (auto simp: sys_inv_def)
  have stable: ?thesis if "cleaner_at s' = cleaner_at s" "begun s \<subseteq> begun s'" "records s \<subseteq> records s'"
    "\<And>g b. decision s g = Some b \<Longrightarrow> decision s' g = Some b" "\<And>g. outcome s g = Some True \<Longrightarrow> outcome s' g = Some True"
    "\<And>g. decision s' g = Some True \<Longrightarrow> decision s g = Some True \<or> g \<in> records s'"
    unfolding that(1) by (rule cleaner_ok_stable [OF c]) (fact that)+
  from assms(1) show ?thesis
  proof cases
    case (participant_told g b)
    then have "outcome s g = None" using each by (simp add: undecided_ok_def)
    then show ?thesis using participant_told by (intro stable) auto
  next
    case (ask_first A)
    have "g \<in> begun s \<and> (decision s g = Some True \<longrightarrow> g \<in> records s)" if "g \<in> set A" for g
      using each [rule_format, of g] that ask_first by (auto simp: undecided_ok_def decided_ok_def)
    then show ?thesis using ask_first by simp
  next
    case (read_active A B)
    have "decision s g \<noteq> None" if "g \<in> set A" "g \<notin> set B" for g
      using each [rule_format, of g] that c read_active by (auto simp: undecided_ok_def)
    then show ?thesis using c read_active by simp
  next
    case (read_records A B C)
    have "decision s g = Some False" if "g \<in> set A" "g \<notin> set B" "g \<notin> set C" for g
      using that c read_records by (cases "decision s g") auto
    then show ?thesis using each c read_records by (simp add: decided_ok_def)
  next
    case (ask_again A B C D)
    then have "cleaner_ok s (ReadRecords A B C)" using c by (simp only:)
    from planned_ok [OF each this ask_again(3) seq] show ?thesis unfolding ask_again(1) by simp
  next
    case (clean_rollback g acts ds)
    then have "outcome s g = None" using each by (simp add: undecided_ok_def)
    moreover have "outcome s h = Some True \<Longrightarrow> h \<noteq> g" for h using calculation by auto
    ultimately show ?thesis using c clean_rollback by simp
  next
    case (decide_commit g)
    then show ?thesis by (intro stable) (auto split: if_splits)
  next
    case (decide_abort g)
    then show ?thesis by (intro stable) (auto split: if_splits)
  next
    case (participant_gives_up g)
    then show ?thesis by (intro stable) auto
  next
    case (begin_2pc g)
    then show ?thesis by (intro stable) auto
  next
    case (participant_prepares g)
    then show ?thesis by (intro stable) auto
  next
    case (leave_progress g)
    then show ?thesis by (intro stable) auto
  qed (use c in simp_all)
qed

lemma sys_inv_step:
  assumes "sys_step set_seq s s'" "sys_inv s" "\<And>gs. set (set_seq gs) = set gs"
  shows "sys_inv s'"
proof -
  have "finite (begun s)" using assms(2) by (simp add: sys_inv_def)
  with assms(1) have "finite (begun s')" by cases auto
  then show ?thesis using each_ok_step [OF assms(1,2)] cleaner_ok_step [OF assms] by (simp add: sys_inv_def)
qed

lemma sys_inv_reach:
  assumes "sys_reach set_seq s" "\<And>gs. set (set_seq gs) = set gs"
  shows "sys_inv s"
  using assms(1)
proof (induction rule: rtranclp_induct)
  case base
  show ?case by (rule sys_inv_init)
next
  case (step s s')
  show ?case by (rule sys_inv_step [OF step.hyps(2) step.IH assms(2)])
qed


text \<open>A run: one transaction is decided, the coordinator crashes, and the cleanup process starts to clean.\<close>

definition crashed_run :: txn_sys where
  "crashed_run = \<lparr>begun = {''g''}, in_progress = {}, prepared = {''g''}, records = {''g''},
     decision = [''g'' \<mapsto> True], outcome = Map.empty, cleaner_at = Resting\<rparr>"

lemma crashed_run_reach: "sys_reach set_seq crashed_run"
proof -
  define s1 where "s1 = sys_init\<lparr>begun := {''g''}, in_progress := {''g''}\<rparr>"
  define s2 where "s2 = s1\<lparr>prepared := {''g''}\<rparr>"
  define s3 where "s3 = s2\<lparr>decision := [''g'' \<mapsto> True], records := {''g''}\<rparr>"
  note run = s1_def s2_def s3_def sys_init_def
  have 1: "sys_step set_seq sys_init s1"
    using begin_2pc [of "''g''" sys_init set_seq] by (simp add: run short_name_def MAX_TRANSACTION_GID_LENGTH_def)
  have 2: "sys_step set_seq s1 s2" using participant_prepares [of "''g''" s1 set_seq] by (simp add: run)
  have 3: "sys_step set_seq s2 s3" using decide_commit [of "''g''" s2 set_seq] by (simp add: run)
  have "(\<lambda>g. if g \<in> begun s3 \<and> decision s3 g = None then Some False else decision s3 g) = decision s3"
    by (auto simp: run fun_eq_iff)
  with crash [of set_seq s3] have 4: "sys_step set_seq s3 crashed_run" by (simp only:) (simp add: run crashed_run_def)
  show ?thesis by (rule rtranclp.rtrancl_into_rtrancl [OF rtranclp.rtrancl_into_rtrancl [OF rtranclp.rtrancl_into_rtrancl [OF r_into_rtranclp [of "sys_step set_seq", OF 1] 2] 3] 4])
qed


subsection \<open>A pass of the cleanup process\<close>

primrec perform :: "cleanup_action \<Rightarrow> txn_sys \<Rightarrow> txn_sys" where
  "perform (CommitIt g) s = resolve g True s"
| "perform (RollBackIt g) s = resolve g False s"
| "perform (DropRecord g) s = s"

primrec targets :: "cleanup_action list \<Rightarrow> string list" where
  "targets [] = []"
| "targets (a # acts) = (case a of CommitIt g \<Rightarrow> [g] | RollBackIt g \<Rightarrow> [g] | DropRecord g \<Rightarrow> []) @ targets acts"

primrec dropped :: "cleanup_action list \<Rightarrow> string list" where
  "dropped [] = []"
| "dropped (a # acts) = dropped acts @ (case a of DropRecord g \<Rightarrow> [g] | _ \<Rightarrow> [])"

definition cleaner_move :: "(string list \<Rightarrow> string list) \<Rightarrow> txn_sys \<Rightarrow> txn_sys \<Rightarrow> bool" where
  "cleaner_move set_seq s s' \<longleftrightarrow> sys_step set_seq s s' \<and> cleaner_at s' \<noteq> cleaner_at s"

lemma perform_all:
  "begun (fold perform acts s) = begun s" "records (fold perform acts s) = records s"
  "in_progress (fold perform acts s) = in_progress s"
  "decision (fold perform acts s) = decision s" "cleaner_at (fold perform acts s) = cleaner_at s"
  "prepared (fold perform acts s) = prepared s - set (targets acts)"
  "(outcome (fold perform acts s) g = None) = (outcome s g = None \<and> g \<notin> set (targets acts))"
proof (induction acts arbitrary: s)
  case (Cons a acts)
  { case 1 show ?case using Cons by (cases a) auto next
    case 2 show ?case using Cons by (cases a) auto next
    case 3 show ?case using Cons by (cases a) auto next
    case 4 show ?case using Cons by (cases a) auto next
    case 5 show ?case using Cons by (cases a) auto next
    case 6 show ?case using Cons by (cases a) auto next
    case 7 show ?case using Cons by (cases a) auto }
qed auto

lemma perform_cleaner: "fold perform acts (s\<lparr>cleaner_at := c\<rparr>) = (fold perform acts s)\<lparr>cleaner_at := c\<rparr>"
proof (induction acts arbitrary: s)
  case (Cons a acts)
  have "perform a (s\<lparr>cleaner_at := c\<rparr>) = (perform a s)\<lparr>cleaner_at := c\<rparr>" by (cases a) (simp_all add: resolve_def)
  then show ?case using Cons by simp
qed simp

lemma acting_run:
  "cleaner_at s = Acting acts ds \<Longrightarrow> distinct (targets acts) \<Longrightarrow> set (targets acts) \<subseteq> prepared s
     \<Longrightarrow> (cleaner_move set_seq)\<^sup>*\<^sup>* s ((fold perform acts s)\<lparr>cleaner_at := Acting [] (dropped acts @ ds)\<rparr>)"
proof (induction acts arbitrary: s ds)
  case Nil
  then have "s\<lparr>cleaner_at := Acting [] ds\<rparr> = s" by (cases s) simp
  then show ?case by simp
next
  case (Cons a acts)
  define ds' where "ds' = (case a of DropRecord g \<Rightarrow> [g] | _ \<Rightarrow> []) @ ds"
  define s1 where "s1 = perform a (s\<lparr>cleaner_at := Acting acts ds'\<rparr>)"
  have "sys_step set_seq s s1"
  proof (cases a)
    case (CommitIt g)
    then show ?thesis using Cons.prems clean_commit [of s g acts ds set_seq] by (simp add: s1_def ds'_def)
  next
    case (RollBackIt g)
    then show ?thesis using Cons.prems clean_rollback [of s g acts ds set_seq] by (simp add: s1_def ds'_def)
  next
    case (DropRecord g)
    then show ?thesis using Cons.prems clean_drop [of s g acts ds set_seq] by (simp add: s1_def ds'_def)
  qed
  moreover have at: "cleaner_at s1 = Acting acts ds'" by (cases a) (auto simp: s1_def)
  ultimately have move: "cleaner_move set_seq s s1" using Cons.prems(1) by (auto simp: cleaner_move_def)
  have "distinct (targets acts)" "set (targets acts) \<subseteq> prepared s1"
    using Cons.prems by (cases a; auto simp: s1_def)+
  note rest = Cons.IH [OF at this]
  have "(cleaner_move set_seq)\<^sup>*\<^sup>* s ((fold perform acts s1)\<lparr>cleaner_at := Acting [] (dropped acts @ ds')\<rparr>)"
    by (rule converse_rtranclp_into_rtranclp [OF move rest])
  moreover have "(fold perform acts s1)\<lparr>cleaner_at := c\<rparr> = (fold perform (a # acts) s)\<lparr>cleaner_at := c\<rparr>" for c
    using perform_cleaner [of "a # acts" _ s] by (simp add: s1_def)
  ultimately show ?case by (simp add: ds'_def)
qed

lemma targets_append [simp]: "targets (as @ bs) = targets as @ targets bs"
  by (induction as) simp_all

lemma targets_RollBackIt [simp]: "targets (map RollBackIt gs) = gs"
  by (induction gs) simp_all

lemma targets_record_actions:
  "targets (concat (map (record_action A B D) C)) = filter (\<lambda>g. g \<in> set A \<and> g \<in> set D \<and> g \<notin> set B) C"
  by (induction C) (auto simp: record_action_def)

lemma set_dropped: "set (dropped acts) = {g. DropRecord g \<in> set acts}"
proof (induction acts)
  case (Cons a acts)
  then show ?case by (cases a) auto
qed simp

lemma cleanup_plan_targets:
  assumes "\<forall>g \<in> set A \<union> set C. short_name g" "\<And>gs. mset (set_seq gs) = mset gs" "distinct C" "distinct A"
  shows "distinct (targets (cleanup_plan set_seq A [] C A)) \<and> set (targets (cleanup_plan set_seq A [] C A)) = set A"
proof -
  have C: "\<forall>g \<in> set C. short_name g" using assms(1) by blast
  define A' where "A' = set_seq (filter (\<lambda>g. g \<notin> set C) A)"
  have perm: "mset A' = mset (filter (\<lambda>g. g \<notin> set C) A)" unfolding A'_def by (rule assms(2))
  have A': "set A' = {g \<in> set A. g \<notin> set C}" using mset_eq_setD [OF perm] by auto
  have "distinct A'" using mset_eq_imp_distinct_iff [OF perm] assms(4) by simp
  moreover have "targets (cleanup_plan set_seq A [] C A) = filter (\<lambda>g. g \<in> set A) C @ A'"
    by (simp add: cleanup_plan_def record_actions_each [OF assms(3) C] IsTransactionInSet_def targets_record_actions A'_def)
  ultimately show ?thesis using assms(3) A' by auto
qed

lemma sys_inv_names:
  assumes "sys_inv s"
  shows "prepared s \<subseteq> begun s" "records s \<subseteq> begun s" "g \<in> begun s \<Longrightarrow> short_name g"
    "finite (prepared s)" "finite (records s)"
proof -
  have each: "undecided_ok s g" "decided_ok s g" and fin: "finite (begun s)" for g using assms by (simp_all add: sys_inv_def)
  have p: "g \<in> begun s" if "g \<in> prepared s" for g using each(1) [of g] that by (simp add: undecided_ok_def)
  have r: "g \<in> begun s" if "g \<in> records s" for g
    using each [of g] that by (cases "g \<in> begun s") (simp_all add: undecided_ok_def decided_ok_def)
  show "prepared s \<subseteq> begun s" "records s \<subseteq> begun s" using p r by blast+
  then show "finite (prepared s)" "finite (records s)" using fin finite_subset by blast+
  show "g \<in> begun s \<Longrightarrow> short_name g" using each(1) [of g] by (simp add: undecided_ok_def)
qed

lemma asking:
  assumes "in_progress s = {}" "cleaner_at s = Resting" "set A = prepared s" "set C = records s" "distinct C"
  shows "(cleaner_move set_seq)\<^sup>*\<^sup>* s (s\<lparr>cleaner_at := Acting (cleanup_plan set_seq A [] C A) []\<rparr>)"
proof -
  have 1: "cleaner_move set_seq s (s\<lparr>cleaner_at := AskedFirst A\<rparr>)"
    using ask_first [of s A set_seq] assms by (simp add: cleaner_move_def)
  have 2: "cleaner_move set_seq (s\<lparr>cleaner_at := AskedFirst A\<rparr>) (s\<lparr>cleaner_at := ReadActive A []\<rparr>)"
    using read_active [of "s\<lparr>cleaner_at := AskedFirst A\<rparr>" A "[]" set_seq] assms by (simp add: cleaner_move_def)
  have 3: "cleaner_move set_seq (s\<lparr>cleaner_at := ReadActive A []\<rparr>) (s\<lparr>cleaner_at := ReadRecords A [] C\<rparr>)"
    using read_records [of "s\<lparr>cleaner_at := ReadActive A []\<rparr>" A "[]" C set_seq] assms by (simp add: cleaner_move_def)
  have 4: "cleaner_move set_seq (s\<lparr>cleaner_at := ReadRecords A [] C\<rparr>)
      (s\<lparr>cleaner_at := Acting (cleanup_plan set_seq A [] C A) []\<rparr>)"
    using ask_again [of "s\<lparr>cleaner_at := ReadRecords A [] C\<rparr>" A "[]" C A set_seq] assms by (simp add: cleaner_move_def)
  show ?thesis
    by (rule rtranclp.rtrancl_into_rtrancl [OF rtranclp.rtrancl_into_rtrancl [OF rtranclp.rtrancl_into_rtrancl [OF
        r_into_rtranclp [of "cleaner_move set_seq", OF 1] 2] 3] 4])
qed

lemma moves_are_steps: "(cleaner_move set_seq)\<^sup>*\<^sup>* s s' \<Longrightarrow> (sys_step set_seq)\<^sup>*\<^sup>* s s'"
  by (erule rtranclp_mono [THEN predicate2D, rotated]) (auto simp: cleaner_move_def)

lemma resolved_as_decided:
  assumes "sys_inv s" "sys_inv s'" "in_progress s = {}" "decision s' = decision s" "g \<in> prepared s" "outcome s' g \<noteq> None"
  shows "decision s g \<noteq> None \<and> outcome s' g = decision s g"
proof -
  have "undecided_ok s g" "decided_ok s' g" "g \<in> begun s" using assms(1,2,5) sys_inv_names(1) by (auto simp: sys_inv_def)
  then show ?thesis using assms(3-) by (cases "decision s g"; cases "outcome s' g") (auto simp: undecided_ok_def decided_ok_def)
qed


end
