(* ===== verification/Meta_Message.thy ===== *)
theory Meta_Message
  imports Error_Code
begin

text \<open>
  The messages of \<^verbatim>\<open>remote_connection_def/fbs/cuckoo_meta_param.fbs\<close> and
  \<^verbatim>\<open>remote_connection_def/fbs/cuckoo_meta_response.fbs\<close>. A string of a table may be absent. How a message
  becomes bytes and what is read from bytes is generated code: the parameter \<open>fb_env\<close>, whose readers
  give \<open>None\<close> when the verifier rejects the bytes.
\<close>

datatype (plugins only: code size) AnyMetaParam =
    PlainCommandParam "string option"
  | PathOnlyParam "string option"
  | MkdirSubMkdirParam u64 "string option" u64
  | MkdirSubCreateParam u64 "string option" u64 u32 u64 u64
  | CloseParam "string option" u64 u64 int
  | ReadDirParam "string option" int int "string option"
  | RmdirSubRmdirParam u64 "string option"
  | RmdirSubUnlinkParam u64 "string option"
  | RenameParam "string option" "string option"
  | RenameSubRenameLocallyParam u64 u64 "string option" u64 u64 "string option" bool u64 int
  | RenameSubCreateParam u64 "string option" u64 u64 u32 u64 u32 u32 u64 u64 u64 u64 u64 u64 u64 int
  | UtimeNsParam "string option" u64 u64
  | ChownParam "string option" u32 u32
  | ChmodParam "string option" u64

text \<open>The attributes that \<^verbatim>\<open>CreateResponse\<close>, \<^verbatim>\<open>StatResponse\<close>, \<^verbatim>\<open>OpenResponse\<close> and \<^verbatim>\<open>RenameSubRenameLocallyResponse\<close> share.\<close>

record fb_stat =
  fb_ino :: u64
  fb_dev :: u64
  fb_mode :: u32
  fb_nlink :: u64
  fb_uid :: u32
  fb_gid :: u32
  fb_rdev :: u64
  fb_size :: u64
  fb_blksize :: u64
  fb_blocks :: u64
  fb_atim :: u64
  fb_mtim :: u64
  fb_ctim :: u64

datatype (plugins only: code size) AnyMetaResponse =
    PlainCommandResponse u32 u32 "string option list"
  | CreateResponse fb_stat int
  | StatResponse fb_stat
  | OpenResponse fb_stat int
  | UnlinkResponse u64 u64 int
  | ReadDirResponse int "string option" "(string option \<times> u32) list"
  | OpenDirResponse u64
  | RenameSubRenameLocallyResponse fb_stat int

record MetaResponse =
  error_code :: u32
  response :: "AnyMetaResponse option"

record fb_env =
  fb_param_write :: "AnyMetaParam \<Rightarrow> u8 list"
  fb_param_read :: "u8 list \<Rightarrow> AnyMetaParam option option"
  fb_response_write :: "MetaResponse \<Rightarrow> u8 list"
  fb_response_read :: "u8 list \<Rightarrow> MetaResponse option"

end
