(* ===== verification/Meta_State.thy ===== *)
theory Meta_State
  imports Remote_Comm Path_Parse Path_Order Shard_Table Serialized_Data Meta_Message
begin

text \<open>
  What the handlers of \<^verbatim>\<open>cuckoo/metadb/meta_handle.c\<close> work on: the requests
  (\<^verbatim>\<open>MetaProcessInfoData\<close>), the rows of the inode tables, the state of one backend on one metadata
  server, and the functions that read and write one row.

  Values of type \<^verbatim>\<open>int64_t\<close> that are only stored, sent and compared with \<open>-1\<close> are kept as 64-bit words.
  The inode tables are found by the names of their relations; the index of a table is created and
  dropped with it. Everything the handlers use from outside the repository is in \<open>meta_env\<close>: the
  hash function, the sequence, the clock, the sorting routine, the order in which a hash table is
  enumerated, the order of an index, the generated code for flat buffers, the byte order of the host,
  the allocator of the server process, and what is in the memory of requests before it is written.
\<close>

section \<open>Requests\<close>

record MetaProcessInfo =
  mi_path :: string
  mi_parentId :: u64
  mi_inodeId :: u64
  mi_parentId_partId :: u64
  mi_name :: string
  mi_st_dev :: u64
  mi_st_mode :: u32
  mi_st_nlink :: u64
  mi_st_uid :: u32
  mi_st_gid :: u32
  mi_st_rdev :: u64
  mi_st_size :: u64
  mi_st_blksize :: u64
  mi_st_blocks :: u64
  mi_st_atim :: u64
  mi_st_mtim :: u64
  mi_st_ctim :: u64
  mi_etag :: string
  mi_node_id :: int
  mi_readDirMaxReadCount :: int
  mi_readDirLastShardIndex :: int
  mi_readDirLastFileName :: "string option"
  mi_readDirResultList :: "(string \<times> u32) list"
  mi_dstPath :: string
  mi_dstParentId :: u64
  mi_dstParentIdPartId :: u64
  mi_dstName :: string
  mi_targetIsDirectory :: bool
  mi_srcLockOrder :: int
  mi_errorCode :: CuckooErrorCode

section \<open>Inode tables\<close>

type_synonym inode_key = "u64 \<times> string"

record inode_row =
  row_ino :: u64
  row_dev :: u64
  row_mode :: u32
  row_nlink :: u64
  row_uid :: u32
  row_gid :: u32
  row_rdev :: u64
  row_size :: u64
  row_blksize :: u64
  row_blocks :: u64
  row_atim :: u64
  row_mtim :: u64
  row_ctim :: u64
  row_etag :: string
  row_update_version :: u64
  row_primary_nodeid :: int
  row_backup_nodeid :: int

definition InodeTableName :: string where "InodeTableName = ''cuckoo_inode_table''"

definition GetInodeShardName :: "int \<Rightarrow> string" where
  "GetInodeShardName shardId = InodeTableName @ ''_'' @ signed_decimal shardId"

section \<open>State and environment\<close>

record meta_state =
  m_dirs :: dir_state
  m_root :: "PathParseTreeNode option"
  m_remote :: rc_state
  m_shards :: sh_state
  m_inodes :: "string \<Rightarrow> (inode_key, inode_row) heap option"
  m_seq :: seq_local
  m_draws :: nat
  m_ticks :: nat
  m_infos :: "MetaProcessInfo list"

record meta_env =
  me_dir :: dir_env
  me_pq :: pq_env
  me_hash :: "u32 \<Rightarrow> u32"
  me_signed :: bool
  me_nextval :: "nat \<Rightarrow> u64"
  me_clock :: "nat \<Rightarrow> u64"
  me_qsort :: "(nat \<Rightarrow> string) \<Rightarrow> nat list \<Rightarrow> nat list"
  me_group_seq :: "(int \<times> nat list) list \<Rightarrow> (int \<times> nat list) list"
  me_index_seq :: "(inode_key \<times> inode_row) list \<Rightarrow> (inode_key \<times> inode_row) list"
  me_name_gt :: "string \<Rightarrow> string \<Rightarrow> bool"
  me_fb :: fb_env
  me_little :: bool
  me_mm :: MemoryManager
  me_fresh :: "nat \<Rightarrow> MetaProcessInfo"

text \<open>An operation on one part of the state.\<close>

definition on_part :: "('s \<Rightarrow> 'a) \<Rightarrow> ('a \<Rightarrow> 's \<Rightarrow> 's) \<Rightarrow> ('a, 'b) exec \<Rightarrow> ('s, 'b) exec" where
  "on_part get put m s =
     (case m (get s) of
        Returns (r, a) \<Rightarrow> Returns (r, put a s)
      | Loops \<Rightarrow> Loops
      | Faults \<Rightarrow> Faults)"

abbreviation on_dirs :: "(dir_state, 'a) exec \<Rightarrow> (meta_state, 'a) exec" where
  "on_dirs \<equiv> on_part m_dirs (\<lambda>d s. s\<lparr>m_dirs := d\<rparr>)"

abbreviation on_rc :: "(rc_state, 'a) exec \<Rightarrow> (meta_state, 'a) exec" where
  "on_rc \<equiv> on_part m_remote (\<lambda>r s. s\<lparr>m_remote := r\<rparr>)"

abbreviation on_shards :: "(sh_state, 'a) exec \<Rightarrow> (meta_state, 'a) exec" where
  "on_shards \<equiv> on_part m_shards (\<lambda>t s. s\<lparr>m_shards := t\<rparr>)"

definition local_server_id :: "meta_env \<Rightarrow> (meta_state, int) exec" where
  "local_server_id E = on_rc (exec_op (on_servers (GetLocalServerId (text_clip (me_pq E)) (server_seq (me_pq E)))))"

definition search_shard :: "meta_env \<Rightarrow> u64 \<Rightarrow> (meta_state, int \<times> int) exec" where
  "search_shard E key = on_shards (SearchShardInfoByShardValue (me_hash E) key)"

definition GetCurrentTimestamp :: "meta_env \<Rightarrow> (meta_state, u64) exec" where
  "GetCurrentTimestamp E s = Returns (Inr (me_clock E (m_ticks s)), s\<lparr>m_ticks := Suc (m_ticks s)\<rparr>)"

text \<open>What the command has written becomes visible to the scans that follow.\<close>

definition CommandCounterIncrement :: "meta_state \<Rightarrow> meta_state" where
  "CommandCounterIncrement s =
     s\<lparr>m_dirs := (m_dirs s)\<lparr>directory_table := heap_next_command (directory_table (m_dirs s))\<rparr>,
       m_remote := (m_remote s)\<lparr>distributed_transaction := heap_next_command (distributed_transaction (m_remote s))\<rparr>,
       m_inodes := (\<lambda>rel. map_option heap_next_command (m_inodes s rel))\<rparr>"

section \<open>Paths\<close>

text \<open>The operations the path parser calls.\<close>

definition new_inode_id :: "meta_env \<Rightarrow> (meta_state, u64) exec" where
  "new_inode_id E s =
     (case GetNextSequenceNum (me_nextval E) (m_seq s) (m_draws s) of
        (n, l, draws) \<Rightarrow>
          exec_bind (local_server_id E) (\<lambda>serverId. exec_return (GenerateInodeIdBySeqAndNodeId n (word_of_int serverId)))
            (s\<lparr>m_seq := l, m_draws := draws\<rparr>))"

definition release_last :: "(dir_state, unit) exec" where
  "release_last d =
     (case DirectoryHashTableLastAcquiredLock d of
        None \<Rightarrow> Faults
      | Some key \<Rightarrow>
          (case RWLockRelease (dir_locks d) key of
             Inl e \<Rightarrow> Returns (Inl e, d)
           | Inr b \<Rightarrow> Returns (Inr (), d\<lparr>dir_locks := b\<rparr>)))"

definition meta_ops :: "meta_env \<Rightarrow> meta_state pp_ops" where
  "meta_ops E = \<lparr>pp_search = (\<lambda>pid name mode. on_dirs (SearchDirectoryByDirectoryHashTable (me_dir E) pid name mode)),
     pp_release = on_dirs release_last, pp_new_id = new_inode_id E\<rparr>"

definition parse_path :: "meta_env \<Rightarrow> string \<Rightarrow> u16 \<Rightarrow> u64 option \<Rightarrow> (meta_state, pp_out) exec" where
  "parse_path E path flag inodeId s =
     (case PathParseTreeInsert (meta_ops E) path flag inodeId (m_root s, s) of
        Returns (r, tree, s') \<Rightarrow> Returns (r, s'\<lparr>m_root := tree\<rparr>)
      | Loops \<Rightarrow> Loops
      | Faults \<Rightarrow> Faults)"

section \<open>One row\<close>

text \<open>
  The arguments of \<^verbatim>\<open>SearchAndUpdateInodeTableInfo\<close> that decide what it does. The pointers through
  which it only reports what it found are left to the caller, which gets the row as it was.
\<close>

record inode_request =
  rq_doUpdate :: bool
  rq_newSize :: "u64 option"
  rq_updateVersion :: bool
  rq_nlink :: bool
  rq_nlinkChangeNum :: int
  rq_newExecMode :: "u32 option"
  rq_newUid :: "u32 option"
  rq_newGid :: "u32 option"
  rq_newEtag :: "string option"
  rq_newAtime :: "u64 option"
  rq_newMtime :: "u64 option"
  rq_newPrimaryNodeId :: "int option"

definition plain_request :: "bool \<Rightarrow> inode_request" where
  "plain_request doUpdate = \<lparr>rq_doUpdate = doUpdate, rq_newSize = None, rq_updateVersion = False, rq_nlink = False,
     rq_nlinkChangeNum = 0, rq_newExecMode = None, rq_newUid = None, rq_newGid = None, rq_newEtag = None,
     rq_newAtime = None, rq_newMtime = None, rq_newPrimaryNodeId = None\<rparr>"

definition or_else :: "'a option \<Rightarrow> 'a \<Rightarrow> 'a" where
  "or_else v old = (case v of None \<Rightarrow> old | Some new \<Rightarrow> new)"

lemma or_else_simps [simp]: "or_else None old = old" "or_else (Some new) old = new"
  by (simp_all add: or_else_def)

definition new_nlink :: "inode_request \<Rightarrow> inode_row \<Rightarrow> u64" where
  "new_nlink rq row = row_nlink row + word_of_int (rq_nlinkChangeNum rq)"

definition updated_row :: "inode_request \<Rightarrow> inode_row \<Rightarrow> inode_row" where
  "updated_row rq row = row\<lparr>
     row_size := or_else (rq_newSize rq) (row_size row),
     row_update_version := (if rq_updateVersion rq then row_update_version row + 1 else row_update_version row),
     row_nlink := (if rq_nlink rq then new_nlink rq row else row_nlink row),
     row_uid := or_else (rq_newUid rq) (row_uid row),
     row_gid := or_else (rq_newGid rq) (row_gid row),
     row_mode := (case rq_newExecMode rq of None \<Rightarrow> row_mode row | Some m \<Rightarrow> row_mode row AND NOT 0x1FF OR m),
     row_etag := or_else (rq_newEtag rq) (row_etag row),
     row_atim := or_else (rq_newAtime rq) (row_atim row),
     row_mtim := or_else (rq_newMtime rq) (row_mtim row),
     row_primary_nodeid := or_else (rq_newPrimaryNodeId rq) (row_primary_nodeid row)\<rparr>"

definition removes_row :: "inode_request \<Rightarrow> inode_row \<Rightarrow> bool" where
  "removes_row rq row \<longleftrightarrow> rq_nlink rq \<and> new_nlink rq row = 0"

definition needCatalogTupleUpdate :: "inode_request \<Rightarrow> inode_row \<Rightarrow> bool" where
  "needCatalogTupleUpdate rq row \<longleftrightarrow>
     rq_newSize rq \<noteq> None \<or> rq_updateVersion rq \<or> rq_nlink rq \<and> new_nlink rq row \<noteq> 0
     \<or> rq_newUid rq \<noteq> None \<or> rq_newGid rq \<noteq> None \<or> rq_newExecMode rq \<noteq> None \<or> rq_newEtag rq \<noteq> None
     \<or> rq_newAtime rq \<noteq> None \<or> rq_newMtime rq \<noteq> None \<or> rq_newPrimaryNodeId rq \<noteq> None"

text \<open>A relation that does not exist is an error, as is updating a row version that is already gone.\<close>

definition on_table ::
    "string \<Rightarrow> ((inode_key, inode_row) heap, 'a) op \<Rightarrow> (meta_state, 'a) op" where
  "on_table rel f s =
     (case m_inodes s rel of
        None \<Rightarrow> (Inl PROGRAM_ERROR, s)
      | Some h \<Rightarrow> (case f h of (r, h') \<Rightarrow> (r, s\<lparr>m_inodes := (m_inodes s)(rel \<mapsto> h')\<rparr>)))"

definition next_command :: "(meta_state, unit) op" where
  "next_command s = (Inr (), CommandCounterIncrement s)"

definition SearchAndUpdateInodeTableInfo ::
    "string \<Rightarrow> u64 \<Rightarrow> string \<Rightarrow> inode_request \<Rightarrow> (meta_state, inode_row option) op" where
  "SearchAndUpdateInodeTableInfo rel parentId_partId fileName rq =
     op_bind (on_table rel (\<lambda>h. (Inr (heap_fetch h (parentId_partId, fileName)), h))) (\<lambda>found.
       case found of
         None \<Rightarrow> (\<lambda>s. (Inr None, s))
       | Some row \<Rightarrow>
           if \<not> rq_doUpdate rq then (\<lambda>s. (Inr (Some row), s))
           else
             op_bind (if removes_row rq row
                      then op_bind (on_table rel (heap_delete (parentId_partId, fileName))) (\<lambda>_. next_command)
                      else (\<lambda>s. (Inr (), s))) (\<lambda>_.
             op_bind (if \<not> needCatalogTupleUpdate rq row then (\<lambda>s. (Inr (), s))
                      else if removes_row rq row then (\<lambda>s. (Inl UNKNOWN, s))
                      else op_bind (on_table rel (heap_update (parentId_partId, fileName) (updated_row rq row)))
                             (\<lambda>_. next_command)) (\<lambda>_ s.
             (Inr (Some row), s))))"

definition InsertIntoInodeTable ::
    "string \<Rightarrow> u64 \<Rightarrow> string \<Rightarrow> inode_row \<Rightarrow> (meta_state, unit) op" where
  "InsertIntoInodeTable rel parentid_partid fileName row =
     op_bind (on_table rel (heap_insert (parentid_partid, fileName) row)) (\<lambda>_. next_command)"

section \<open>Access to the requests\<close>

definition info :: "nat \<Rightarrow> meta_state \<Rightarrow> MetaProcessInfo" where
  "info i s = m_infos s ! i"

definition set_info :: "nat \<Rightarrow> (MetaProcessInfo \<Rightarrow> MetaProcessInfo) \<Rightarrow> meta_state \<Rightarrow> meta_state" where
  "set_info i f s = s\<lparr>m_infos := (m_infos s)[i := f (m_infos s ! i)]\<rparr>"

definition set_code :: "nat \<Rightarrow> CuckooErrorCode \<Rightarrow> meta_state \<Rightarrow> meta_state" where
  "set_code i c = set_info i (\<lambda>m. m\<lparr>mi_errorCode := c\<rparr>)"

text \<open>What \<^verbatim>\<open>PathParseTreeInsert\<close> stores through the pointers into a request.\<close>

definition take_out :: "pp_out \<Rightarrow> MetaProcessInfo \<Rightarrow> MetaProcessInfo" where
  "take_out out m = m\<lparr>mi_parentId := or_else (out_parentId out) (mi_parentId m),
     mi_name := or_else (out_fileName out) (mi_name m), mi_inodeId := or_else (out_inodeId out) (mi_inodeId m)\<rparr>"

end
