(* ===== verification/Meta_Frame.thy ===== *)
theory Meta_Frame
  imports Meta_State
begin

text \<open>
  What resolving requests leaves alone. Parsing a path, asking for a shard or for the own server id, and
  drawing an inode id fill caches and take locks; no row of a table and no other request changes. The
  locale \<open>frame\<close> carries any such relation through the path parser.
\<close>

section \<open>Through the parser\<close>

definition walk_keeps :: "('s \<Rightarrow> 's \<Rightarrow> bool) \<Rightarrow> 's \<Rightarrow> ((CuckooErrorCode + pp_out) \<times> PathParseTreeNode \<times> 's) run \<Rightarrow> bool" where
  "walk_keeps R s w \<longleftrightarrow> (\<forall>r n s'. w = Returns (r, n, s') \<longrightarrow> R s s')"

locale frame =
  fixes R :: "'s \<Rightarrow> 's \<Rightarrow> bool"
  assumes same [simp]: "R s s"
    and chain: "R s t \<Longrightarrow> R t u \<Longrightarrow> R s u"
begin

lemma keeps_simple [simp]:
  "exec_keeps R (exec_return x)" "exec_keeps R (exec_raise e)" "exec_keeps R (exec_gets f)" "exec_keeps R (\<lambda>s. Faults)"
  by (simp_all add: exec_keeps_def)

lemma keeps_bind: "exec_keeps R m \<Longrightarrow> (\<And>x. exec_keeps R (f x)) \<Longrightarrow> exec_keeps R (exec_bind m f)"
  by (rule exec_keeps_bind [OF chain])

lemma walk_returns: "R s s' \<Longrightarrow> walk_keeps R s (Returns (r, n, s'))"
  by (simp add: walk_keeps_def)

lemma walk_call:
  assumes m: "exec_keeps R m" and f: "\<And>x s1. R s s1 \<Longrightarrow> walk_keeps R s (f x s1)" and s: "R s t"
  shows "walk_keeps R s (pp_call m node t f)"
proof (cases "m t")
  case (Returns z)
  obtain r s1 where z: "z = (r, s1)" by (cases z)
  have "R s s1" using chain [OF s exec_keepsD [OF m]] Returns z by blast
  then show ?thesis using f [of s1] Returns z by (cases r) (auto simp: pp_call_def walk_keeps_def)
qed (auto simp: pp_call_def walk_keeps_def)

end

locale parser_frame = frame R for R :: "'s \<Rightarrow> 's \<Rightarrow> bool" +
  fixes ops :: "'s pp_ops"
  assumes search_keeps: "exec_keeps R (pp_search ops pid name mode)"
    and release_keeps: "exec_keeps R (pp_release ops)"
    and new_id_keeps: "exec_keeps R (pp_new_id ops)"
begin

lemmas op_keeps = search_keeps release_keeps new_id_keeps

lemma create_keeps: "R s t \<Longrightarrow> walk_keeps R s (pp_create ops flag target out node t)"
  unfolding pp_create_def Let_def
  by (auto split: option.splits if_splits intro!: walk_returns walk_call op_keeps)

lemma delete_keeps: "R s t \<Longrightarrow> walk_keeps R s (pp_delete ops target out node t)"
  unfolding pp_delete_def Let_def
  by (auto split: option.splits if_splits intro!: walk_returns walk_call op_keeps)

lemma shared_keeps: "R s t \<Longrightarrow> walk_keeps R s (pp_shared ops flag target out node t)"
  unfolding pp_shared_def Let_def
  by (auto split: option.splits if_splits intro!: walk_returns walk_call op_keeps)

lemma target_keeps: "R s t \<Longrightarrow> walk_keeps R s (pp_target ops flag ino target node t)"
  unfolding pp_target_def Let_def by (auto intro: create_keeps delete_keeps shared_keeps walk_returns)

lemma descend_keeps:
  "walk_keeps R s w \<Longrightarrow>
   walk_keeps R s (case w of Returns (r, child, s2) \<Rightarrow> Returns (r, set_child name child node, s2) | Loops \<Rightarrow> Loops | Faults \<Rightarrow> Faults)"
  by (cases w) (auto simp: walk_keeps_def)

lemma walk_keeps_all: "R s t \<Longrightarrow> walk_keeps R s (pp_walk ops flag ino first cur len node t)"
proof (induction "length cur" arbitrary: first cur len node t rule: less_induct)
  case less
  have walk: "walk_keeps R s (pp_walk ops flag ino False (drop (Suc j) cur) len1 node1 t1)" if "len < length cur" "R s t1"
    for j len1 node1 t1
    by (rule less.hyps) (use that in auto)
  show ?case using less.prems
    by (subst pp_walk.simps) (auto simp: Let_def split: option.splits if_splits
      intro!: target_keeps descend_keeps walk_returns walk_call op_keeps walk)
qed

lemma parse_keeps:
  assumes "PathParseTreeInsert ops path flag ino (tree, s) = Returns (r, tree', s')"
  shows "R s s'"
  using assms walk_keeps_all [OF same, of s flag ino True path 1]
  by (auto simp: PathParseTreeInsert_def walk_keeps_def Let_def split: if_splits run.splits prod.splits)

end

section \<open>Requests and tables\<close>

definition untouched :: "meta_env \<Rightarrow> nat set \<Rightarrow> meta_state \<Rightarrow> meta_state \<Rightarrow> bool" where
  "untouched E J s s' \<longleftrightarrow> m_inodes s' = m_inodes s
     \<and> distributed_transaction (m_remote s') = distributed_transaction (m_remote s)
     \<and> length (m_infos s') = length (m_infos s) \<and> (\<forall>j. j \<notin> J \<longrightarrow> info j s' = info j s)
     \<and> (scan_complete (me_dir E) \<and> dir_wf (me_dir E) (m_dirs s)
          \<longrightarrow> dir_wf (me_dir E) (m_dirs s') \<and> directory_table (m_dirs s') = directory_table (m_dirs s))"

lemma untouched_mono: "untouched E I s s' \<Longrightarrow> I \<subseteq> J \<Longrightarrow> untouched E J s s'"
  by (auto simp: untouched_def)

lemma on_part_returns:
  assumes "on_part get put m s = Returns (r, s')"
  obtains a where "m (get s) = Returns (r, a)" "s' = put a s"
  using assms by (auto simp: on_part_def split: run.splits prod.splits)

interpretation kept: frame "untouched E J" for E J
  by unfold_locales (auto simp: untouched_def)

lemma search_untouched:
  "exec_keeps (untouched E J) (on_dirs (SearchDirectoryByDirectoryHashTable (me_dir E) pid name mode))"
proof (rule exec_keepsI)
  fix s r s'
  assume "on_dirs (SearchDirectoryByDirectoryHashTable (me_dir E) pid name mode) s = Returns (r, s')"
  then obtain d where d: "SearchDirectoryByDirectoryHashTable (me_dir E) pid name mode (m_dirs s) = Returns (r, d)" "s' = s\<lparr>m_dirs := d\<rparr>"
    by (rule on_part_returns)
  then show "untouched E J s s'" using Search_post [OF d(1)] by (auto simp: untouched_def cache_step_def info_def)
qed

lemma release_untouched: "exec_keeps (untouched E J) (on_dirs release_last)"
proof (rule exec_keepsI)
  fix s r s'
  assume "on_dirs release_last s = Returns (r, s')"
  then obtain d where d: "release_last (m_dirs s) = Returns (r, d)" "s' = s\<lparr>m_dirs := d\<rparr>"
    by (rule on_part_returns)
  then show "untouched E J s s'"
    by (auto simp: release_last_def untouched_def info_def dir_wf_def split: option.splits sum.splits)
qed

lemma local_id_untouched: "exec_keeps (untouched E J) (local_server_id E)"
  by (rule exec_keepsI) (auto simp: local_server_id_def on_servers_def untouched_def info_def
      elim!: on_part_returns split: prod.splits)

lemma shards_untouched: "exec_keeps (untouched E J) (on_shards m)"
  by (rule exec_keepsI) (auto simp: untouched_def info_def elim!: on_part_returns)

lemma search_shard_untouched: "exec_keeps (untouched E J) (search_shard E key)"
  unfolding search_shard_def by (rule shards_untouched)

lemma clock_untouched: "exec_keeps (untouched E J) (GetCurrentTimestamp E)"
  by (simp add: exec_keeps_def GetCurrentTimestamp_def untouched_def info_def)

lemma new_id_untouched: "exec_keeps (untouched E J) (new_inode_id E)"
proof (rule exec_keepsI)
  fix s r s'
  assume "new_inode_id E s = Returns (r, s')"
  then obtain l n where "exec_bind (local_server_id E) (\<lambda>serverId. exec_return (GenerateInodeIdBySeqAndNodeId (fst n) (word_of_int serverId)))
      (s\<lparr>m_seq := l, m_draws := snd n\<rparr>) = Returns (r, s')"
    by (auto simp: new_inode_id_def split: prod.splits)
  moreover have "exec_keeps (untouched E J) (exec_bind (local_server_id E)
      (\<lambda>serverId. exec_return (GenerateInodeIdBySeqAndNodeId (fst n) (word_of_int serverId))))"
    by (intro kept.keeps_bind local_id_untouched kept.keeps_simple)
  ultimately have "untouched E J (s\<lparr>m_seq := l, m_draws := snd n\<rparr>) s'" by (auto dest: exec_keepsD)
  then show "untouched E J s s'" by (simp add: untouched_def info_def)
qed

interpretation parsing: parser_frame "untouched E J" "meta_ops E" for E J
  by unfold_locales (simp_all add: meta_ops_def search_untouched release_untouched new_id_untouched)

lemma parse_untouched: "exec_keeps (untouched E J) (parse_path E path flag ino)"
proof (rule exec_keepsI)
  fix s r s'
  assume "parse_path E path flag ino s = Returns (r, s')"
  then obtain tree s1 where p: "PathParseTreeInsert (meta_ops E) path flag ino (m_root s, s) = Returns (r, tree, s1)" "s' = s1\<lparr>m_root := tree\<rparr>"
    by (auto simp: parse_path_def split: run.splits prod.splits)
  show "untouched E J s s'" using parsing.parse_keeps [OF p(1), of J] unfolding p(2) by (simp add: untouched_def info_def)
qed

lemma set_info_untouched: "i \<in> J \<Longrightarrow> exec_keeps (untouched E J) (exec_modify (set_info i f))"
  by (auto simp: exec_keeps_def untouched_def info_def set_info_def intro!: nth_list_update_neq)

lemma set_code_untouched: "i \<in> J \<Longrightarrow> exec_keeps (untouched E J) (exec_modify (set_code i c))"
  unfolding set_code_def by (rule set_info_untouched)

lemmas resolve_untouched = kept.keeps_simple kept.keeps_bind local_id_untouched search_shard_untouched shards_untouched
  clock_untouched parse_untouched set_info_untouched set_code_untouched

end
