(* ===== verification/Meta_Handle.thy ===== *)
theory Meta_Handle
  imports Meta_Frame "HOL-Library.Multiset"
begin

text \<open>
  The handlers of \<^verbatim>\<open>cuckoo/metadb/meta_handle.c\<close> that work on files of one server: create, stat, open,
  close and unlink on batches of requests, and the single requests that change attributes. A request is
  named by its position in the array of requests, which the handler changes in place; the array of
  pointers it sorts is the list of these positions.
\<close>

section \<open>Batches\<close>

definition parent_key :: "meta_env \<Rightarrow> u64 \<Rightarrow> string \<Rightarrow> u64" where
  "parent_key E parentId fileName = CombineParentIdWithPartId parentId (HashPartId (me_signed E) fileName)"

definition verify_infos :: "32 word \<Rightarrow> nat list \<Rightarrow> meta_state \<Rightarrow> meta_state" where
  "verify_infos requirement =
     fold (\<lambda>i s. set_code i (fst (VerifyPathValidity (Some (mi_path (info i s))) requirement)) s)"

definition sorted_infos :: "meta_env \<Rightarrow> nat list \<Rightarrow> meta_state \<Rightarrow> nat list" where
  "sorted_infos E infoArray s = me_qsort E (\<lambda>i. mi_path (info i s)) infoArray"

text \<open>One request: parse its path, compute its key and find its shard, which must be on this server.\<close>

definition locate_info ::
    "meta_env \<Rightarrow> u16 \<Rightarrow> bool \<Rightarrow> (nat \<Rightarrow> (meta_state, unit) exec) \<Rightarrow> nat \<Rightarrow> (meta_state, int option) exec" where
  "locate_info E flag wantInodeId prepare i =
     exec_bind (exec_gets (info i)) (\<lambda>m.
     exec_bind (parse_path E (mi_path m) flag (if wantInodeId then Some (mi_inodeId m) else None)) (\<lambda>out.
     exec_bind (exec_modify (set_info i (take_out out))) (\<lambda>_.
     if pp_code out \<noteq> SUCCESS then exec_bind (exec_modify (set_code i (pp_code out))) (\<lambda>_. exec_return None)
     else
       exec_bind (exec_modify (set_info i (\<lambda>m. m\<lparr>mi_parentId_partId := parent_key E (mi_parentId m) (mi_name m)\<rparr>))) (\<lambda>_.
       exec_bind (prepare i) (\<lambda>_.
       exec_bind (exec_gets (\<lambda>s. mi_parentId_partId (info i s))) (\<lambda>key.
       exec_bind (search_shard E key) (\<lambda>(shardId, workerId).
       exec_bind (local_server_id E) (\<lambda>serverId.
       if workerId \<noteq> serverId then exec_bind (exec_modify (set_code i WRONG_WORKER)) (\<lambda>_. exec_return None)
       else exec_return (Some shardId)))))))))"

definition group_add :: "int \<Rightarrow> nat \<Rightarrow> (int \<times> nat list) list \<Rightarrow> (int \<times> nat list) list" where
  "group_add shardId i groups =
     (case map_of groups shardId of
        None \<Rightarrow> groups @ [(shardId, [i])]
      | Some is \<Rightarrow> AList.update shardId (is @ [i]) groups)"

primrec group_infos ::
    "meta_env \<Rightarrow> u16 \<Rightarrow> bool \<Rightarrow> (nat \<Rightarrow> (meta_state, unit) exec) \<Rightarrow> nat list \<Rightarrow> (int \<times> nat list) list
     \<Rightarrow> (meta_state, (int \<times> nat list) list) exec" where
  "group_infos E flag wantInodeId prepare [] groups = exec_return groups"
| "group_infos E flag wantInodeId prepare (i # is) groups =
     exec_bind (exec_gets (\<lambda>s. mi_errorCode (info i s))) (\<lambda>code.
     if code \<noteq> SUCCESS then group_infos E flag wantInodeId prepare is groups
     else
       exec_bind (locate_info E flag wantInodeId prepare i) (\<lambda>found.
       group_infos E flag wantInodeId prepare is
         (case found of None \<Rightarrow> groups | Some shardId \<Rightarrow> group_add shardId i groups)))"

primrec each :: "('a \<Rightarrow> ('s, unit) exec) \<Rightarrow> 'a list \<Rightarrow> ('s, unit) exec" where
  "each f [] = exec_return ()"
| "each f (x # xs) = exec_bind (f x) (\<lambda>_. each f xs)"

definition resolve_batch ::
    "meta_env \<Rightarrow> 32 word \<Rightarrow> u16 \<Rightarrow> bool \<Rightarrow> (nat \<Rightarrow> (meta_state, unit) exec) \<Rightarrow> nat list
     \<Rightarrow> (meta_state, (int \<times> nat list) list) exec" where
  "resolve_batch E requirement flag wantInodeId prepare infoArray =
     exec_bind (exec_modify (verify_infos requirement infoArray)) (\<lambda>_.
     exec_bind (exec_gets (sorted_infos E infoArray)) (\<lambda>infoArray.
     exec_bind (on_shards GetShardTableSize) (\<lambda>_.
     group_infos E flag wantInodeId prepare infoArray [])))"

definition batch ::
    "meta_env \<Rightarrow> 32 word \<Rightarrow> u16 \<Rightarrow> bool \<Rightarrow> (nat \<Rightarrow> (meta_state, unit) exec)
     \<Rightarrow> (int \<Rightarrow> nat list \<Rightarrow> (meta_state, unit) exec) \<Rightarrow> nat list \<Rightarrow> (meta_state, unit) exec" where
  "batch E requirement flag wantInodeId prepare handle infoArray =
     exec_bind (resolve_batch E requirement flag wantInodeId prepare infoArray) (\<lambda>groups.
     each (\<lambda>(shardId, is). handle shardId is) (me_group_seq E groups))"

section \<open>Create\<close>

definition BATCH_OPERATION_GROUP_SIZE :: nat where "BATCH_OPERATION_GROUP_SIZE = 8"

definition S_IFREG :: u32 where "S_IFREG = 0x8000"
definition S_IFDIR :: u32 where "S_IFDIR = 0x4000"
definition S_IFMT :: u32 where "S_IFMT = 0xF000"

definition S_ISREG :: "u32 \<Rightarrow> bool" where "S_ISREG m \<longleftrightarrow> m AND S_IFMT = S_IFREG"

definition create_attributes :: "meta_env \<Rightarrow> nat \<Rightarrow> (meta_state, unit) exec" where
  "create_attributes E i =
     exec_bind (GetCurrentTimestamp E) (\<lambda>now.
     exec_modify (set_info i (\<lambda>m. m\<lparr>mi_st_mode := S_IFREG OR 0x1A4, mi_st_mtim := now, mi_st_size := 0,
       mi_node_id := - 1, mi_st_nlink := 1, mi_etag := [], mi_st_dev := 0, mi_st_uid := 0, mi_st_gid := 0,
       mi_st_rdev := 0, mi_st_blksize := 0, mi_st_blocks := 0, mi_st_atim := 0, mi_st_ctim := 0\<rparr>)))"

definition created_row :: "MetaProcessInfo \<Rightarrow> inode_row" where
  "created_row m = \<lparr>row_ino = mi_inodeId m, row_dev = 0, row_mode = mi_st_mode m, row_nlink = 1, row_uid = 0,
     row_gid = 0, row_rdev = 0, row_size = mi_st_size m, row_blksize = 0, row_blocks = 0, row_atim = mi_st_mtim m,
     row_mtim = mi_st_mtim m, row_ctim = mi_st_mtim m, row_etag = mi_etag m, row_update_version = 0,
     row_primary_nodeid = - 1, row_backup_nodeid = - 1\<rparr>"

text \<open>What is reported of a row by \<^verbatim>\<open>open\<close>, and by \<^verbatim>\<open>create\<close> when the file exists.\<close>

definition fill_open :: "inode_row \<Rightarrow> MetaProcessInfo \<Rightarrow> MetaProcessInfo" where
  "fill_open row m = m\<lparr>mi_inodeId := row_ino row, mi_st_size := row_size row, mi_st_nlink := row_nlink row,
     mi_st_mode := row_mode row, mi_node_id := row_primary_nodeid row\<rparr>"

text \<open>
  The inner loop, up to eight insertions in one subtransaction: what is left to do, or the request at
  which an error was caught.
\<close>

fun create_group :: "string \<Rightarrow> nat list \<Rightarrow> nat \<Rightarrow> meta_state \<Rightarrow> (nat + nat list) \<times> meta_state" where
  "create_group rel [] currentGroupHandled s = (Inr [], s)"
| "create_group rel (i # is) currentGroupHandled s =
     (if currentGroupHandled = 0 then (Inr (i # is), s)
      else
        let m = info i s in
        if mi_errorCode m \<noteq> SUCCESS then
          if mi_errorCode m = FILE_EXISTS then
            (case SearchAndUpdateInodeTableInfo rel (mi_parentId_partId m) (mi_name m) ((plain_request False)\<lparr>rq_nlink := True\<rparr>) s of
               (Inl e, s1) \<Rightarrow> (Inl i, s1)
             | (Inr None, s1) \<Rightarrow> create_group rel is currentGroupHandled s1
             | (Inr (Some row), s1) \<Rightarrow> create_group rel is currentGroupHandled (set_info i (fill_open row) s1))
          else create_group rel is currentGroupHandled s
        else
          (case InsertIntoInodeTable rel (mi_parentId_partId m) (mi_name m) (created_row m) s of
             (Inl e, s1) \<Rightarrow> (Inl i, s1)
           | (Inr u, s1) \<Rightarrow> create_group rel is (currentGroupHandled - 1) s1))"

text \<open>Rolling back a subtransaction undoes what was written to tables, not what is in memory.\<close>

definition rolled_back :: "meta_state \<Rightarrow> meta_state \<Rightarrow> meta_state" where
  "rolled_back before s =
     s\<lparr>m_inodes := m_inodes before,
       m_dirs := (m_dirs s)\<lparr>directory_table := directory_table (m_dirs before)\<rparr>,
       m_remote := (m_remote s)\<lparr>distributed_transaction := distributed_transaction (m_remote before)\<rparr>\<rparr>"

partial_function (option) create_loop ::
    "string \<Rightarrow> bool \<Rightarrow> nat list \<Rightarrow> meta_state \<Rightarrow> ((CuckooErrorCode + unit) \<times> meta_state) option" where
  "create_loop rel updateExisted todo s =
     (if todo = [] then Some (Inr (), s)
      else if m_inodes s rel = None then Some (Inl PROGRAM_ERROR, s)
      else
        case create_group rel todo BATCH_OPERATION_GROUP_SIZE s of
          (Inr rest, s1) \<Rightarrow> create_loop rel updateExisted rest (CommandCounterIncrement s1)
        | (Inl i, s1) \<Rightarrow>
            let s2 = rolled_back s s1; m = info i s2 in
            if updateExisted then
              (case SearchAndUpdateInodeTableInfo rel (mi_parentId_partId m) (mi_name m)
                  ((plain_request True)\<lparr>rq_newSize := Some (mi_st_size m), rq_newEtag := Some (mi_etag m),
                    rq_newMtime := Some (mi_st_mtim m)\<rparr>) s2 of
                 (Inl e, s3) \<Rightarrow> Some (Inl e, s3)
               | (Inr found, s3) \<Rightarrow> create_loop rel updateExisted todo s3)
            else create_loop rel updateExisted todo (set_code i FILE_EXISTS s2))"

definition create_shard :: "bool \<Rightarrow> int \<Rightarrow> nat list \<Rightarrow> (meta_state, unit) exec" where
  "create_shard updateExisted shardId is =
     exec_bind (exec_gets (\<lambda>s. m_inodes s (GetInodeShardName shardId) = None)) (\<lambda>missing.
     if missing then exec_raise PROGRAM_ERROR
     else
       exec_bind (exec_gets (\<lambda>s. filter (\<lambda>i. mi_errorCode (info i s) = SUCCESS) is)) (\<lambda>todo.
       exec_loop (create_loop (GetInodeShardName shardId) updateExisted todo)))"

definition CuckooCreateHandle :: "meta_env \<Rightarrow> nat list \<Rightarrow> bool \<Rightarrow> (meta_state, unit) exec" where
  "CuckooCreateHandle E infoArray updateExisted =
     batch E VERIFY_PATH_VALIDITY_REQUIREMENT_MUST_BE_FILE
       (PATH_PARSE_FLAG_NOT_ROOT OR PATH_PARSE_FLAG_TARGET_TO_BE_CREATED) True (create_attributes E)
       (create_shard updateExisted) infoArray"

section \<open>Stat\<close>

definition fill_stat :: "inode_row \<Rightarrow> MetaProcessInfo \<Rightarrow> MetaProcessInfo" where
  "fill_stat row m = m\<lparr>mi_inodeId := row_ino row, mi_st_dev := row_dev row, mi_st_mode := row_mode row,
     mi_st_nlink := row_nlink row, mi_st_uid := row_uid row, mi_st_gid := row_gid row, mi_st_rdev := row_rdev row,
     mi_st_size := row_size row, mi_st_blksize := row_blksize row, mi_st_blocks := row_blocks row,
     mi_st_atim := row_atim row, mi_st_mtim := row_mtim row, mi_st_ctim := row_ctim row, mi_etag := row_etag row\<rparr>"

definition stat_info :: "string \<Rightarrow> nat \<Rightarrow> (meta_state, unit) exec" where
  "stat_info rel i =
     exec_bind (exec_gets (info i)) (\<lambda>m.
     exec_bind (exec_op (on_table rel (\<lambda>h. (Inr (heap_fetch h (mi_parentId_partId m, mi_name m)), h)))) (\<lambda>found.
     case found of
       None \<Rightarrow> exec_modify (set_code i FILE_NOT_EXISTS)
     | Some row \<Rightarrow> exec_modify (set_info i (fill_stat row))))"

definition stat_shard :: "int \<Rightarrow> nat list \<Rightarrow> (meta_state, unit) exec" where
  "stat_shard shardId is =
     exec_bind (exec_op (on_table (GetInodeShardName shardId) (\<lambda>h. (Inr (), h)))) (\<lambda>_.
     each (stat_info (GetInodeShardName shardId)) is)"

definition CuckooStatHandle :: "meta_env \<Rightarrow> nat list \<Rightarrow> (meta_state, unit) exec" where
  "CuckooStatHandle E = batch E 0 0 False (\<lambda>i. exec_return ()) stat_shard"

section \<open>Open, close, unlink\<close>

text \<open>A request is skipped if it has already failed.\<close>

definition unless_failed :: "(nat \<Rightarrow> (meta_state, unit) exec) \<Rightarrow> nat \<Rightarrow> (meta_state, unit) exec" where
  "unless_failed f i =
     exec_bind (exec_gets (\<lambda>s. mi_errorCode (info i s))) (\<lambda>code.
     if code \<noteq> SUCCESS then exec_return () else f i)"

definition open_info :: "string \<Rightarrow> nat \<Rightarrow> (meta_state, unit) exec" where
  "open_info rel i =
     exec_bind (exec_gets (info i)) (\<lambda>m.
     exec_bind (exec_op (SearchAndUpdateInodeTableInfo rel (mi_parentId_partId m) (mi_name m)
       ((plain_request False)\<lparr>rq_nlink := True\<rparr>))) (\<lambda>found.
     exec_modify (set_info i (\<lambda>m.
       (case found of None \<Rightarrow> m | Some row \<Rightarrow> fill_open row m)
         \<lparr>mi_st_dev := 0, mi_st_uid := 0, mi_st_gid := 0, mi_st_rdev := 0, mi_st_blksize := 0, mi_st_blocks := 0,
          mi_st_atim := 0, mi_st_mtim := 0, mi_st_ctim := 0, mi_etag := [],
          mi_errorCode := (if found = None then FILE_NOT_EXISTS else SUCCESS)\<rparr>))))"

definition CuckooOpenHandle :: "meta_env \<Rightarrow> nat list \<Rightarrow> (meta_state, unit) exec" where
  "CuckooOpenHandle E =
     batch E 0 PATH_PARSE_FLAG_ACQUIRE_SHARED_LOCK_IF_TARGET_IS_DIRECTORY False (\<lambda>i. exec_return ())
       (\<lambda>shardId. each (unless_failed (open_info (GetInodeShardName shardId))))"

definition close_info :: "meta_env \<Rightarrow> string \<Rightarrow> nat \<Rightarrow> (meta_state, unit) exec" where
  "close_info E rel i =
     exec_bind (exec_gets (info i)) (\<lambda>m.
     exec_bind (GetCurrentTimestamp E) (\<lambda>mtime.
     exec_bind (exec_op (SearchAndUpdateInodeTableInfo rel (mi_parentId_partId m) (mi_name m)
       ((plain_request True)\<lparr>rq_newSize := Some (mi_st_size m), rq_newMtime := Some mtime,
         rq_newPrimaryNodeId := Some (mi_node_id m)\<rparr>))) (\<lambda>found.
     exec_modify (set_code i (if found = None then FILE_NOT_EXISTS else SUCCESS)))))"

definition CuckooCloseHandle :: "meta_env \<Rightarrow> nat list \<Rightarrow> (meta_state, unit) exec" where
  "CuckooCloseHandle E =
     batch E 0 PATH_PARSE_FLAG_ACQUIRE_SHARED_LOCK_IF_TARGET_IS_DIRECTORY False (\<lambda>i. exec_return ())
       (\<lambda>shardId. each (unless_failed (close_info E (GetInodeShardName shardId))))"

definition unlink_info :: "string \<Rightarrow> nat \<Rightarrow> (meta_state, unit) exec" where
  "unlink_info rel i =
     exec_bind (exec_gets (info i)) (\<lambda>m.
     exec_bind (exec_op (SearchAndUpdateInodeTableInfo rel (mi_parentId_partId m) (mi_name m)
       ((plain_request True)\<lparr>rq_nlink := True, rq_nlinkChangeNum := - 1\<rparr>))) (\<lambda>found.
     case found of
       None \<Rightarrow> exec_modify (set_code i FILE_NOT_EXISTS)
     | Some row \<Rightarrow> exec_modify (set_info i (\<lambda>m. m\<lparr>mi_inodeId := row_ino row, mi_st_size := row_size row,
         mi_node_id := row_primary_nodeid row,
         mi_errorCode := (if row_nlink row \<noteq> 1 \<or> \<not> S_ISREG (row_mode row) then PROGRAM_ERROR else SUCCESS)\<rparr>))))"

definition CuckooUnlinkHandle :: "meta_env \<Rightarrow> nat list \<Rightarrow> (meta_state, unit) exec" where
  "CuckooUnlinkHandle E =
     batch E VERIFY_PATH_VALIDITY_REQUIREMENT_MUST_BE_FILE 0 False (\<lambda>i. exec_return ())
       (\<lambda>shardId. each (unless_failed (unlink_info (GetInodeShardName shardId))))"

section \<open>Attributes\<close>

definition raise_unless_ok :: "CuckooErrorCode \<Rightarrow> ('s, unit) exec" where
  "raise_unless_ok code = (if code \<noteq> SUCCESS then exec_raise code else exec_return ())"

text \<open>The part the three handlers share; the name is only initialised when parsing succeeds.\<close>

definition change_attributes :: "meta_env \<Rightarrow> nat \<Rightarrow> inode_request \<Rightarrow> (meta_state, unit) exec" where
  "change_attributes E i rq =
     exec_bind (exec_gets (\<lambda>s. mi_path (info i s))) (\<lambda>path.
     exec_bind (parse_path E path PATH_PARSE_FLAG_ACQUIRE_SHARED_LOCK_IF_TARGET_IS_DIRECTORY None) (\<lambda>out.
     exec_bind (raise_unless_ok (pp_code out)) (\<lambda>_.
     case out_fileName out of
       None \<Rightarrow> (\<lambda>s. Faults)
     | Some fileName \<Rightarrow>
         let key = parent_key E (or_else (out_parentId out) 0) fileName in
         exec_bind (search_shard E key) (\<lambda>(shardId, workerId).
         exec_bind (local_server_id E) (\<lambda>serverId.
         if workerId \<noteq> serverId then exec_raise WRONG_WORKER
         else
           exec_bind (exec_op (SearchAndUpdateInodeTableInfo (GetInodeShardName shardId) key fileName rq)) (\<lambda>found.
           if found = None then exec_raise FILE_NOT_EXISTS else exec_modify (set_code i SUCCESS)))))))"

definition CuckooUtimeNsHandle :: "meta_env \<Rightarrow> nat \<Rightarrow> (meta_state, unit) exec" where
  "CuckooUtimeNsHandle E i =
     exec_bind (exec_gets (info i)) (\<lambda>m.
     exec_bind (if mi_st_atim m = - 1 \<or> mi_st_mtim m = - 1
                then exec_bind (GetCurrentTimestamp E) (\<lambda>atime.
                     exec_bind (GetCurrentTimestamp E) (\<lambda>mtime. exec_return (atime, mtime)))
                else exec_return (mi_st_atim m, mi_st_mtim m)) (\<lambda>(accessTime, modifyTime).
     change_attributes E i ((plain_request True)\<lparr>rq_newAtime := Some accessTime, rq_newMtime := Some modifyTime\<rparr>)))"

definition CuckooChownHandle :: "meta_env \<Rightarrow> nat \<Rightarrow> (meta_state, unit) exec" where
  "CuckooChownHandle E i =
     exec_bind (exec_gets (info i)) (\<lambda>m.
     change_attributes E i ((plain_request True)\<lparr>rq_newUid := Some (mi_st_uid m), rq_newGid := Some (mi_st_gid m)\<rparr>))"

definition CuckooChmodHandle :: "meta_env \<Rightarrow> nat \<Rightarrow> (meta_state, unit) exec" where
  "CuckooChmodHandle E i =
     exec_bind (exec_gets (info i)) (\<lambda>m.
     change_attributes E i ((plain_request True)\<lparr>rq_newExecMode := Some (mi_st_mode m AND 0x1FF)\<rparr>))"

section \<open>Rows\<close>

text \<open>Between commands every scan sees what has been written.\<close>

definition tables_settled :: "meta_state \<Rightarrow> bool" where
  "tables_settled s \<longleftrightarrow> CommandCounterIncrement s = s"

definition rows :: "string \<Rightarrow> meta_state \<Rightarrow> inode_key \<rightharpoonup> inode_row" where
  "rows rel s = (case m_inodes s rel of None \<Rightarrow> Map.empty | Some h \<Rightarrow> map_of (h_now h))"

lemma heap_next_idem [simp]: "heap_next_command (heap_next_command h) = heap_next_command h"
  by (simp add: heap_next_command_def)

lemma heap_next_sel [simp]: "h_now (heap_next_command h) = h_now h" "h_base (heap_next_command h) = h_base h"
  by (simp_all add: heap_next_command_def)

lemma same_table [simp]: "m_inodes s rel = Some h \<Longrightarrow> s\<lparr>m_inodes := (m_inodes s)(rel \<mapsto> h)\<rparr> = s"
  by (cases s) (auto simp: fun_upd_idem)

lemma next_command_is_settled [simp]: "tables_settled (CommandCounterIncrement s)"
  by (cases "m_remote s") (auto simp: tables_settled_def CommandCounterIncrement_def option.map_comp comp_def)

lemma settled_heap:
  assumes "tables_settled s" "m_inodes s rel = Some h"
  shows "h_seen h = h_now h" "h_touched h = []"
proof -
  have "m_inodes (CommandCounterIncrement s) rel = Some h" using assms by (simp add: tables_settled_def)
  then have "heap_next_command h = h" using assms(2) by (simp add: CommandCounterIncrement_def)
  then have "h_seen (heap_next_command h) = h_seen h" "h_touched (heap_next_command h) = h_touched h" by simp_all
  then show "h_seen h = h_now h" "h_touched h = []" by (simp_all add: heap_next_command_def)
qed

lemma settled_infos [simp]: "tables_settled (s\<lparr>m_infos := ms\<rparr>) \<longleftrightarrow> tables_settled s"
  by (cases s) (auto simp: tables_settled_def CommandCounterIncrement_def)

lemma next_command_sel [simp]:
  "m_infos (CommandCounterIncrement s) = m_infos s" "m_root (CommandCounterIncrement s) = m_root s"
  "m_shards (CommandCounterIncrement s) = m_shards s" "m_seq (CommandCounterIncrement s) = m_seq s"
  "m_draws (CommandCounterIncrement s) = m_draws s" "m_ticks (CommandCounterIncrement s) = m_ticks s"
  "rows rel (CommandCounterIncrement s) = rows rel s"
  "m_inodes (CommandCounterIncrement s) rel = map_option heap_next_command (m_inodes s rel)"
  by (auto simp: CommandCounterIncrement_def rows_def heap_next_command_def split: option.splits)

lemma next_command_infos [simp]: "CommandCounterIncrement (s\<lparr>m_infos := ms\<rparr>) = (CommandCounterIncrement s)\<lparr>m_infos := ms\<rparr>"
  by (simp add: CommandCounterIncrement_def)

lemma rows_infos [simp]: "rows rel (s\<lparr>m_infos := ms\<rparr>) = rows rel s"
  by (simp add: rows_def)

text \<open>The state after a row has been put in place.\<close>

definition with_heap :: "string \<Rightarrow> ((inode_key, inode_row) heap \<Rightarrow> (inode_key, inode_row) heap) \<Rightarrow> meta_state \<Rightarrow> meta_state" where
  "with_heap rel f s = CommandCounterIncrement (s\<lparr>m_inodes := (m_inodes s)(rel := map_option f (m_inodes s rel))\<rparr>)"

lemma with_heap_sel [simp]:
  "m_infos (with_heap rel f s) = m_infos s" "m_root (with_heap rel f s) = m_root s" "m_shards (with_heap rel f s) = m_shards s"
  "m_seq (with_heap rel f s) = m_seq s" "m_draws (with_heap rel f s) = m_draws s" "m_ticks (with_heap rel f s) = m_ticks s"
  "tables_settled (with_heap rel f s)" "with_heap rel f (s\<lparr>m_infos := ms\<rparr>) = (with_heap rel f s)\<lparr>m_infos := ms\<rparr>"
  "m_inodes (with_heap rel f s) rel' = map_option heap_next_command (if rel' = rel then map_option f (m_inodes s rel) else m_inodes s rel')"
  by (simp_all add: with_heap_def CommandCounterIncrement_def tables_settled_def option.map_comp comp_def fun_eq_iff)

lemma rows_with_heap:
  "rows rel' (with_heap rel f s) = (if rel' = rel then (case m_inodes s rel of None \<Rightarrow> Map.empty | Some h \<Rightarrow> map_of (h_now (f h)))
     else rows rel' s)"
  by (auto simp: rows_def split: option.splits)

text \<open>Only tables differ.\<close>

definition rows_only :: "meta_state \<Rightarrow> meta_state \<Rightarrow> bool" where
  "rows_only s s' \<longleftrightarrow> (\<exists>t u f. s' = s\<lparr>m_dirs := (m_dirs s)\<lparr>directory_table := t\<rparr>,
     m_remote := (m_remote s)\<lparr>distributed_transaction := u\<rparr>, m_inodes := f\<rparr>)"

lemma rows_only_refl [simp]: "rows_only s s"
  unfolding rows_only_def
  by (intro exI [of _ "directory_table (m_dirs s)"] exI [of _ "distributed_transaction (m_remote s)"] exI [of _ "m_inodes s"]) simp

lemma rows_only_with_heap [simp]: "rows_only s (with_heap rel f s)"
  unfolding rows_only_def with_heap_def CommandCounterIncrement_def by (intro exI) simp

lemma rows_onlyD:
  assumes "rows_only s s'"
  shows "m_infos s' = m_infos s" "m_root s' = m_root s" "m_shards s' = m_shards s" "m_ticks s' = m_ticks s"
    "m_seq s' = m_seq s" "m_draws s' = m_draws s" "rc_servers (m_remote s') = rc_servers (m_remote s)"
  using assms by (auto simp: rows_only_def)

lemma fetch_settled:
  "tables_settled s \<Longrightarrow> m_inodes s rel \<noteq> None
     \<Longrightarrow> on_table rel (\<lambda>h. (Inr (heap_fetch h k), h)) s = (Inr (rows rel s k), s)"
  by (auto simp: on_table_def heap_fetch_def rows_def settled_heap(1))

lemma Insert_settled:
  assumes "m_inodes s rel \<noteq> None"
  shows "InsertIntoInodeTable rel p n row s =
     (if rows rel s (p, n) = None then (Inr (), with_heap rel (\<lambda>h. h\<lparr>h_now := h_now h @ [((p, n), row)]\<rparr>) s)
      else (Inl UNKNOWN, s))"
  using assms by (auto simp: InsertIntoInodeTable_def on_table_def heap_insert_def rows_def op_bind_def next_command_def with_heap_def)

lemma rows_insert:
  "m_inodes s rel \<noteq> None \<Longrightarrow> rows rel s k = None
     \<Longrightarrow> rows rel (with_heap rel (\<lambda>h. h\<lparr>h_now := h_now h @ [(k, row)]\<rparr>) s) = (rows rel s)(k \<mapsto> row)"
  by (auto simp: rows_with_heap rows_def map_add_def fun_eq_iff split: option.splits)

text \<open>Reading and updating a row: the row as it was, and what becomes of it.\<close>

definition changed_row :: "inode_request \<Rightarrow> inode_row \<Rightarrow> inode_row option" where
  "changed_row rq row =
     (if \<not> rq_doUpdate rq then Some row else if removes_row rq row then None else Some (updated_row rq row))"

lemma unneeded_update: "\<not> needCatalogTupleUpdate rq row \<Longrightarrow> \<not> removes_row rq row \<Longrightarrow> updated_row rq row = row"
  by (cases row) (auto simp: needCatalogTupleUpdate_def removes_row_def updated_row_def)

lemma SearchAndUpdate_settled:
  assumes "tables_settled s" "m_inodes s rel \<noteq> None"
  obtains (absent) "rows rel s (p, n) = None" "SearchAndUpdateInodeTableInfo rel p n rq s = (Inr None, s)"
  | (twice) row where "rows rel s (p, n) = Some row" "rq_doUpdate rq" "removes_row rq row" "needCatalogTupleUpdate rq row"
  | (found) row s' where "rows rel s (p, n) = Some row" "SearchAndUpdateInodeTableInfo rel p n rq s = (Inr (Some row), s')"
      "rows rel s' = (rows rel s)((p, n) := changed_row rq row)" "tables_settled s'" "\<And>r. r \<noteq> rel \<Longrightarrow> rows r s' = rows r s"
      "rows_only s s'" "\<And>r. m_inodes s' r = None \<longleftrightarrow> m_inodes s r = None"
proof -
  obtain h where h: "m_inodes s rel = Some h" using assms(2) by blast
  note seen = settled_heap [OF assms(1) h]
  show thesis
  proof (cases "rows rel s (p, n)")
    case None
    then show thesis using absent assms fetch_settled by (simp add: SearchAndUpdateInodeTableInfo_def op_bind_def)
  next
    case (Some row)
    have fetch: "op_bind (on_table rel (\<lambda>h. (Inr (heap_fetch h (p, n)), h))) f s = f (Some row) s" for f :: "inode_row option \<Rightarrow> (meta_state, 'a) op"
      using fetch_settled [OF assms] Some by (simp add: op_bind_def)
    consider "rq_doUpdate rq" "removes_row rq row" "needCatalogTupleUpdate rq row"
      | (read) "\<not> rq_doUpdate rq \<or> \<not> removes_row rq row \<and> \<not> needCatalogTupleUpdate rq row"
      | (remove) "rq_doUpdate rq" "removes_row rq row" "\<not> needCatalogTupleUpdate rq row"
      | (update) "rq_doUpdate rq" "\<not> removes_row rq row" "needCatalogTupleUpdate rq row" by blast
    then show thesis
    proof cases
      case 1
      then show thesis using twice Some by blast
    next
      case read
      then have "SearchAndUpdateInodeTableInfo rel p n rq s = (Inr (Some row), s)" "changed_row rq row = Some row"
        unfolding SearchAndUpdateInodeTableInfo_def fetch using unneeded_update by (auto simp: op_bind_def changed_row_def)
      note r = this
      show thesis by (rule found [OF Some r(1)]) (use assms Some r(2) in \<open>auto simp: fun_upd_idem\<close>)
    next
      case remove
      let ?s = "with_heap rel (\<lambda>h. h\<lparr>h_now := filter (\<lambda>r. fst r \<noteq> (p, n)) (h_now h), h_touched := (p, n) # h_touched h\<rparr>) s"
      have "SearchAndUpdateInodeTableInfo rel p n rq s = (Inr (Some row), ?s)"
        unfolding SearchAndUpdateInodeTableInfo_def fetch
        using remove seen h by (simp add: op_bind_def on_table_def heap_delete_def next_command_def with_heap_def)
      then show thesis
      proof (rule found [OF Some])
        show "rows rel ?s = (rows rel s)((p, n) := changed_row rq row)"
          using remove h Some by (simp add: rows_with_heap rows_def changed_row_def)
      qed (use h in \<open>simp_all add: rows_with_heap\<close>)
    next
      case update
      let ?s = "with_heap rel (\<lambda>h. h\<lparr>h_now := map (\<lambda>r. if fst r = (p, n) then ((p, n), updated_row rq row) else r) (h_now h),
          h_touched := (p, n) # h_touched h\<rparr>) s"
      have "SearchAndUpdateInodeTableInfo rel p n rq s = (Inr (Some row), ?s)"
        unfolding SearchAndUpdateInodeTableInfo_def fetch
        using update seen h by (simp add: op_bind_def on_table_def heap_update_def next_command_def with_heap_def)
      then show thesis
      proof (rule found [OF Some])
        show "rows rel ?s = (rows rel s)((p, n) := changed_row rq row)"
          using update h Some by (simp add: rows_with_heap rows_def changed_row_def)
      qed (use h in \<open>simp_all add: rows_with_heap\<close>)
    qed
  qed
qed

lemma set_info_sel [simp]:
  "m_inodes (set_info i f s) = m_inodes s" "rows rel (set_info i f s) = rows rel s" "tables_settled (set_info i f s) = tables_settled s"
  "length (m_infos (set_info i f s)) = length (m_infos s)" "m_dirs (set_info i f s) = m_dirs s"
  "m_remote (set_info i f s) = m_remote s" "m_shards (set_info i f s) = m_shards s" "m_root (set_info i f s) = m_root s"
  "i < length (m_infos s) \<Longrightarrow> info i (set_info i f s) = f (info i s)"
  "i \<noteq> j \<Longrightarrow> info j (set_info i f s) = info j s"
  by (simp_all add: set_info_def info_def)

section \<open>Resolved requests\<close>

lemma settled_iff:
  "tables_settled s \<longleftrightarrow> heap_next_command (directory_table (m_dirs s)) = directory_table (m_dirs s)
     \<and> heap_next_command (distributed_transaction (m_remote s)) = distributed_transaction (m_remote s)
     \<and> (\<lambda>rel. map_option heap_next_command (m_inodes s rel)) = m_inodes s"
  by (cases s; cases "m_dirs s"; cases "m_remote s") (auto simp: tables_settled_def CommandCounterIncrement_def)

lemma untouched_tables:
  assumes "untouched E J s s'" "scan_complete (me_dir E)" "dir_wf (me_dir E) (m_dirs s)"
  shows "tables_settled s' \<longleftrightarrow> tables_settled s" "rows rel s' = rows rel s" "m_inodes s' = m_inodes s" "dir_wf (me_dir E) (m_dirs s')"
  using assms by (simp_all add: untouched_def settled_iff rows_def)

definition members :: "(int \<times> nat list) list \<Rightarrow> nat list" where
  "members groups = concat (map snd groups)"

lemma members_simps [simp]: "members [] = []" "members (g # gs) = snd g @ members gs"
  by (simp_all add: members_def)

lemma members_update:
  "map_of groups k = Some is \<Longrightarrow> distinct (map fst groups)
     \<Longrightarrow> mset (members (AList.update k (is @ [i]) groups)) = mset (members groups) + {#i#}"
proof (induction groups)
  case (Cons g gs)
  show ?case
  proof (cases "fst g = k")
    case True
    then show ?thesis using Cons.prems by (cases g) simp
  next
    case False
    then show ?thesis using Cons by (cases g) simp
  qed
qed simp

lemma group_add_members:
  assumes "distinct (map fst groups)"
  shows "mset (members (group_add k i groups)) = mset (members groups) + {#i#}" "distinct (map fst (group_add k i groups))"
proof -
  have "members (groups @ [(k, [i])]) = members groups @ [i]" by (simp add: members_def)
  then show "mset (members (group_add k i groups)) = mset (members groups) + {#i#}"
    using members_update assms by (auto simp: group_add_def split: option.splits)
  show "distinct (map fst (group_add k i groups))"
    using assms by (auto simp: group_add_def map_of_eq_None_iff distinct_update split: option.splits)
qed

text \<open>Preparing a request changes only it, and not its result.\<close>

definition prepares :: "meta_env \<Rightarrow> (nat \<Rightarrow> (meta_state, unit) exec) \<Rightarrow> bool" where
  "prepares E prepare \<longleftrightarrow> (\<forall>i. exec_keeps (untouched E {i}) (prepare i)
     \<and> exec_keeps (\<lambda>s s'. mi_errorCode (info i s') = mi_errorCode (info i s)) (prepare i))"

lemma prepares_nothing [simp]: "prepares E (\<lambda>i. exec_return ())"
  by (simp add: prepares_def exec_keeps_def untouched_def)

lemma locate_untouched: "prepares E prepare \<Longrightarrow> exec_keeps (untouched E {i}) (locate_info E flag w prepare i)"
  unfolding locate_info_def prepares_def
  by (auto intro!: resolve_untouched split: prod.splits if_splits)

lemma set_info_code:
  "(\<And>m. mi_errorCode (f m) = mi_errorCode m) \<Longrightarrow> mi_errorCode (info i (set_info i f s)) = mi_errorCode (info i s)"
  by (cases "i < length (m_infos s)") (simp_all add: info_def set_info_def list_update_beyond)

lemma locate_code:
  assumes run: "locate_info E flag w prepare i s = Returns (Inr found, s')" and prep: "prepares E prepare"
    and i: "i < length (m_infos s)" "mi_errorCode (info i s) = SUCCESS"
  shows "found = None \<longleftrightarrow> mi_errorCode (info i s') \<noteq> SUCCESS"
proof -
  from run obtain out s1 where p: "parse_path E (mi_path (info i s)) flag (if w then Some (mi_inodeId (info i s)) else None) s = Returns (Inr out, s1)"
    unfolding locate_info_def exec_bind_run by (rule exec_bind_Inr)
  define s2 where "s2 = set_info i (take_out out) s1"
  have u1: "untouched E {} s s1" using exec_keepsD [OF parse_untouched p] .
  then have c2: "mi_errorCode (info i s2) = SUCCESS" "length (m_infos s2) = length (m_infos s)"
    using i by (simp_all add: s2_def set_info_code take_out_def untouched_def)
  show ?thesis
  proof (cases "pp_code out = SUCCESS")
    case False
    then have "found = None" "s' = set_code i (pp_code out) s2"
      using run p by (simp_all add: locate_info_def exec_bind_run s2_def)
    then show ?thesis using False i c2(2) by (simp add: set_code_def info_def set_info_def)
  next
    case True
    define s3 where "s3 = set_info i (\<lambda>m. m\<lparr>mi_parentId_partId := parent_key E (mi_parentId m) (mi_name m)\<rparr>) s2"
    have "exec_bind (prepare i) (\<lambda>_.
       exec_bind (exec_gets (\<lambda>s. mi_parentId_partId (info i s))) (\<lambda>key.
       exec_bind (search_shard E key) (\<lambda>(shardId, workerId).
       exec_bind (local_server_id E) (\<lambda>serverId.
       if workerId \<noteq> serverId then exec_bind (exec_modify (set_code i WRONG_WORKER)) (\<lambda>_. exec_return None)
       else exec_return (Some shardId))))) s3 = Returns (Inr found, s')"
      using run p True by (simp add: locate_info_def exec_bind_run s2_def s3_def)
    then obtain u s4 where p4: "prepare i s3 = Returns (Inr u, s4)" and
      "exec_bind (search_shard E (mi_parentId_partId (info i s4))) (\<lambda>(shardId, workerId).
       exec_bind (local_server_id E) (\<lambda>serverId.
       if workerId \<noteq> serverId then exec_bind (exec_modify (set_code i WRONG_WORKER)) (\<lambda>_. exec_return None)
       else exec_return (Some shardId))) s4 = Returns (Inr found, s')"
      by (rule exec_bind_Inr) (simp add: exec_bind_run)
    then obtain sw s5 where p5: "search_shard E (mi_parentId_partId (info i s4)) s4 = Returns (Inr sw, s5)" and
      "exec_bind (local_server_id E) (\<lambda>serverId.
       if snd sw \<noteq> serverId then exec_bind (exec_modify (set_code i WRONG_WORKER)) (\<lambda>_. exec_return None)
       else exec_return (Some (fst sw))) s5 = Returns (Inr found, s')"
      by (elim exec_bind_Inr) (auto simp: case_prod_beta)
    then obtain sid s6 where p6: "local_server_id E s5 = Returns (Inr sid, s6)" and last:
      "(if snd sw \<noteq> sid then exec_bind (exec_modify (set_code i WRONG_WORKER)) (\<lambda>_. exec_return None)
       else exec_return (Some (fst sw))) s6 = Returns (Inr found, s')"
      by (elim exec_bind_Inr) auto
    have "mi_errorCode (info i s3) = SUCCESS" using c2 by (simp add: s3_def set_info_code)
    moreover have "length (m_infos s3) = length (m_infos s)" using c2 by (simp add: s3_def)
    moreover have "untouched E {i} s3 s4" "mi_errorCode (info i s4) = mi_errorCode (info i s3)"
      using prep p4 unfolding prepares_def by (blast dest: exec_keepsD)+
    moreover have "untouched E {} s4 s5" "untouched E {} s5 s6"
      using exec_keepsD [OF search_shard_untouched p5] exec_keepsD [OF local_id_untouched p6] by auto
    ultimately have "mi_errorCode (info i s6) = SUCCESS" "i < length (m_infos s6)" using i by (simp_all add: untouched_def)
    then show ?thesis using last by (auto simp: set_code_def exec_bind_run split: if_splits)
  qed
qed

abbreviation ok_in :: "meta_state \<Rightarrow> nat \<Rightarrow> bool" where
  "ok_in s i \<equiv> mi_errorCode (info i s) = SUCCESS"

text \<open>Every request ends up in one group or has an error.\<close>

lemma group_infos_outcome:
  assumes prep: "prepares E prepare"
  shows "group_infos E flag w prepare is groups s = Returns (Inr groups', s') \<Longrightarrow> distinct is \<Longrightarrow> set is \<subseteq> {..<length (m_infos s)}
     \<Longrightarrow> distinct (map fst groups) \<Longrightarrow>
     untouched E (set is) s s' \<and> mset (members groups') = mset (members groups) + mset (filter (ok_in s') is) \<and> distinct (map fst groups')"
proof (induction "is" arbitrary: groups s)
  case Nil
  then show ?case by simp
next
  case (Cons i "is")
  show ?case
  proof (cases "ok_in s i")
    case False
    then have "untouched E (set is) s s' \<and> mset (members groups') = mset (members groups) + mset (filter (ok_in s') is) \<and> distinct (map fst groups')"
      using Cons by (simp add: exec_bind_run)
    moreover from this have "info i s' = info i s" using Cons.prems(2) by (simp add: untouched_def)
    ultimately show ?thesis using False by (auto intro: untouched_mono)
  next
    case True
    then obtain found s1 where l: "locate_info E flag w prepare i s = Returns (Inr found, s1)" and
      g: "group_infos E flag w prepare is (case found of None \<Rightarrow> groups | Some shardId \<Rightarrow> group_add shardId i groups) s1 = Returns (Inr groups', s')"
      using Cons.prems(1) by (auto simp: exec_bind_run elim: exec_bind_Inr)
    let ?groups = "case found of None \<Rightarrow> groups | Some shardId \<Rightarrow> group_add shardId i groups"
    have u: "untouched E {i} s s1" using exec_keepsD [OF locate_untouched [OF prep] l] .
    have "distinct (map fst ?groups)" using Cons.prems(4) group_add_members by (auto split: option.splits)
    then have r: "untouched E (set is) s1 s'" "mset (members groups') = mset (members ?groups) + mset (filter (ok_in s') is)"
      "distinct (map fst groups')" using Cons.IH [OF g] Cons.prems u by (auto simp: untouched_def)
    have "info i s' = info i s1" using r(1) Cons.prems(2) by (simp add: untouched_def)
    then have "found = None \<longleftrightarrow> \<not> ok_in s' i" using locate_code [OF l prep] Cons.prems(3) True by simp
    moreover have "untouched E (insert i (set is)) s s'"
      using kept.chain untouched_mono [OF u, of "insert i (set is)"] untouched_mono [OF r(1), of "insert i (set is)"] by blast
    ultimately show ?thesis using r(2,3) group_add_members [OF Cons.prems(4)] by (auto split: option.splits)
  qed
qed

text \<open>What is assumed of sorting and of enumerating a hash table: nothing is lost or doubled.\<close>

definition env_ok :: "meta_env \<Rightarrow> bool" where
  "env_ok E \<longleftrightarrow> (\<forall>f xs. mset (me_qsort E f xs) = mset xs) \<and> (\<forall>gs. mset (me_group_seq E gs) = mset gs) \<and> scan_complete (me_dir E)"

lemma verify_untouched: "set is \<subseteq> J \<Longrightarrow> untouched E J s (verify_infos requirement is s)"
proof (induction "is" arbitrary: s)
  case (Cons i "is")
  let ?s = "set_code i (fst (VerifyPathValidity (Some (mi_path (info i s))) requirement)) s"
  have "untouched E J s ?s" by (rule exec_keepsD [OF set_code_untouched [of i]]) (use Cons.prems in auto)
  then show ?case using kept.chain Cons.IH [of ?s] Cons.prems by (auto simp: verify_infos_def)
qed (simp add: verify_infos_def)

lemma resolve_batch_outcome:
  assumes "resolve_batch E requirement flag w prepare infoArray s = Returns (Inr groups, s1)" "prepares E prepare" "env_ok E"
    and "distinct infoArray" "set infoArray \<subseteq> {..<length (m_infos s)}"
  shows "untouched E (set infoArray) s s1" "mset (members groups) = mset (filter (ok_in s1) infoArray)" "distinct (map fst groups)"
proof -
  let ?v = "verify_infos requirement infoArray s"
  let ?is = "sorted_infos E infoArray ?v"
  have perm: "mset ?is = mset infoArray" using assms(3) by (simp add: env_ok_def sorted_infos_def)
  then have set: "set ?is = set infoArray" "distinct ?is" using assms(4) mset_eq_setD mset_eq_imp_distinct_iff by blast+
  have v: "untouched E (set infoArray) s ?v" by (rule verify_untouched) simp
  obtain n s2 where z: "on_shards GetShardTableSize ?v = Returns (Inr n, s2)" and
    g: "group_infos E flag w prepare ?is [] s2 = Returns (Inr groups, s1)"
    using assms(1) unfolding resolve_batch_def exec_bind_run by (rule exec_bind_Inr)
  have u2: "untouched E (set infoArray) ?v s2" using exec_keepsD [OF shards_untouched z] .
  have len: "length (m_infos s2) = length (m_infos s)" using v u2 by (simp add: untouched_def)
  have r: "untouched E (set ?is) s2 s1" "mset (members groups) = mset (members []) + mset (filter (ok_in s1) ?is)" "distinct (map fst groups)"
    using group_infos_outcome [OF assms(2) g set(2)] assms(5) set(1) len by simp_all
  then show "untouched E (set infoArray) s s1" using kept.chain [OF kept.chain [OF v u2]] set(1) by simp
  have "mset (filter (ok_in s1) ?is) = filter_mset (ok_in s1) (mset infoArray)" by (simp add: perm mset_filter)
  then show "mset (members groups) = mset (filter (ok_in s1) infoArray)" using r(2) by (simp add: mset_filter)
  show "distinct (map fst groups)" by (rule r(3))
qed

text \<open>The groups as the hash table enumerates them.\<close>

lemma resolved_groups:
  assumes E: "env_ok E" and s: "tables_settled s" "dir_wf (me_dir E) (m_dirs s)"
    and a: "distinct infoArray" "set infoArray \<subseteq> {..<length (m_infos s)}"
    and run: "resolve_batch E requirement flag w prepare infoArray s = Returns (Inr groups, s1)" and prep: "prepares E prepare"
  shows "set (me_group_seq E groups) = set groups" "distinct (members (me_group_seq E groups))"
    "set (members (me_group_seq E groups)) = {i \<in> set infoArray. ok_in s1 i}"
    "tables_settled s1" "rows rel s1 = rows rel s" "m_inodes s1 = m_inodes s" "length (m_infos s1) = length (m_infos s)"
proof -
  note out = resolve_batch_outcome [OF run prep E a]
  have scan: "scan_complete (me_dir E)" using E by (simp add: env_ok_def)
  have perm: "mset (me_group_seq E groups) = mset groups" using E by (simp add: env_ok_def)
  then show "set (me_group_seq E groups) = set groups" using mset_eq_setD by blast
  have "mset (members (me_group_seq E groups)) = mset (members groups)"
    using perm by (simp add: members_def) (metis mset_map sum_mset_sum_list mset_concat)
  then have mem: "mset (members (me_group_seq E groups)) = mset (filter (ok_in s1) infoArray)" using out(2) by simp
  then show "distinct (members (me_group_seq E groups))" "set (members (me_group_seq E groups)) = {i \<in> set infoArray. ok_in s1 i}"
    using a(1) mset_eq_imp_distinct_iff [OF mem] mset_eq_setD [OF mem] by auto
  show "tables_settled s1" "rows rel s1 = rows rel s" "m_inodes s1 = m_inodes s"
    using untouched_tables [OF out(1) scan s(2)] s(1) by simp_all
  show "length (m_infos s1) = length (m_infos s)" using out(1) by (simp add: untouched_def)
qed

text \<open>The groups as a list of tables and requests.\<close>

definition group_pairs :: "(int \<times> nat list) list \<Rightarrow> (string \<times> nat) list" where
  "group_pairs gs = concat (map (\<lambda>(shardId, is). map (Pair (GetInodeShardName shardId)) is) gs)"

lemma group_pairs_simps [simp]:
  "group_pairs [] = []" "group_pairs ((shardId, is) # gs) = map (Pair (GetInodeShardName shardId)) is @ group_pairs gs"
  by (simp_all add: group_pairs_def)

lemma group_pairs_members [simp]: "map snd (group_pairs gs) = members gs"
  by (induction gs) (auto simp: comp_def)

lemma group_pairs_snd [simp]: "snd ` set (group_pairs gs) = set (members gs)"
  using group_pairs_members by (metis set_map)

lemma group_pairs_set:
  "set (group_pairs gs) = {(GetInodeShardName shardId, i) | shardId is i. (shardId, is) \<in> set gs \<and> i \<in> set is}"
  by (auto simp: group_pairs_def)

lemma each_append: "each f (xs @ ys) s = exec_bind (each f xs) (\<lambda>_. each f ys) s"
proof (induction xs arbitrary: s)
  case (Cons x xs)
  then show ?case by (simp add: exec_bind_def split: run.splits sum.splits prod.splits)
qed (simp add: exec_bind_run)

lemma each_map: "each f (map g xs) = each (\<lambda>x. f (g x)) xs"
  by (induction xs) simp_all

lemma each_pairs:
  "each (\<lambda>(shardId, is). each (f (GetInodeShardName shardId)) is) gs s = each (\<lambda>(rel, i). f rel i) (group_pairs gs) s"
proof (induction gs arbitrary: s)
  case (Cons g gs)
  then show ?case by (cases g) (simp add: each_append each_map exec_bind_def split: run.splits sum.splits prod.splits)
qed simp

text \<open>The requests of the groups, ready to be handled.\<close>

lemma resolved_pairs:
  assumes "env_ok E" "tables_settled s" "dir_wf (me_dir E) (m_dirs s)" "distinct infoArray" "set infoArray \<subseteq> {..<length (m_infos s)}"
    and "resolve_batch E requirement flag w prepare infoArray s = Returns (Inr groups, s1)" "prepares E prepare"
    and "\<forall>g \<in> set groups. m_inodes s (GetInodeShardName (fst g)) \<noteq> None"
  shows "\<forall>(rel, i) \<in> set (group_pairs (me_group_seq E groups)). m_inodes s1 rel \<noteq> None \<and> i < length (m_infos s1) \<and> ok_in s1 i"
    "(shardId, is) \<in> set groups \<Longrightarrow> i \<in> set is \<Longrightarrow> (GetInodeShardName shardId, i) \<in> set (group_pairs (me_group_seq E groups))"
    "i \<in> set infoArray \<Longrightarrow> \<forall>g \<in> set groups. i \<notin> set (snd g) \<Longrightarrow> i \<notin> set (members (me_group_seq E groups)) \<and> \<not> ok_in s1 i"
proof -
  note r = resolved_groups [OF assms(1-7)]
  let ?gs = "me_group_seq E groups"
  have one: "m_inodes s1 rel \<noteq> None" "i < length (m_infos s1)" "ok_in s1 i" if p: "(rel, i) \<in> set (group_pairs ?gs)" for rel i
  proof -
    show "m_inodes s1 rel \<noteq> None" using p assms(8) r(1,6) by (auto simp: group_pairs_set)
    have "snd (rel, i) \<in> snd ` set (group_pairs ?gs)" by (rule imageI [OF p])
    then have "i \<in> set (members ?gs)" by simp
    then show "i < length (m_infos s1)" "ok_in s1 i" using r(3,7) assms(5) by auto
  qed
  then show "\<forall>(rel, i) \<in> set (group_pairs ?gs). m_inodes s1 rel \<noteq> None \<and> i < length (m_infos s1) \<and> ok_in s1 i" by blast
  show "(shardId, is) \<in> set groups \<Longrightarrow> i \<in> set is \<Longrightarrow> (GetInodeShardName shardId, i) \<in> set (group_pairs ?gs)"
    using r(1) by (auto simp: group_pairs_set)
  show "i \<in> set infoArray \<Longrightarrow> \<forall>g \<in> set groups. i \<notin> set (snd g) \<Longrightarrow> i \<notin> set (members ?gs) \<and> \<not> ok_in s1 i"
    using r(1,3) by (auto simp: members_def)
qed

end
