(* ===== verification/Meta_Codec.thy ===== *)
theory Meta_Codec
  imports Meta_State
begin

text \<open>
  \<^verbatim>\<open>cuckoo/metadb/meta_serialize_interface_helper.cpp\<close>: requests and responses as items of serialized
  data, each a flat buffer.
\<close>

section \<open>Kinds of requests\<close>

text \<open>The numbers of \<^verbatim>\<open>MetaServiceType\<close> in \<^verbatim>\<open>cuckoo_meta_rpc.proto\<close>.\<close>

definition MetaServiceTypeEncode :: "CuckooSupportMetaService \<Rightarrow> int" where
  "MetaServiceTypeEncode service =
     (case service of
        MKDIR \<Rightarrow> 1 | MKDIR_SUB_MKDIR \<Rightarrow> 2 | MKDIR_SUB_CREATE \<Rightarrow> 3 | CREATE \<Rightarrow> 4 | STAT \<Rightarrow> 5 | OPEN \<Rightarrow> 6 | CLOSE \<Rightarrow> 7
      | UNLINK \<Rightarrow> 8 | READDIR \<Rightarrow> 9 | OPENDIR \<Rightarrow> 10 | RMDIR \<Rightarrow> 11 | RMDIR_SUB_RMDIR \<Rightarrow> 12 | RMDIR_SUB_UNLINK \<Rightarrow> 13
      | RENAME \<Rightarrow> 14 | RENAME_SUB_RENAME_LOCALLY \<Rightarrow> 15 | RENAME_SUB_CREATE \<Rightarrow> 16 | UTIMENS \<Rightarrow> 17 | CHOWN \<Rightarrow> 18
      | CHMOD \<Rightarrow> 19 | _ \<Rightarrow> - 1)"

definition MetaServiceTypeDecode :: "int \<Rightarrow> CuckooSupportMetaService" where
  "MetaServiceTypeDecode type =
     (if type = 1 then MKDIR else if type = 2 then MKDIR_SUB_MKDIR else if type = 3 then MKDIR_SUB_CREATE
      else if type = 4 then CREATE else if type = 5 then STAT else if type = 6 then OPEN else if type = 7 then CLOSE
      else if type = 8 then UNLINK else if type = 9 then READDIR else if type = 10 then OPENDIR
      else if type = 11 then RMDIR else if type = 12 then RMDIR_SUB_RMDIR else if type = 13 then RMDIR_SUB_UNLINK
      else if type = 14 then RENAME else if type = 15 then RENAME_SUB_RENAME_LOCALLY
      else if type = 16 then RENAME_SUB_CREATE else if type = 17 then UTIMENS else if type = 18 then CHOWN
      else if type = 19 then CHMOD else NOT_SUPPORTED)"

section \<open>Requests\<close>

text \<open>\<^verbatim>\<open>->c_str()\<close> of a string that is not there is a read through a null pointer.\<close>

definition c_str :: "string option \<Rightarrow> (string \<Rightarrow> 'a) \<Rightarrow> 'a run" where
  "c_str str f = (case str of None \<Rightarrow> Faults | Some t \<Rightarrow> Returns (f t))"

definition path_only :: "CuckooSupportMetaService \<Rightarrow> bool" where
  "path_only service \<longleftrightarrow> service \<in> {MKDIR, CREATE, STAT, OPEN, UNLINK, OPENDIR, RMDIR}"

text \<open>What a request takes from its message; \<open>None\<close> if the message is of another kind.\<close>

definition take_param :: "CuckooSupportMetaService \<Rightarrow> AnyMetaParam option \<Rightarrow> MetaProcessInfo \<Rightarrow> MetaProcessInfo option run" where
  "take_param service param mi =
     (case param of
        Some (PathOnlyParam path) \<Rightarrow>
          if path_only service then c_str path (\<lambda>path. Some (mi\<lparr>mi_path := path\<rparr>)) else Returns None
      | Some (MkdirSubMkdirParam parent_id name inode_id) \<Rightarrow>
          if service = MKDIR_SUB_MKDIR
          then c_str name (\<lambda>name. Some (mi\<lparr>mi_parentId := parent_id, mi_name := name, mi_inodeId := inode_id\<rparr>))
          else Returns None
      | Some (MkdirSubCreateParam parent_id_part_id name inode_id st_mode st_mtim st_size) \<Rightarrow>
          if service = MKDIR_SUB_CREATE
          then c_str name (\<lambda>name. Some (mi\<lparr>mi_parentId_partId := parent_id_part_id, mi_name := name, mi_inodeId := inode_id,
            mi_st_mode := st_mode, mi_st_size := st_size, mi_st_mtim := st_mtim\<rparr>))
          else Returns None
      | Some (CloseParam path st_size st_mtim node_id) \<Rightarrow>
          if service = CLOSE
          then c_str path (\<lambda>path. Some (mi\<lparr>mi_path := path, mi_st_size := st_size, mi_st_mtim := st_mtim, mi_node_id := node_id\<rparr>))
          else Returns None
      | Some (ReadDirParam path max_read_count last_shard_index last_file_name) \<Rightarrow>
          if service = READDIR
          then run_bind (c_str path (\<lambda>path. mi\<lparr>mi_path := path, mi_readDirMaxReadCount := max_read_count,
                 mi_readDirLastShardIndex := last_shard_index\<rparr>)) (\<lambda>mi.
               c_str last_file_name (\<lambda>t. Some (mi\<lparr>mi_readDirLastFileName := Some t\<rparr>)))
          else Returns None
      | Some (RmdirSubRmdirParam parent_id name) \<Rightarrow>
          if service = RMDIR_SUB_RMDIR
          then c_str name (\<lambda>name. Some (mi\<lparr>mi_parentId := parent_id, mi_name := name\<rparr>)) else Returns None
      | Some (RmdirSubUnlinkParam parent_id_part_id name) \<Rightarrow>
          if service = RMDIR_SUB_UNLINK
          then c_str name (\<lambda>name. Some (mi\<lparr>mi_parentId_partId := parent_id_part_id, mi_name := name\<rparr>)) else Returns None
      | Some (RenameParam src dst) \<Rightarrow>
          if service = RENAME
          then run_bind (c_str src (\<lambda>src. mi\<lparr>mi_path := src\<rparr>)) (\<lambda>mi. c_str dst (\<lambda>dst. Some (mi\<lparr>mi_dstPath := dst\<rparr>)))
          else Returns None
      | Some (RenameSubRenameLocallyParam src_parent_id src_parent_id_part_id src_name dst_parent_id dst_parent_id_part_id
            dst_name target_is_directory directory_inode_id src_lock_order) \<Rightarrow>
          if service = RENAME_SUB_RENAME_LOCALLY
          then run_bind (c_str src_name (\<lambda>src_name. mi\<lparr>mi_parentId := src_parent_id,
                 mi_parentId_partId := src_parent_id_part_id, mi_name := src_name\<rparr>)) (\<lambda>mi.
               c_str dst_name (\<lambda>dst_name. Some (mi\<lparr>mi_dstParentId := dst_parent_id, mi_dstParentIdPartId := dst_parent_id_part_id,
                 mi_dstName := dst_name, mi_targetIsDirectory := target_is_directory, mi_srcLockOrder := src_lock_order,
                 mi_inodeId := directory_inode_id\<rparr>)))
          else Returns None
      | Some (RenameSubCreateParam parentid_partid name st_ino st_dev st_mode st_nlink st_uid st_gid st_rdev st_size st_blksize
            st_blocks st_atim st_mtim st_ctim node_id) \<Rightarrow>
          if service = RENAME_SUB_CREATE
          then c_str name (\<lambda>name. Some (mi\<lparr>mi_parentId_partId := parentid_partid, mi_name := name, mi_inodeId := st_ino,
            mi_st_dev := st_dev, mi_st_mode := st_mode, mi_st_nlink := st_nlink, mi_st_uid := st_uid, mi_st_gid := st_gid,
            mi_st_rdev := st_rdev, mi_st_size := st_size, mi_st_blksize := st_blksize, mi_st_blocks := st_blocks,
            mi_st_atim := st_atim, mi_st_mtim := st_mtim, mi_st_ctim := st_ctim, mi_node_id := node_id\<rparr>))
          else Returns None
      | Some (UtimeNsParam path st_atim st_mtim) \<Rightarrow>
          if service = UTIMENS
          then c_str path (\<lambda>path. Some (mi\<lparr>mi_path := path, mi_st_atim := st_atim, mi_st_mtim := st_mtim\<rparr>)) else Returns None
      | Some (ChownParam path st_uid st_gid) \<Rightarrow>
          if service = CHOWN
          then c_str path (\<lambda>path. Some (mi\<lparr>mi_path := path, mi_st_uid := st_uid, mi_st_gid := st_gid\<rparr>)) else Returns None
      | Some (ChmodParam path st_mode) \<Rightarrow>
          if service = CHMOD
          then c_str path (\<lambda>path. Some (mi\<lparr>mi_path := path, mi_st_mode := ucast st_mode\<rparr>)) else Returns None
      | _ \<Rightarrow> Returns None)"

text \<open>One item at a position: its bytes and the position behind it, or \<open>None\<close> when the data is corrupt.\<close>

definition next_item :: "bool \<Rightarrow> SerializedData \<Rightarrow> u32 \<Rightarrow> (u8 list \<times> u32) option run" where
  "next_item little sd p =
     run_bind (SerializedDataNextSeveralItemSize little sd p 1) (\<lambda>size.
       if size = - 1 then Returns None
       else run_bind (sd_read sd (unat p + unat SERIALIZED_DATA_ALIGNMENT) (unat (size - SERIALIZED_DATA_ALIGNMENT)))
              (\<lambda>item. Returns (Some (item, p + size))))"

primrec param_decode_loop ::
    "fb_env \<Rightarrow> bool \<Rightarrow> CuckooSupportMetaService \<Rightarrow> SerializedData \<Rightarrow> u32 \<Rightarrow> MetaProcessInfo list \<Rightarrow> MetaProcessInfo list option run" where
  "param_decode_loop F little service param p [] = Returns (Some [])"
| "param_decode_loop F little service param p (mi # infos) =
     run_bind (next_item little param p) (\<lambda>next.
       case next of
         None \<Rightarrow> Returns None
       | Some (item, q) \<Rightarrow>
           (case fb_param_read F item of
              None \<Rightarrow> Returns None
            | Some metaParam \<Rightarrow>
                run_bind (take_param service metaParam mi) (\<lambda>taken.
                  case taken of
                    None \<Rightarrow> Returns None
                  | Some mi1 \<Rightarrow>
                      run_bind (param_decode_loop F little service param q infos) (\<lambda>rest.
                        Returns (map_option (Cons mi1) rest)))))"

text \<open>The memory of the requests holds \<open>infoArray\<close> before; \<open>None\<close> is the return value false.\<close>

definition SerializedDataMetaParamDecode ::
    "fb_env \<Rightarrow> bool \<Rightarrow> CuckooSupportMetaService \<Rightarrow> SerializedData \<Rightarrow> MetaProcessInfo list \<Rightarrow> MetaProcessInfo list option run" where
  "SerializedDataMetaParamDecode F little service param infoArray = param_decode_loop F little service param 0 infoArray"

definition param_of :: "CuckooSupportMetaService \<Rightarrow> MetaProcessInfo \<Rightarrow> AnyMetaParam option" where
  "param_of service mi =
     (case service of
        MKDIR_SUB_MKDIR \<Rightarrow> Some (MkdirSubMkdirParam (mi_parentId mi) (Some (mi_name mi)) (mi_inodeId mi))
      | MKDIR_SUB_CREATE \<Rightarrow> Some (MkdirSubCreateParam (mi_parentId_partId mi) (Some (mi_name mi)) (mi_inodeId mi)
          (mi_st_mode mi) (mi_st_mtim mi) (mi_st_size mi))
      | RMDIR_SUB_RMDIR \<Rightarrow> Some (RmdirSubRmdirParam (mi_parentId mi) (Some (mi_name mi)))
      | RMDIR_SUB_UNLINK \<Rightarrow> Some (RmdirSubUnlinkParam (mi_parentId_partId mi) (Some (mi_name mi)))
      | RENAME_SUB_RENAME_LOCALLY \<Rightarrow> Some (RenameSubRenameLocallyParam (mi_parentId mi) (mi_parentId_partId mi)
          (Some (mi_name mi)) (mi_dstParentId mi) (mi_dstParentIdPartId mi) (Some (mi_dstName mi))
          (mi_targetIsDirectory mi) (mi_inodeId mi) (mi_srcLockOrder mi))
      | RENAME_SUB_CREATE \<Rightarrow> Some (RenameSubCreateParam (mi_parentId_partId mi) (Some (mi_name mi)) (mi_inodeId mi)
          (mi_st_dev mi) (mi_st_mode mi) (mi_st_nlink mi) (mi_st_uid mi) (mi_st_gid mi) (mi_st_rdev mi)
          (mi_st_size mi) (mi_st_blksize mi) (mi_st_blocks mi) (mi_st_atim mi) (mi_st_mtim mi)
          (mi_st_ctim mi) (mi_node_id mi))
      | _ \<Rightarrow> None)"

text \<open>A finished flat buffer copied behind a new header; without memory the copy goes through a null pointer.\<close>

definition append_item :: "bool \<Rightarrow> u8 list \<Rightarrow> SerializedData \<Rightarrow> SerializedData run" where
  "append_item little bytes sd =
     run_bind (SerializedDataApplyForSegment little sd (word_of_nat (length bytes))) (\<lambda>(off, sd).
       case off of None \<Rightarrow> Faults | Some off \<Rightarrow> sd_write sd off bytes)"

primrec SerializedDataMetaParamEncode ::
    "fb_env \<Rightarrow> bool \<Rightarrow> CuckooSupportMetaService \<Rightarrow> MetaProcessInfo list \<Rightarrow> SerializedData \<Rightarrow> (bool \<times> SerializedData) run" where
  "SerializedDataMetaParamEncode F little service [] param = Returns (True, param)"
| "SerializedDataMetaParamEncode F little service (mi # infos) param =
     (case param_of service mi of
        None \<Rightarrow> Returns (False, param)
      | Some metaParam \<Rightarrow>
          run_bind (append_item little (fb_param_write F metaParam) param)
            (SerializedDataMetaParamEncode F little service infos))"

section \<open>Responses\<close>

definition code_of_number :: "u32 \<Rightarrow> CuckooErrorCode" where
  "code_of_number n = (if unat n < length CUCKOO_ERROR_CODE_LIST then CUCKOO_ERROR_CODE_LIST ! unat n else LAST_CUCKOO_ERROR_CODE)"

definition stat_of :: "MetaProcessInfo \<Rightarrow> fb_stat" where
  "stat_of mi = \<lparr>fb_ino = mi_inodeId mi, fb_dev = mi_st_dev mi, fb_mode = mi_st_mode mi, fb_nlink = mi_st_nlink mi,
     fb_uid = mi_st_uid mi, fb_gid = mi_st_gid mi, fb_rdev = mi_st_rdev mi, fb_size = mi_st_size mi,
     fb_blksize = mi_st_blksize mi, fb_blocks = mi_st_blocks mi, fb_atim = mi_st_atim mi, fb_mtim = mi_st_mtim mi,
     fb_ctim = mi_st_ctim mi\<rparr>"

definition take_stat :: "fb_stat \<Rightarrow> MetaProcessInfo \<Rightarrow> MetaProcessInfo" where
  "take_stat st mi = mi\<lparr>mi_inodeId := fb_ino st, mi_st_dev := fb_dev st, mi_st_mode := fb_mode st, mi_st_nlink := fb_nlink st,
     mi_st_uid := fb_uid st, mi_st_gid := fb_gid st, mi_st_rdev := fb_rdev st, mi_st_size := fb_size st,
     mi_st_blksize := fb_blksize st, mi_st_blocks := fb_blocks st, mi_st_atim := fb_atim st, mi_st_mtim := fb_mtim st,
     mi_st_ctim := fb_ctim st\<rparr>"

definition take_response :: "CuckooSupportMetaService \<Rightarrow> MetaResponse \<Rightarrow> MetaProcessInfo \<Rightarrow> MetaProcessInfo option" where
  "take_response service r mi =
     (let mi = mi\<lparr>mi_errorCode := code_of_number (error_code r)\<rparr> in
      if service \<in> {MKDIR_SUB_MKDIR, MKDIR_SUB_CREATE, RMDIR_SUB_RMDIR, RMDIR_SUB_UNLINK, RENAME_SUB_CREATE} then Some mi
      else if service = RENAME_SUB_RENAME_LOCALLY then
        (case response r of
           None \<Rightarrow> Some mi
         | Some (RenameSubRenameLocallyResponse st node_id) \<Rightarrow> Some ((take_stat st mi)\<lparr>mi_node_id := node_id\<rparr>)
         | _ \<Rightarrow> None)
      else None)"

primrec response_decode_loop ::
    "fb_env \<Rightarrow> bool \<Rightarrow> CuckooSupportMetaService \<Rightarrow> SerializedData \<Rightarrow> u32 \<Rightarrow> MetaProcessInfo list \<Rightarrow> MetaProcessInfo list option run" where
  "response_decode_loop F little service sd p [] = Returns (Some [])"
| "response_decode_loop F little service sd p (mi # infos) =
     run_bind (next_item little sd p) (\<lambda>next.
       case next of
         None \<Rightarrow> Returns None
       | Some (item, q) \<Rightarrow>
           (case Option.bind (fb_response_read F item) (\<lambda>r. take_response service r mi) of
              None \<Rightarrow> Returns None
            | Some mi1 \<Rightarrow>
                run_bind (response_decode_loop F little service sd q infos) (\<lambda>rest.
                  Returns (map_option (Cons mi1) rest))))"

definition SerializedDataMetaResponseDecode ::
    "fb_env \<Rightarrow> bool \<Rightarrow> CuckooSupportMetaService \<Rightarrow> SerializedData \<Rightarrow> MetaProcessInfo list \<Rightarrow> MetaProcessInfo list option run" where
  "SerializedDataMetaResponseDecode F little service sd infoArray = response_decode_loop F little service sd 0 infoArray"

definition any_response_of :: "CuckooSupportMetaService \<Rightarrow> MetaProcessInfo \<Rightarrow> AnyMetaResponse option option" where
  "any_response_of service mi =
     (case service of
        CREATE \<Rightarrow> Some (Some (CreateResponse (stat_of mi) (mi_node_id mi)))
      | STAT \<Rightarrow> Some (Some (StatResponse (stat_of mi)))
      | OPEN \<Rightarrow> Some (Some (OpenResponse (stat_of mi) (mi_node_id mi)))
      | UNLINK \<Rightarrow> Some (Some (UnlinkResponse (mi_inodeId mi) (mi_st_size mi) (mi_node_id mi)))
      | READDIR \<Rightarrow> Some (Some (ReadDirResponse (mi_readDirLastShardIndex mi) (mi_readDirLastFileName mi)
          (map (\<lambda>(fileName, mode). (Some fileName, mode)) (mi_readDirResultList mi))))
      | OPENDIR \<Rightarrow> Some (Some (OpenDirResponse (mi_inodeId mi)))
      | RENAME_SUB_RENAME_LOCALLY \<Rightarrow>
          if mi_parentId_partId mi \<noteq> 0 \<and> mi_dstParentIdPartId mi = 0
          then Some (Some (RenameSubRenameLocallyResponse (stat_of mi) (mi_node_id mi))) else Some None
      | PLAIN_COMMAND \<Rightarrow> None
      | NOT_SUPPORTED \<Rightarrow> None
      | _ \<Rightarrow> Some None)"

definition response_of :: "CuckooSupportMetaService \<Rightarrow> MetaProcessInfo \<Rightarrow> MetaResponse option" where
  "response_of service mi =
     (let code = word_of_nat (code_number (mi_errorCode mi)) in
      if mi_errorCode mi \<noteq> SUCCESS \<and> mi_errorCode mi \<noteq> FILE_EXISTS then Some \<lparr>error_code = code, response = None\<rparr>
      else map_option (\<lambda>any. \<lparr>error_code = code, response = any\<rparr>) (any_response_of service mi))"

primrec SerializedDataMetaResponseEncode ::
    "fb_env \<Rightarrow> bool \<Rightarrow> CuckooSupportMetaService \<Rightarrow> MetaProcessInfo list \<Rightarrow> SerializedData \<Rightarrow> (bool \<times> SerializedData) run" where
  "SerializedDataMetaResponseEncode F little service [] sd = Returns (True, sd)"
| "SerializedDataMetaResponseEncode F little service (mi # infos) sd =
     (case response_of service mi of
        None \<Rightarrow> Returns (False, sd)
      | Some r \<Rightarrow>
          run_bind (append_item little (fb_response_write F r) sd)
            (SerializedDataMetaResponseEncode F little service infos))"

section \<open>Items written and read\<close>

lemma take_overwrite:
  assumes "k + length bs \<le> n" "n \<le> length m"
  shows "take n (overwrite m k bs) = overwrite (take n m) k bs"
proof -
  have "take n (overwrite m k bs) = take k m @ bs @ take (n - k - length bs) (drop (k + length bs) m)"
    using assms min_absorb2 [of k n] by (simp add: overwrite_def)
  moreover have "take (n - k - length bs) (drop (k + length bs) m) = drop (k + length bs) (take n m)"
    using assms by (simp add: drop_take)
  ultimately show ?thesis using assms by (simp add: overwrite_def min_def)
qed

lemma overwrite_behind: "overwrite (xs @ ys) (length xs) bs = xs @ bs @ drop (length bs) ys"
  by (simp add: overwrite_def)

lemma sd_write_bytes:
  assumes wf: "sd_wf sd" and room: "k + length bs \<le> unat (sd_size sd)"
  obtains sd' where "sd_write sd k bs = Returns sd'" "sd_wf sd'" "sd_bytes sd' = overwrite (sd_bytes sd) k bs"
    "sd_memoryManager sd' = sd_memoryManager sd"
proof -
  have fits: "unat (sd_size sd) \<le> length (sd_mem sd)" using wf by (simp add: sd_wf_def word_le_nat_alt)
  obtain sd' where w: "sd_write sd k bs = Returns sd'" "sd_mem sd' = overwrite (sd_mem sd) k bs"
    "sd_size sd' = sd_size sd" "sd_capacity sd' = sd_capacity sd" "sd_memoryManager sd' = sd_memoryManager sd"
    using sd_write_ok [of k bs sd] room fits by auto
  have len: "length (sd_mem sd') = length (sd_mem sd)" using room fits by (simp add: w(2) overwrite_def)
  have "sd_wf sd'" using wf w(3-5) len by (simp add: sd_wf_def)
  moreover have "sd_bytes sd' = overwrite (sd_bytes sd) k bs"
    using take_overwrite [OF room fits] w(2,3) by (simp add: sd_bytes_def)
  ultimately show thesis using that w by blast
qed

text \<open>A container that never runs out of memory.\<close>

definition sd_grows :: "SerializedData \<Rightarrow> bool" where
  "sd_grows sd \<longleftrightarrow> sd_wf sd \<and> (\<exists>mm. sd_memoryManager sd = Some mm \<and> mm_total mm)"

text \<open>What a message is stored as: its bytes, filled up to a multiple of four.\<close>

definition padded :: "u8 list \<Rightarrow> u8 list \<Rightarrow> bool" where
  "padded bytes item \<longleftrightarrow> item_ok item \<and> (\<exists>pad. length pad < 4 \<and> item = bytes @ pad)"

lemma append_item_appends:
  assumes grows: "sd_grows sd" and small: "unat (sd_size sd) + 8 + length bytes \<le> 2 ^ 31"
  obtains sd' item where "append_item little bytes sd = Returns sd'" "sd_grows sd'" "padded bytes item"
    "sd_bytes sd' = sd_bytes sd @ encode_item item"
proof -
  have wf: "sd_wf sd" using grows by (simp add: sd_grows_def)
  define n :: u32 where "n = word_of_nat (length bytes)"
  have n: "unat n = length bytes" using small by (simp add: n_def unat_of_nat)
  have "(length bytes + 3) div 4 * 4 \<le> length bytes + 3" by simp
  then have "unat (sd_size sd) + 4 + (unat n + 3) div 4 * 4 \<le> 2 ^ 31" using small n by linarith
  from apply_for_segment_appends [OF wf this, of little] obtain d payload where
    d: "SerializedDataApplyForSegment little sd n = Returns (Some (unat (sd_size sd) + 4), d)"
      "sd_wf d" "sd_memoryManager d = sd_memoryManager sd" "length payload = (length bytes + 3) div 4 * 4"
      "sd_bytes d = sd_bytes sd @ le_bytes (word_of_nat (length payload)) @ payload"
    using grows n by (auto simp: sd_grows_def)
  have k: "unat (sd_size sd) = length (sd_bytes sd)" "unat (sd_size d) = length (sd_bytes d)"
    using wf d(2) by (simp_all add: length_sd_bytes)
  have pay: "length bytes \<le> length payload" "length payload < length bytes + 4"
    unfolding d(4) by linarith+
  then obtain sd' where
    w: "sd_write d (unat (sd_size sd) + 4) bytes = Returns sd'" "sd_wf sd'"
      "sd_bytes sd' = overwrite (sd_bytes d) (unat (sd_size sd) + 4) bytes" "sd_memoryManager sd' = sd_memoryManager d"
    using sd_write_bytes [OF d(2), of "unat (sd_size sd) + 4" bytes] k d(5) by auto
  define item where "item = bytes @ drop (length bytes) payload"
  have len: "length item = length payload" using pay by (simp add: item_def)
  have "sd_bytes sd' = sd_bytes sd @ encode_item item"
    using overwrite_behind [of "sd_bytes sd @ le_bytes (word_of_nat (length payload))" payload bytes] w(3) d(5) k(1) len
    by (simp add: encode_item_def item_def)
  moreover have "padded bytes item"
    using pay small d(4) len unfolding padded_def item_ok_def by (auto simp: item_def)
  moreover have "sd_grows sd'" using grows w(2,4) d(3) by (simp add: sd_grows_def)
  moreover have "append_item little bytes sd = Returns sd'" using d(1) w(1) by (simp add: append_item_def n_def)
  ultimately show thesis using that by blast
qed

text \<open>Appending messages one after the other, and the bound that keeps the container within 2 GiB.\<close>

primrec append_items :: "bool \<Rightarrow> u8 list list \<Rightarrow> SerializedData \<Rightarrow> SerializedData run" where
  "append_items little [] sd = Returns sd"
| "append_items little (m # ms) sd = run_bind (append_item little m sd) (append_items little ms)"

definition stored_size :: "u8 list list \<Rightarrow> nat" where
  "stored_size ms = (\<Sum>m\<leftarrow>ms. 8 + length m)"

lemma append_items_appends:
  assumes "sd_grows sd" and "unat (sd_size sd) + stored_size ms \<le> 2 ^ 31"
  shows "\<exists>sd' items. append_items little ms sd = Returns sd' \<and> sd_grows sd' \<and> list_all2 padded ms items
     \<and> sd_bytes sd' = sd_bytes sd @ encode_items items"
  using assms
proof (induction ms arbitrary: sd)
  case (Cons m ms)
  then have "unat (sd_size sd) + 8 + length m \<le> 2 ^ 31" by (simp add: stored_size_def)
  from append_item_appends [OF Cons.prems(1) this, of little] obtain sd1 item where
    one: "append_item little m sd = Returns sd1" "sd_grows sd1" "padded m item" "sd_bytes sd1 = sd_bytes sd @ encode_item item" .
  have "unat (sd_size sd1) \<le> unat (sd_size sd) + 8 + length m"
    using one Cons.prems(1) length_sd_bytes [of sd] length_sd_bytes [of sd1] by (auto simp: sd_grows_def padded_def)
  then have "unat (sd_size sd1) + stored_size ms \<le> 2 ^ 31" using Cons.prems(2) by (simp add: stored_size_def)
  from Cons.IH [OF one(2) this] obtain sd' items where
    rest: "append_items little ms sd1 = Returns sd'" "sd_grows sd'" "list_all2 padded ms items"
      "sd_bytes sd' = sd_bytes sd1 @ encode_items items" by blast
  have "append_items little (m # ms) sd = Returns sd' \<and> sd_grows sd' \<and> list_all2 padded (m # ms) (item # items)
     \<and> sd_bytes sd' = sd_bytes sd @ encode_items (item # items)"
    using one rest by simp
  then show ?case by blast
qed auto

lemma next_item_reads:
  assumes mem: "sd_mem sd = encode_items (before @ [item]) @ post"
    and tot: "length (encode_items (before @ [item])) \<le> unat (sd_size sd)"
    and ok: "\<forall>x \<in> set (before @ [item]). item_ok x"
  shows "next_item little sd (word_of_nat (length (encode_items before)))
    = Returns (Some (item, word_of_nat (length (encode_items (before @ [item])))))"
proof -
  let ?p = "word_of_nat (length (encode_items before)) :: u32"
  have tot32: "length (encode_items before) + 4 + length item < 2 ^ 32"
    using tot unat_lt_pow [of "sd_size sd"] by simp
  then have p: "unat ?p = length (encode_items before)" by (simp add: unat_of_nat)
  have small: "4 + length item < 2 ^ 32 - 1"
  proof -
    obtain k where "length item = 4 * k" using ok by (auto simp: item_ok_def)
    moreover from this have "4 * k \<le> 4 * (1073741823 - 1)" using tot32 by (intro mult_le_mono2) simp
    ultimately show ?thesis by simp
  qed
  define w where "w = (word_of_nat (4 + length item) :: u32)"
  have size: "SerializedDataNextSeveralItemSize little sd ?p 1 = Returns w"
    using several_items_size [OF mem tot ok, of little] by (simp add: w_def)
  have u: "unat w = 4 + length item"
    using small unat_of_nat [of "4 + length item", where 'a = 32] unfolding w_def by (simp del: of_nat_add)
  have ne: "w \<noteq> - 1" using small u by (auto simp: unsigned_minus_1_eq_mask mask_eq_exp_minus_1)
  have rd: "sd_read sd (length (encode_items before) + 4) (length item) = Returns item"
    using sd_read_mem [of sd "encode_items before @ le_bytes (word_of_nat (length item))" item] mem
    by (simp add: encode_item_def flip: length_0_conv)
  have minus: "w - SERIALIZED_DATA_ALIGNMENT = word_of_nat (length item)" by (simp add: w_def cuckoo_defs)
  have "unat (word_of_nat (length item) :: u32) = length item" using small by (simp add: unat_of_nat)
  then have "next_item little sd ?p = Returns (Some (item, ?p + w))"
    using ne rd p size by (simp add: next_item_def minus) (simp add: cuckoo_defs)
  then show ?thesis by (simp add: w_def)
qed

text \<open>The two decoding loops are one loop with different uses of an item.\<close>

primrec decode_items ::
    "bool \<Rightarrow> (u8 list \<Rightarrow> MetaProcessInfo \<Rightarrow> MetaProcessInfo option run) \<Rightarrow> SerializedData \<Rightarrow> u32 \<Rightarrow> MetaProcessInfo list
      \<Rightarrow> MetaProcessInfo list option run" where
  "decode_items little take_item sd p [] = Returns (Some [])"
| "decode_items little take_item sd p (mi # infos) =
     run_bind (next_item little sd p) (\<lambda>next.
       case next of
         None \<Rightarrow> Returns None
       | Some (item, q) \<Rightarrow>
           run_bind (take_item item mi) (\<lambda>taken.
             case taken of
               None \<Rightarrow> Returns None
             | Some mi1 \<Rightarrow>
                 run_bind (decode_items little take_item sd q infos) (\<lambda>rest. Returns (map_option (Cons mi1) rest))))"

definition take_param_item :: "fb_env \<Rightarrow> CuckooSupportMetaService \<Rightarrow> u8 list \<Rightarrow> MetaProcessInfo \<Rightarrow> MetaProcessInfo option run" where
  "take_param_item F service item mi =
     (case fb_param_read F item of None \<Rightarrow> Returns None | Some p \<Rightarrow> take_param service p mi)"

definition take_response_item :: "fb_env \<Rightarrow> CuckooSupportMetaService \<Rightarrow> u8 list \<Rightarrow> MetaProcessInfo \<Rightarrow> MetaProcessInfo option run" where
  "take_response_item F service item mi = Returns (Option.bind (fb_response_read F item) (\<lambda>r. take_response service r mi))"

lemma param_decode_loop_eq: "param_decode_loop F little service sd p infos = decode_items little (take_param_item F service) sd p infos"
  by (induction infos arbitrary: p)
    (auto simp: take_param_item_def run_bind_def split: run.splits option.splits)

lemma response_decode_loop_eq:
  "response_decode_loop F little service sd p infos = decode_items little (take_response_item F service) sd p infos"
  by (induction infos arbitrary: p)
    (auto simp: take_response_item_def run_bind_def split: run.splits option.splits)

lemma decode_items_reads:
  assumes "list_all2 (\<lambda>m item. \<forall>m0. \<exists>m1. take_item item m0 = Returns (Some m1) \<and> Q m m1) infos items"
    and "sd_mem sd = encode_items (before @ items) @ post" and "length (encode_items (before @ items)) \<le> unat (sd_size sd)"
    and "\<forall>x \<in> set (before @ items). item_ok x" and "length memory = length infos"
  shows "\<exists>infos'. decode_items little take_item sd (word_of_nat (length (encode_items before))) memory = Returns (Some infos')
      \<and> list_all2 Q infos infos'"
  using assms
proof (induction infos arbitrary: items before memory)
  case (Cons m infos)
  obtain item rest where items: "items = item # rest"
    and takes: "\<forall>m0. \<exists>m1. take_item item m0 = Returns (Some m1) \<and> Q m m1"
    and more: "list_all2 (\<lambda>m item. \<forall>m0. \<exists>m1. take_item item m0 = Returns (Some m1) \<and> Q m m1) infos rest"
    using Cons.prems(1) by (auto simp: list_all2_Cons1)
  obtain m0 ms where memory: "memory = m0 # ms" "length ms = length infos"
    using Cons.prems(5) by (cases memory) auto
  obtain m1 where m1: "take_item item m0 = Returns (Some m1)" "Q m m1" using takes by blast
  have read: "next_item little sd (word_of_nat (length (encode_items before)))
      = Returns (Some (item, word_of_nat (length (encode_items (before @ [item])))))"
    using Cons.prems(2-4) items by (intro next_item_reads [of sd before item "encode_items rest @ post"]) simp_all
  have "\<exists>infos'. decode_items little take_item sd (word_of_nat (length (encode_items (before @ [item])))) ms = Returns (Some infos')
      \<and> list_all2 Q infos infos'"
    using Cons.prems(2-4) items memory(2) by (intro Cons.IH [OF more]) simp_all
  then obtain infos' where "decode_items little take_item sd (word_of_nat (length (encode_items (before @ [item])))) ms
      = Returns (Some infos')" "list_all2 Q infos infos'" by blast
  then have "decode_items little take_item sd (word_of_nat (length (encode_items before))) memory = Returns (Some (m1 # infos'))
      \<and> list_all2 Q (m # infos) (m1 # infos')"
    using read m1 memory(1) by simp
  then show ?case by blast
qed simp

section \<open>Requests between servers arrive as they were sent\<close>

definition sub_services :: "CuckooSupportMetaService list" where
  "sub_services = [MKDIR_SUB_MKDIR, MKDIR_SUB_CREATE, RMDIR_SUB_RMDIR, RMDIR_SUB_UNLINK, RENAME_SUB_RENAME_LOCALLY, RENAME_SUB_CREATE]"

definition param_messages :: "fb_env \<Rightarrow> CuckooSupportMetaService \<Rightarrow> MetaProcessInfo list \<Rightarrow> u8 list list" where
  "param_messages F service infos = map (\<lambda>m. fb_param_write F (the (param_of service m))) infos"

definition response_messages :: "fb_env \<Rightarrow> CuckooSupportMetaService \<Rightarrow> MetaProcessInfo list \<Rightarrow> u8 list list" where
  "response_messages F service infos = map (\<lambda>m. fb_response_write F (the (response_of service m))) infos"

text \<open>What arrives: the bytes sent, at the start of memory whose claimed size covers them.\<close>

definition received :: "SerializedData \<Rightarrow> u8 list \<Rightarrow> bool" where
  "received sd bytes \<longleftrightarrow> take (length bytes) (sd_mem sd) = bytes \<and> length bytes \<le> unat (sd_size sd)"

lemma sub_services_cases:
  assumes "service \<in> set sub_services"
  obtains "service = MKDIR_SUB_MKDIR" | "service = MKDIR_SUB_CREATE" | "service = RMDIR_SUB_RMDIR" | "service = RMDIR_SUB_UNLINK"
  | "service = RENAME_SUB_RENAME_LOCALLY" | "service = RENAME_SUB_CREATE"
  using assms by (auto simp: sub_services_def)

lemma param_of_sub: "service \<in> set sub_services \<Longrightarrow> param_of service m = Some (the (param_of service m))"
  by (erule sub_services_cases) (simp_all add: param_of_def)

lemma take_param_of:
  "service \<in> set sub_services \<Longrightarrow>
     \<exists>m1. take_param service (param_of service m) m0 = Returns (Some m1) \<and> param_of service m1 = param_of service m"
  by (erule sub_services_cases) (simp_all add: param_of_def take_param_def c_str_def)

lemma response_of_sub: "service \<in> set sub_services \<Longrightarrow> response_of service m = Some (the (response_of service m))"
  by (erule sub_services_cases) (simp_all add: response_of_def any_response_of_def Let_def)

lemma code_of_number_code: "code_of_number (word_of_nat (code_number c)) = c"
  by (cases c) (simp_all add: code_of_number_def CUCKOO_ERROR_CODE_LIST_def)

text \<open>What a response carries back: the error code, and the attributes of a file that leaves its server.\<close>

definition response_agrees :: "CuckooSupportMetaService \<Rightarrow> MetaProcessInfo \<Rightarrow> MetaProcessInfo \<Rightarrow> bool" where
  "response_agrees service m m1 \<longleftrightarrow>
     mi_errorCode m1 = mi_errorCode m
     \<and> (if service = RENAME_SUB_RENAME_LOCALLY \<and> mi_errorCode m = SUCCESS \<and> mi_parentId_partId m \<noteq> 0 \<and> mi_dstParentIdPartId m = 0
        then stat_of m1 = stat_of m \<and> mi_node_id m1 = mi_node_id m else True)"

lemma stat_of_take_stat: "stat_of ((take_stat st m)\<lparr>mi_node_id := n\<rparr>) = st"
  by (simp add: stat_of_def take_stat_def)

lemma take_response_of:
  assumes "service \<in> set sub_services"
  shows "\<exists>m1. take_response service (the (response_of service m)) m0 = Some m1 \<and> response_agrees service m m1"
  using assms
  by (rule sub_services_cases)
    (simp_all add: response_of_def any_response_of_def take_response_def response_agrees_def Let_def code_of_number_code
      stat_of_take_stat, simp_all add: take_stat_def code_of_number_def CUCKOO_ERROR_CODE_LIST_def)

lemma param_encode_eq:
  assumes "service \<in> set sub_services"
  shows "SerializedDataMetaParamEncode F little service infos sd
    = run_bind (append_items little (param_messages F service infos) sd) (\<lambda>sd. Returns (True, sd))"
proof (induction infos arbitrary: sd)
  case (Cons m infos)
  obtain p where "param_of service m = Some p" using param_of_sub [OF assms] by blast
  with Cons show ?case by (cases "append_item little (fb_param_write F p) sd") (auto simp: param_messages_def)
qed (simp add: param_messages_def)

lemma response_encode_eq:
  assumes "service \<in> set sub_services"
  shows "SerializedDataMetaResponseEncode F little service infos sd
    = run_bind (append_items little (response_messages F service infos) sd) (\<lambda>sd. Returns (True, sd))"
proof (induction infos arbitrary: sd)
  case (Cons m infos)
  obtain p where "response_of service m = Some p" using response_of_sub [OF assms] by blast
  with Cons show ?case by (cases "append_item little (fb_response_write F p) sd") (auto simp: response_messages_def)
qed (simp add: response_messages_def)

text \<open>
  Messages appended on one host and read on another: \<open>take_item\<close> makes of each stored message, whatever
  fills it up to a multiple of four, something that agrees with the request it was made from.
\<close>

lemma items_round_trip:
  assumes sd: "sd_grows sd" "sd_size sd = 0" and small: "stored_size (map message infos) \<le> 2 ^ 31"
    and reads: "\<forall>m \<in> set infos. \<forall>pad m0. length pad < 4 \<longrightarrow>
      (\<exists>m1. take_item (message m @ pad) m0 = Returns (Some m1) \<and> Q m m1)"
    and memory: "length memory = length infos"
  shows "\<exists>sd'. append_items little (map message infos) sd = Returns sd' \<and> sd_wf sd'
    \<and> (\<forall>arrived little'. received arrived (sd_bytes sd') \<longrightarrow>
          (\<exists>infos'. decode_items little' take_item arrived 0 memory = Returns (Some infos') \<and> list_all2 Q infos infos'))"
proof -
  have empty: "sd_bytes sd = []" using sd(2) by (simp add: sd_bytes_def)
  from append_items_appends [OF sd(1), of "map message infos" little] obtain sd' items where
    sent: "append_items little (map message infos) sd = Returns sd'" "list_all2 padded (map message infos) items"
      "sd_bytes sd' = encode_items items" "sd_wf sd'"
    using small sd(2) empty by (auto simp: sd_grows_def)
  have takes: "list_all2 (\<lambda>m item. \<forall>m0. \<exists>m1. take_item item m0 = Returns (Some m1) \<and> Q m m1) infos items"
    using sent(2) unfolding list_all2_map1
  proof (rule list.rel_mono_strong)
    fix m item assume "m \<in> set infos" "padded (message m) item"
    then show "\<forall>m0. \<exists>m1. take_item item m0 = Returns (Some m1) \<and> Q m m1" using reads by (auto simp: padded_def)
  qed
  have ok: "\<forall>x \<in> set ([] @ items). item_ok x"
    using sent(2) by (auto simp: list_all2_conv_all_nth in_set_conv_nth padded_def)
  have "\<exists>infos'. decode_items little' take_item arrived 0 memory = Returns (Some infos') \<and> list_all2 Q infos infos'"
    if got: "received arrived (sd_bytes sd')" for arrived little'
  proof -
    have "sd_mem arrived = encode_items ([] @ items) @ drop (length (encode_items items)) (sd_mem arrived)"
      using got unfolding received_def sent(3) by (metis append_take_drop_id append_Nil)
    moreover have "length (encode_items ([] @ items)) \<le> unat (sd_size arrived)"
      using got by (simp add: received_def sent(3))
    ultimately show ?thesis using decode_items_reads [OF takes _ _ ok memory, of arrived _ little'] by simp
  qed
  then show ?thesis using sent(1,4) by blast
qed

text \<open>
  Requests sent between servers arrive as they were sent. Whatever the byte orders of the two hosts,
  encoding a batch returns, and decoding the bytes on the receiving side, into request records of any
  content, restores for every request everything the message carries. The generated code is assumed to read
  back each of these messages from its own bytes even if up to three further bytes follow.
\<close>

lemma param_round_trip:
  assumes "service \<in> set sub_services" and "sd_grows sd" "sd_size sd = 0"
    and "stored_size (param_messages F service infos) \<le> 2 ^ 31"
    and "\<forall>m \<in> set infos. \<forall>pad. length pad < 4 \<longrightarrow>
      fb_param_read F (fb_param_write F (the (param_of service m)) @ pad) = Some (param_of service m)"
    and "length memory = length infos"
  shows "\<exists>sd'. SerializedDataMetaParamEncode F little service infos sd = Returns (True, sd') \<and> sd_wf sd'
    \<and> (\<forall>arrived little'. received arrived (sd_bytes sd') \<longrightarrow>
         (\<exists>infos'. SerializedDataMetaParamDecode F little' service arrived memory = Returns (Some infos')
            \<and> list_all2 (\<lambda>m m1. param_of service m1 = param_of service m) infos infos'))"
proof -
  let ?message = "\<lambda>m. fb_param_write F (the (param_of service m))"
  have "\<forall>m \<in> set infos. \<forall>pad m0. length pad < 4 \<longrightarrow>
      (\<exists>m1. take_param_item F service (?message m @ pad) m0 = Returns (Some m1) \<and> param_of service m1 = param_of service m)"
    using assms(5) take_param_of [OF assms(1)] by (simp add: take_param_item_def)
  from items_round_trip [OF assms(2,3) assms(4) [unfolded param_messages_def] this assms(6), of little] show ?thesis
    using assms(1) by (auto simp: param_encode_eq param_messages_def SerializedDataMetaParamDecode_def param_decode_loop_eq)
qed

text \<open>
  Responses sent between servers arrive as they were sent: every request gets back its error code, and
  the answer to a rename that moves a file to another server also carries all attributes of the file.
\<close>

lemma response_round_trip:
  assumes "service \<in> set sub_services" and "sd_grows sd" "sd_size sd = 0"
    and "stored_size (response_messages F service infos) \<le> 2 ^ 31"
    and "\<forall>m \<in> set infos. \<forall>pad. length pad < 4 \<longrightarrow>
      fb_response_read F (fb_response_write F (the (response_of service m)) @ pad) = response_of service m"
    and "length memory = length infos"
  shows "\<exists>sd'. SerializedDataMetaResponseEncode F little service infos sd = Returns (True, sd') \<and> sd_wf sd'
    \<and> (\<forall>arrived little'. received arrived (sd_bytes sd') \<longrightarrow>
         (\<exists>infos'. SerializedDataMetaResponseDecode F little' service arrived memory = Returns (Some infos')
            \<and> list_all2 (response_agrees service) infos infos'))"
proof -
  let ?message = "\<lambda>m. fb_response_write F (the (response_of service m))"
  have "\<forall>m \<in> set infos. \<forall>pad m0. length pad < 4 \<longrightarrow>
      (\<exists>m1. take_response_item F service (?message m @ pad) m0 = Returns (Some m1) \<and> response_agrees service m m1)"
  proof (intro ballI allI impI)
    fix m pad m0 assume "m \<in> set infos" "length (pad :: u8 list) < 4"
    then have "fb_response_read F (?message m @ pad) = Some (the (response_of service m))"
      using assms(5) response_of_sub [OF assms(1), of m] by simp
    then show "\<exists>m1. take_response_item F service (?message m @ pad) m0 = Returns (Some m1) \<and> response_agrees service m m1"
      using take_response_of [OF assms(1), of m m0] by (simp add: take_response_item_def)
  qed
  from items_round_trip [OF assms(2,3) assms(4) [unfolded response_messages_def] this assms(6), of little] show ?thesis
    using assms(1) by (auto simp: response_encode_eq response_messages_def SerializedDataMetaResponseDecode_def response_decode_loop_eq)
qed

lemma service_type_round_trip:
  "service \<notin> {PLAIN_COMMAND, NOT_SUPPORTED} \<Longrightarrow> MetaServiceTypeDecode (MetaServiceTypeEncode service) = service"
  by (cases service) (simp_all add: MetaServiceTypeDecode_def MetaServiceTypeEncode_def)

section \<open>A concrete exchange\<close>

text \<open>Messages of a few bytes, enough for requests to remove a directory with a one-letter name.\<close>

definition byte_fb :: fb_env where
  "byte_fb = \<lparr>
     fb_param_write = (\<lambda>p. case p of RmdirSubRmdirParam parent (Some (c # cs)) \<Rightarrow> [1, ucast parent, of_char c] | _ \<Rightarrow> [0]),
     fb_param_read = (\<lambda>bytes. case bytes of a # b # c # _ \<Rightarrow> Some (Some (RmdirSubRmdirParam (ucast b) (Some [char_of (unat c)]))) | _ \<Rightarrow> None),
     fb_response_write = (\<lambda>r. [ucast (error_code r)]),
     fb_response_read = (\<lambda>bytes. case bytes of a # _ \<Rightarrow> Some \<lparr>error_code = ucast a, response = None\<rparr> | _ \<Rightarrow> None)\<rparr>"

definition path_request :: "string \<Rightarrow> MetaProcessInfo" where
  "path_request path = \<lparr>mi_path = path, mi_parentId = 0, mi_inodeId = 0, mi_parentId_partId = 0, mi_name = [], mi_st_dev = 0,
     mi_st_mode = 0, mi_st_nlink = 0, mi_st_uid = 0, mi_st_gid = 0, mi_st_rdev = 0, mi_st_size = 0, mi_st_blksize = 0,
     mi_st_blocks = 0, mi_st_atim = 0, mi_st_mtim = 0, mi_st_ctim = 0, mi_etag = [], mi_node_id = 0,
     mi_readDirMaxReadCount = 0, mi_readDirLastShardIndex = 0, mi_readDirLastFileName = None, mi_readDirResultList = [],
     mi_dstPath = [], mi_dstParentId = 0, mi_dstParentIdPartId = 0, mi_dstName = [], mi_targetIsDirectory = False,
     mi_srcLockOrder = 0, mi_errorCode = SUCCESS\<rparr>"

definition rmdir_request :: "u64 \<Rightarrow> string \<Rightarrow> MetaProcessInfo" where
  "rmdir_request parent dname = (path_request ''/'')\<lparr>mi_parentId := parent, mi_name := dname\<rparr>"

end
