(* ===== verification/Meta_Dirs.thy ===== *)
theory Meta_Dirs
  imports Meta_Handle Meta_Codec
begin

text \<open>
  The handlers of \<^verbatim>\<open>cuckoo/metadb/meta_handle.c\<close> for directories and for renaming. Those that run on the
  coordinator change the directory table, send requests to the other servers and read their responses;
  those with \<^verbatim>\<open>Sub\<close> in their name carry out such a request. Local variables the code leaves uninitialised
  on some path have the value of the parameter \<open>me_fresh\<close>.
\<close>

section \<open>Requests to other servers\<close>

definition CUCKOO_CN_SERVER_ID :: int where "CUCKOO_CN_SERVER_ID = 0"

definition exec_run :: "'a run \<Rightarrow> ('s, 'a) exec" where
  "exec_run r s = run_bind r (\<lambda>x. Returns (Inr x, s))"

definition encode_params :: "meta_env \<Rightarrow> CuckooSupportMetaService \<Rightarrow> MetaProcessInfo list \<Rightarrow> u8 list run" where
  "encode_params E service infos =
     run_bind (SerializedDataMetaParamEncode (me_fb E) (me_little E) service infos
         \<lparr>sd_buffer = None, sd_size = 0, sd_capacity = 0, sd_memoryManager = Some (me_mm E)\<rparr>)
       (\<lambda>(ok, sd). Returns (sd_bytes sd))"

definition meta_call ::
    "meta_env \<Rightarrow> CuckooSupportMetaService \<Rightarrow> MetaProcessInfo list \<Rightarrow> int list \<Rightarrow> (meta_state, unit) exec" where
  "meta_call E service infos workerIdList =
     exec_bind (exec_run (encode_params E service infos)) (\<lambda>param.
     on_rc (exec_op (CuckooMetaCallOnWorkerList service (int (length infos)) param REMOTE_COMMAND_FLAG_WRITE workerIdList)))"

definition all_foreign_servers :: "meta_env \<Rightarrow> bool \<Rightarrow> bool \<Rightarrow> (meta_state, int list) exec" where
  "all_foreign_servers E exceptSelf exceptCn =
     on_rc (on_part rc_servers (\<lambda>fs s. s\<lparr>rc_servers := fs\<rparr>)
       (GetAllForeignServerId (text_clip (me_pq E)) (server_seq (me_pq E)) exceptSelf exceptCn))"

definition send_and_wait :: "meta_env \<Rightarrow> (meta_state, (int \<times> PGresult list) list) exec" where
  "send_and_wait E = on_rc (CuckooSendCommandAndWaitForResult (me_pq E))"

text \<open>The single value of a result, and the responses in it. Data whose length is no multiple of four is never initialised.\<close>

definition response_bytes :: "PGresult \<Rightarrow> ('s, u8 list) exec" where
  "response_bytes res =
     (case res_rows res of [[v]] \<Rightarrow> exec_return (map of_char v) | _ \<Rightarrow> exec_raise REMOTE_QUERY_FAILED)"

definition decode_response ::
    "meta_env \<Rightarrow> CuckooSupportMetaService \<Rightarrow> u8 list \<Rightarrow> MetaProcessInfo list \<Rightarrow> ('s, MetaProcessInfo list) exec" where
  "decode_response E service bytes memory =
     (let n = word_of_nat (length bytes) in
      case SerializedDataInit (me_mm E) \<lparr>sd_buffer = None, sd_size = 0, sd_capacity = 0, sd_memoryManager = None\<rparr>
          (Some bytes) n n None of
        (False, _) \<Rightarrow> (\<lambda>s. Faults)
      | (True, sd) \<Rightarrow>
          exec_bind (exec_run (SerializedDataMetaResponseDecode (me_fb E) (me_little E) service sd memory)) (\<lambda>infos.
          case infos of None \<Rightarrow> exec_raise ARGUMENT_ERROR | Some infos \<Rightarrow> exec_return infos))"

text \<open>Responses of which only the error codes are looked at, which must all be \<^const>\<open>SUCCESS\<close>.\<close>

definition expect_success :: "meta_env \<Rightarrow> CuckooSupportMetaService \<Rightarrow> nat \<Rightarrow> u8 list \<Rightarrow> ('s, unit) exec" where
  "expect_success E service n bytes =
     exec_bind (decode_response E service bytes (map (me_fresh E) [0..<n])) (\<lambda>infos.
     check_that (\<forall>m \<in> set infos. mi_errorCode m = SUCCESS) PROGRAM_ERROR)"

section \<open>Mkdir\<close>

definition mkdir_insert :: "meta_env \<Rightarrow> nat \<Rightarrow> (meta_state, bool) exec" where
  "mkdir_insert E i =
     exec_bind (exec_gets (info i)) (\<lambda>m.
     if mi_errorCode m \<noteq> SUCCESS then exec_return False
     else
       exec_bind (parse_path E (mi_path m)
         (PATH_PARSE_FLAG_TARGET_IS_DIRECTORY OR PATH_PARSE_FLAG_TARGET_TO_BE_CREATED
          OR PATH_PARSE_FLAG_ALLOW_OPERATION_UNDER_CREATED_DIRECTORY) (Some (mi_inodeId m))) (\<lambda>out.
       exec_bind (exec_modify (set_info i (take_out out))) (\<lambda>_.
       if pp_code out \<noteq> SUCCESS then exec_bind (exec_modify (set_code i (pp_code out))) (\<lambda>_. exec_return False)
       else
         exec_bind (exec_gets (info i)) (\<lambda>m.
         exec_bind (on_dirs (InsertDirectoryByDirectoryHashTable (me_dir E) (mi_parentId m) (mi_name m) (mi_inodeId m) DIR_LOCK_NONE)) (\<lambda>_.
         exec_return True)))))"

primrec mkdir_inserts :: "meta_env \<Rightarrow> nat list \<Rightarrow> (meta_state, nat list) exec" where
  "mkdir_inserts E [] = exec_return []"
| "mkdir_inserts E (i # is) =
     exec_bind (mkdir_insert E i) (\<lambda>valid.
     exec_bind (mkdir_inserts E is) (\<lambda>rest. exec_return (if valid then i # rest else rest)))"

primrec mkdir_groups :: "meta_env \<Rightarrow> nat list \<Rightarrow> (int \<times> nat list) list \<Rightarrow> (meta_state, (int \<times> nat list) list) exec" where
  "mkdir_groups E [] groups = exec_return groups"
| "mkdir_groups E (i # is) groups =
     exec_bind (exec_gets (info i)) (\<lambda>m.
     exec_bind (exec_return (parent_key E (mi_parentId m) (mi_name m))) (\<lambda>key.
     exec_bind (search_shard E key) (\<lambda>(shardId, workerId).
     exec_bind (GetCurrentTimestamp E) (\<lambda>now.
     exec_bind (exec_modify (set_info i (\<lambda>m. m\<lparr>mi_parentId_partId := key, mi_st_mode := S_IFDIR OR 0x1ED,
       mi_st_mtim := now, mi_st_size := 0\<rparr>))) (\<lambda>_.
     mkdir_groups E is (group_add workerId i groups))))))"

text \<open>A server id of 64 bits looked up in a table with keys of 32 bits: the first half of it in memory.\<close>

definition short_key :: "meta_env \<Rightarrow> int \<Rightarrow> int" where
  "short_key E serverId = (if me_little E then serverId else serverId div 2 ^ 32)"

definition mkdir_result :: "meta_env \<Rightarrow> nat \<Rightarrow> (int \<times> nat list) list \<Rightarrow> int \<times> PGresult list \<Rightarrow> (meta_state, unit) exec" where
  "mkdir_result E n groups r =
     (case r of (serverId, results) \<Rightarrow>
        if length results < 1 \<or> length results > 2 then exec_raise PROGRAM_ERROR
        else
          exec_bind (response_bytes (results ! 0)) (\<lambda>bytes.
          exec_bind (expect_success E MKDIR_SUB_MKDIR n bytes) (\<lambda>_.
          if length results = 1 then exec_return ()
          else
            exec_bind (response_bytes (results ! 1)) (\<lambda>bytes.
            case map_of groups (short_key E serverId) of
              None \<Rightarrow> exec_raise PROGRAM_ERROR
            | Some is \<Rightarrow> expect_success E MKDIR_SUB_CREATE (length is) bytes))))"

definition CuckooMkdirHandle :: "meta_env \<Rightarrow> nat list \<Rightarrow> (meta_state, unit) exec" where
  "CuckooMkdirHandle E infoArray =
     exec_bind (local_server_id E) (\<lambda>serverId.
     if serverId \<noteq> CUCKOO_CN_SERVER_ID then exec_raise WRONG_WORKER
     else
       exec_bind (exec_modify (verify_infos VERIFY_PATH_VALIDITY_REQUIREMENT_MUST_BE_DIRECTORY infoArray)) (\<lambda>_.
       exec_bind (exec_gets (sorted_infos E infoArray)) (\<lambda>infoArray.
       exec_bind (on_rc (exec_modify (RegisterLocalProcessFlag False))) (\<lambda>_.
       exec_bind (mkdir_inserts E infoArray) (\<lambda>valid.
       if valid = [] then exec_return ()
       else
         exec_bind (exec_gets (\<lambda>s. map (\<lambda>i. info i s) valid)) (\<lambda>infos.
         exec_bind (exec_run (encode_params E MKDIR_SUB_MKDIR infos)) (\<lambda>param.
         exec_bind (all_foreign_servers E True False) (\<lambda>servers.
         exec_bind (on_rc (exec_op (CuckooMetaCallOnWorkerList MKDIR_SUB_MKDIR (int (length infos)) param
           REMOTE_COMMAND_FLAG_WRITE servers))) (\<lambda>_.
         exec_bind (mkdir_groups E valid []) (\<lambda>groups.
         exec_bind (each (\<lambda>(workerId, is). exec_bind (exec_gets (\<lambda>s. map (\<lambda>i. info i s) is)) (\<lambda>infos.
           meta_call E MKDIR_SUB_CREATE infos [workerId])) (me_group_seq E groups)) (\<lambda>_.
         exec_bind (send_and_wait E) (\<lambda>totalRemoteRes.
         each (mkdir_result E (length valid) groups) totalRemoteRes))))))))))))"

definition mkdir_sub_mkdir :: "meta_env \<Rightarrow> nat \<Rightarrow> (meta_state, unit) exec" where
  "mkdir_sub_mkdir E i =
     exec_bind (exec_gets (info i)) (\<lambda>m.
     if mi_parentId m = - 1 then exec_raise ARGUMENT_ERROR
     else
       exec_bind (on_dirs (InsertDirectoryByDirectoryHashTable (me_dir E) (mi_parentId m) (mi_name m) (mi_inodeId m) DIR_LOCK_EXCLUSIVE)) (\<lambda>_.
       exec_modify (set_code i SUCCESS)))"

definition CuckooMkdirSubMkdirHandle :: "meta_env \<Rightarrow> nat list \<Rightarrow> (meta_state, unit) exec" where
  "CuckooMkdirSubMkdirHandle E = each (mkdir_sub_mkdir E)"

primrec sub_create_groups :: "meta_env \<Rightarrow> nat list \<Rightarrow> (int \<times> nat list) list \<Rightarrow> (meta_state, (int \<times> nat list) list) exec" where
  "sub_create_groups E [] groups = exec_return groups"
| "sub_create_groups E (i # is) groups =
     exec_bind (exec_gets (info i)) (\<lambda>m.
     if mi_inodeId m = - 1 \<or> mi_parentId_partId m = - 1 then exec_raise ARGUMENT_ERROR
     else
       exec_bind (search_shard E (mi_parentId_partId m)) (\<lambda>(shardId, workerId).
       exec_bind (local_server_id E) (\<lambda>serverId.
       if workerId \<noteq> serverId then exec_raise ARGUMENT_ERROR
       else sub_create_groups E is (group_add shardId i groups))))"

definition sub_create_info :: "string \<Rightarrow> nat \<Rightarrow> (meta_state, unit) exec" where
  "sub_create_info rel i =
     exec_bind (exec_modify (set_info i (\<lambda>m. m\<lparr>mi_etag := []\<rparr>))) (\<lambda>_.
     exec_bind (exec_gets (info i)) (\<lambda>m.
     exec_bind (exec_op (InsertIntoInodeTable rel (mi_parentId_partId m) (mi_name m) (created_row m))) (\<lambda>_.
     exec_modify (set_code i SUCCESS))))"

definition CuckooMkdirSubCreateHandle :: "meta_env \<Rightarrow> nat list \<Rightarrow> (meta_state, unit) exec" where
  "CuckooMkdirSubCreateHandle E infoArray =
     exec_bind (on_shards GetShardTableSize) (\<lambda>_.
     exec_bind (sub_create_groups E infoArray []) (\<lambda>groups.
     each (\<lambda>(shardId, is).
       exec_bind (exec_op (on_table (GetInodeShardName shardId) (\<lambda>h. (Inr (), h)))) (\<lambda>_.
       each (sub_create_info (GetInodeShardName shardId)) is)) (me_group_seq E groups)))"

section \<open>Reading a directory\<close>

datatype StreamSearchState = SAME_ID_GREATER_NAME | GREATER_ID | NEW_SHARD

definition lowerId :: "u64 \<Rightarrow> u64" where
  "lowerId directoryId = CombineParentIdWithPartId directoryId 0"

definition upperId :: "u64 \<Rightarrow> u64" where
  "upperId directoryId = CombineParentIdWithPartId directoryId PART_ID_MASK"

text \<open>The scan keys; the database compares the first column as signed numbers.\<close>

definition scan_matches :: "meta_env \<Rightarrow> u64 \<Rightarrow> string \<Rightarrow> StreamSearchState \<Rightarrow> inode_key \<Rightarrow> bool" where
  "scan_matches E directoryId lastFileName state key =
     (case state of
        SAME_ID_GREATER_NAME \<Rightarrow> fst key = parent_key E directoryId lastFileName \<and> me_name_gt E (snd key) lastFileName
      | GREATER_ID \<Rightarrow> sint (fst key) > sint (parent_key E directoryId lastFileName) \<and> sint (fst key) \<le> sint (upperId directoryId)
      | NEW_SHARD \<Rightarrow> sint (fst key) \<ge> sint (lowerId directoryId) \<and> sint (fst key) \<le> sint (upperId directoryId))"

fun next_state :: "StreamSearchState \<Rightarrow> StreamSearchState" where
  "next_state SAME_ID_GREATER_NAME = GREATER_ID"
| "next_state GREATER_ID = NEW_SHARD"
| "next_state NEW_SHARD = NEW_SHARD"

definition scan_shard :: "meta_env \<Rightarrow> int \<Rightarrow> (inode_key \<Rightarrow> bool) \<Rightarrow> (meta_state, (inode_key \<times> inode_row) list) exec" where
  "scan_shard E shardId matches =
     exec_op (on_table (GetInodeShardName shardId) (\<lambda>h. (Inr (me_index_seq E (filter (\<lambda>(k, row). matches k) (h_seen h))), h)))"

text \<open>The rows of a scan added to the result until it is long enough.\<close>

primrec read_rows :: "int \<Rightarrow> (inode_key \<times> inode_row) list \<Rightarrow> (string \<times> u32) list \<Rightarrow> (string \<times> u32) list" where
  "read_rows maxReadCount [] resultList = resultList"
| "read_rows maxReadCount (r # rs) resultList =
     (let resultList = resultList @ [(snd (fst r), row_mode (snd r))] in
      if int (length resultList) \<ge> maxReadCount then resultList else read_rows maxReadCount rs resultList)"

function read_loop ::
    "meta_env \<Rightarrow> u64 \<Rightarrow> string option \<Rightarrow> int \<Rightarrow> shard list \<Rightarrow> nat \<Rightarrow> StreamSearchState \<Rightarrow> (string \<times> u32) list
     \<Rightarrow> (meta_state, nat \<times> (string \<times> u32) list) exec" where
  "read_loop E directoryId lastFileName maxReadCount shardTableData shardIndex state resultList =
     (if shardIndex \<ge> length shardTableData then exec_return (shardIndex, resultList)
      else
        exec_bind (local_server_id E) (\<lambda>serverId.
        if shard_server (shardTableData ! shardIndex) \<noteq> serverId
        then read_loop E directoryId lastFileName maxReadCount shardTableData (Suc shardIndex) state resultList
        else if lastFileName = None \<and> state \<noteq> NEW_SHARD then (\<lambda>s. Faults)
        else
          exec_bind (scan_shard E (range_point (shardTableData ! shardIndex))
            (scan_matches E directoryId (or_else lastFileName []) state)) (\<lambda>found.
          if int (length (read_rows maxReadCount found resultList)) \<ge> maxReadCount
          then exec_return (shardIndex, read_rows maxReadCount found resultList)
          else read_loop E directoryId lastFileName maxReadCount shardTableData
                 (if next_state state = NEW_SHARD then Suc shardIndex else shardIndex) (next_state state)
                 (read_rows maxReadCount found resultList))))"
  by pat_completeness auto
termination
  by (relation "measure (\<lambda>(E, d, f, c, shards, k, state, rs).
        3 * (length shards - k) + (case state of SAME_ID_GREATER_NAME \<Rightarrow> 2 | GREATER_ID \<Rightarrow> 1 | NEW_SHARD \<Rightarrow> 0))")
    (auto split: StreamSearchState.splits elim: next_state.elims)

declare read_loop.simps [simp del]

text \<open>What is read once the directory is known: where to go on, or \<open>-1\<close>, and the entries.\<close>

definition read_page ::
    "meta_env \<Rightarrow> u64 \<Rightarrow> int \<Rightarrow> int \<Rightarrow> string option \<Rightarrow> (meta_state, int \<times> string option \<times> (string \<times> u32) list) exec" where
  "read_page E directoryId readDirMaxReadCount lastShardIndex lastFileName =
     (let maxReadCount = (if readDirMaxReadCount = - 1 then 2 ^ 31 - 1 else readDirMaxReadCount);
          firstCall = (lastShardIndex = - 1) in
      exec_bind (on_shards GetShardTableData) (\<lambda>shardTableData.
      if lastShardIndex < - 1 then (\<lambda>s. Faults)
      else
        exec_bind (read_loop E directoryId lastFileName maxReadCount shardTableData
          (if firstCall then 0 else nat lastShardIndex) (if firstCall then NEW_SHARD else SAME_ID_GREATER_NAME) [])
          (\<lambda>(shardIndex, resultList).
        if int (length resultList) < maxReadCount then exec_return (- 1, None, resultList)
        else if resultList = [] then (\<lambda>s. Faults)
        else exec_return (int shardIndex, Some (fst (last resultList)), resultList))))"

text \<open>A path that must lead to a directory.\<close>

definition open_directory :: "meta_env \<Rightarrow> string \<Rightarrow> (meta_state, u64) exec" where
  "open_directory E path =
     exec_bind (parse_path E path
       (PATH_PARSE_FLAG_ACQUIRE_SHARED_LOCK_IF_TARGET_IS_DIRECTORY OR PATH_PARSE_FLAG_TARGET_IS_DIRECTORY)
       (Some (mi_inodeId (me_fresh E 0)))) (\<lambda>out.
     exec_bind (raise_unless_ok (pp_code out)) (\<lambda>_.
     exec_return (or_else (out_inodeId out) (mi_inodeId (me_fresh E 0)))))"

definition CuckooReadDirHandle :: "meta_env \<Rightarrow> nat \<Rightarrow> (meta_state, unit) exec" where
  "CuckooReadDirHandle E i =
     exec_bind (exec_gets (info i)) (\<lambda>m.
     exec_bind (open_directory E (mi_path m)) (\<lambda>directoryId.
     exec_bind (read_page E directoryId (mi_readDirMaxReadCount m) (mi_readDirLastShardIndex m) (mi_readDirLastFileName m))
       (\<lambda>(lastShardIndex, lastFileName, resultList).
     exec_modify (set_info i (\<lambda>m. m\<lparr>mi_readDirLastShardIndex := lastShardIndex, mi_readDirLastFileName := lastFileName,
       mi_readDirResultList := resultList, mi_errorCode := SUCCESS\<rparr>)))))"

definition CuckooOpenDirHandle :: "meta_env \<Rightarrow> nat \<Rightarrow> (meta_state, unit) exec" where
  "CuckooOpenDirHandle E i =
     exec_bind (exec_gets (info i)) (\<lambda>m.
     exec_bind (open_directory E (mi_path m)) (\<lambda>directoryId.
     exec_modify (set_info i (\<lambda>m. m\<lparr>mi_inodeId := directoryId, mi_errorCode := SUCCESS\<rparr>))))"

section \<open>Rmdir\<close>

definition rmdir_result :: "meta_env \<Rightarrow> int \<Rightarrow> int \<times> PGresult list \<Rightarrow> (meta_state, unit) exec" where
  "rmdir_result E workerId r =
     (case r of (serverId, results) \<Rightarrow>
        if length results < 1 \<or> length results > 2 then exec_raise PROGRAM_ERROR
        else
          exec_bind (response_bytes (results ! 0)) (\<lambda>bytes.
          exec_bind (expect_success E RMDIR_SUB_RMDIR 1 bytes) (\<lambda>_.
          if length results = 1 then exec_return ()
          else
            exec_bind (response_bytes (results ! 1)) (\<lambda>bytes.
            if serverId \<noteq> workerId then exec_raise PROGRAM_ERROR
            else expect_success E RMDIR_SUB_UNLINK 1 bytes))))"

definition CuckooRmdirHandle :: "meta_env \<Rightarrow> nat \<Rightarrow> (meta_state, unit) exec" where
  "CuckooRmdirHandle E i =
     exec_bind (exec_gets (info i)) (\<lambda>m.
     exec_bind (local_server_id E) (\<lambda>serverId.
     if serverId \<noteq> CUCKOO_CN_SERVER_ID then exec_raise WRONG_WORKER
     else
       exec_bind (raise_unless_ok (fst (VerifyPathValidity (Some (mi_path m)) VERIFY_PATH_VALIDITY_REQUIREMENT_MUST_BE_DIRECTORY))) (\<lambda>_.
       exec_bind (on_rc (exec_modify (RegisterLocalProcessFlag False))) (\<lambda>_.
       exec_bind (parse_path E (mi_path m)
         (PATH_PARSE_FLAG_TARGET_IS_DIRECTORY OR PATH_PARSE_FLAG_TARGET_TO_BE_DELETED OR PATH_PARSE_FLAG_NOT_ROOT)
         (Some (mi_inodeId m))) (\<lambda>out.
       exec_bind (exec_modify (set_info i (take_out out))) (\<lambda>_.
       exec_bind (raise_unless_ok (pp_code out)) (\<lambda>_.
       exec_bind (exec_gets (info i)) (\<lambda>m.
       exec_bind (on_dirs (DeleteDirectoryByDirectoryHashTable (me_dir E) (mi_parentId m) (mi_name m) DIR_LOCK_NONE)) (\<lambda>_.
       exec_bind (exec_run (encode_params E RMDIR_SUB_RMDIR [m])) (\<lambda>param.
       exec_bind (all_foreign_servers E True False) (\<lambda>servers.
       exec_bind (on_rc (exec_op (CuckooMetaCallOnWorkerList RMDIR_SUB_RMDIR 1 param REMOTE_COMMAND_FLAG_WRITE servers))) (\<lambda>_.
       exec_bind (exec_modify (set_info i (\<lambda>m. m\<lparr>mi_parentId_partId := parent_key E (mi_parentId m) (mi_name m)\<rparr>))) (\<lambda>_.
       exec_bind (exec_gets (info i)) (\<lambda>m.
       exec_bind (search_shard E (mi_parentId_partId m)) (\<lambda>(shardId, workerId).
       exec_bind (meta_call E RMDIR_SUB_UNLINK [m] [workerId]) (\<lambda>_.
       exec_bind (send_and_wait E) (\<lambda>totalRemoteRes.
       each (rmdir_result E workerId) totalRemoteRes)))))))))))))))))"

text \<open>One shard must hold no entry of the directory.\<close>

definition shard_empty :: "meta_env \<Rightarrow> u64 \<Rightarrow> shard \<Rightarrow> (meta_state, unit) exec" where
  "shard_empty E directoryId r =
     exec_bind (local_server_id E) (\<lambda>serverId.
     if shard_server r \<noteq> serverId then exec_return ()
     else
       exec_bind (scan_shard E (range_point r) (scan_matches E directoryId [] NEW_SHARD)) (\<lambda>found.
       check_that (found = []) ARGUMENT_ERROR))"

definition CuckooRmdirSubRmdirHandle :: "meta_env \<Rightarrow> nat \<Rightarrow> (meta_state, unit) exec" where
  "CuckooRmdirSubRmdirHandle E i =
     exec_bind (exec_gets (info i)) (\<lambda>m.
     exec_bind (on_dirs (SearchDirectoryByDirectoryHashTable (me_dir E) (mi_parentId m) (mi_name m) DIR_LOCK_EXCLUSIVE)) (\<lambda>directoryId.
     if directoryId = DIR_HASH_TABLE_PATH_NOT_EXIST then exec_raise FILE_NOT_EXISTS
     else
       exec_bind (on_dirs (DeleteDirectoryByDirectoryHashTable (me_dir E) (mi_parentId m) (mi_name m) DIR_LOCK_NONE)) (\<lambda>_.
       exec_bind (on_shards GetShardTableData) (\<lambda>shardTableData.
       exec_bind (each (shard_empty E directoryId) shardTableData) (\<lambda>_.
       exec_modify (set_code i SUCCESS))))))"

definition CuckooRmdirSubUnlinkHandle :: "meta_env \<Rightarrow> nat \<Rightarrow> (meta_state, unit) exec" where
  "CuckooRmdirSubUnlinkHandle E i =
     exec_bind (exec_gets (info i)) (\<lambda>m.
     exec_bind (search_shard E (mi_parentId_partId m)) (\<lambda>(shardId, workerId).
     exec_bind (local_server_id E) (\<lambda>serverId.
     if workerId \<noteq> serverId then exec_raise ARGUMENT_ERROR
     else
       exec_bind (exec_op (SearchAndUpdateInodeTableInfo (GetInodeShardName shardId) (mi_parentId_partId m) (mi_name m)
         ((plain_request True)\<lparr>rq_nlink := True, rq_nlinkChangeNum := - 1\<rparr>))) (\<lambda>found.
       let nlink = (case found of None \<Rightarrow> mi_st_nlink (me_fresh E 0) | Some row \<Rightarrow> row_nlink row) in
       if nlink \<noteq> 1 then exec_raise PROGRAM_ERROR
       else if found = None then exec_raise FILE_NOT_EXISTS
       else exec_modify (set_code i SUCCESS)))))"

section \<open>Rename\<close>

definition rename_parse :: "meta_env \<Rightarrow> bool \<Rightarrow> u64 \<Rightarrow> string \<Rightarrow> bool \<Rightarrow> (meta_state, u64 \<times> string \<times> u64) exec" where
  "rename_parse E renameDirectory srcDirectoryId path isDst =
     exec_bind (parse_path E path
       (PATH_PARSE_FLAG_NOT_ROOT OR (if renameDirectory then PATH_PARSE_FLAG_TARGET_IS_DIRECTORY else 0)
        OR (if isDst then PATH_PARSE_FLAG_TARGET_TO_BE_CREATED OR PATH_PARSE_FLAG_INODE_ID_FOR_INPUT
            else PATH_PARSE_FLAG_TARGET_TO_BE_DELETED))
       (Some (if isDst then srcDirectoryId else mi_inodeId (me_fresh E 0)))) (\<lambda>out.
     exec_bind (raise_unless_ok (pp_code out)) (\<lambda>_.
     case out_fileName out of
       None \<Rightarrow> (\<lambda>s. Faults)
     | Some fileName \<Rightarrow>
         exec_return (or_else (out_parentId out) (mi_parentId (me_fresh E 0)), fileName,
           or_else (out_inodeId out) (mi_inodeId (me_fresh E 0)))))"

text \<open>The two paths in the order of \<^const>\<open>pathcmp\<close>: source and destination, and the position of the source.\<close>

definition rename_paths ::
    "meta_env \<Rightarrow> bool \<Rightarrow> u64 \<Rightarrow> string \<Rightarrow> string
     \<Rightarrow> (meta_state, (u64 \<times> string \<times> u64) \<times> (u64 \<times> string \<times> u64) \<times> int) exec" where
  "rename_paths E renameDirectory srcDirectoryId srcPath dstPath =
     (if pathcmp srcPath dstPath > 0
      then exec_bind (rename_parse E renameDirectory srcDirectoryId dstPath True) (\<lambda>dst.
           exec_bind (rename_parse E renameDirectory srcDirectoryId srcPath False) (\<lambda>src. exec_return (src, dst, 1)))
      else exec_bind (rename_parse E renameDirectory srcDirectoryId srcPath False) (\<lambda>src.
           exec_bind (rename_parse E renameDirectory srcDirectoryId dstPath True) (\<lambda>dst. exec_return (src, dst, 0))))"

text \<open>One server's answer; the attributes of a file that moves to another server are sent on to it.\<close>

definition rename_result ::
    "meta_env \<Rightarrow> int \<Rightarrow> int \<Rightarrow> u64 \<Rightarrow> string \<Rightarrow> int \<times> PGresult list \<Rightarrow> MetaProcessInfo \<Rightarrow> (meta_state, MetaProcessInfo) exec" where
  "rename_result E srcWorkerId dstWorkerId dstKey dstName r responseInfo =
     (case r of (serverId, results) \<Rightarrow>
        if length results \<noteq> 1 then exec_raise PROGRAM_ERROR
        else
          exec_bind (response_bytes (results ! 0)) (\<lambda>bytes.
          exec_bind (decode_response E RENAME_SUB_RENAME_LOCALLY bytes [responseInfo]) (\<lambda>infos.
          let responseInfo = infos ! 0 in
          if mi_errorCode responseInfo \<noteq> SUCCESS then exec_raise PROGRAM_ERROR
          else if srcWorkerId \<noteq> dstWorkerId \<and> serverId = srcWorkerId then
            let responseInfo = responseInfo\<lparr>mi_parentId_partId := dstKey, mi_name := dstName\<rparr> in
            exec_bind (meta_call E RENAME_SUB_CREATE [responseInfo] [dstWorkerId]) (\<lambda>_. exec_return responseInfo)
          else exec_return responseInfo)))"

primrec rename_results ::
    "meta_env \<Rightarrow> int \<Rightarrow> int \<Rightarrow> u64 \<Rightarrow> string \<Rightarrow> (int \<times> PGresult list) list \<Rightarrow> MetaProcessInfo \<Rightarrow> (meta_state, MetaProcessInfo) exec" where
  "rename_results E srcWorkerId dstWorkerId dstKey dstName [] responseInfo = exec_return responseInfo"
| "rename_results E srcWorkerId dstWorkerId dstKey dstName (r # rs) responseInfo =
     exec_bind (rename_result E srcWorkerId dstWorkerId dstKey dstName r responseInfo)
       (rename_results E srcWorkerId dstWorkerId dstKey dstName rs)"

definition rename_created :: "meta_env \<Rightarrow> int \<Rightarrow> MetaProcessInfo \<Rightarrow> (meta_state, unit) exec" where
  "rename_created E dstWorkerId responseInfo =
     exec_bind (send_and_wait E) (\<lambda>totalRemoteRes.
     case totalRemoteRes of
       [(serverId, [res])] \<Rightarrow>
         if serverId \<noteq> dstWorkerId then exec_raise PROGRAM_ERROR
         else
           exec_bind (response_bytes res) (\<lambda>bytes.
           exec_bind (decode_response E RENAME_SUB_CREATE bytes [responseInfo]) (\<lambda>infos.
           check_that (mi_errorCode (infos ! 0) = SUCCESS) PROGRAM_ERROR))
     | _ \<Rightarrow> exec_raise PROGRAM_ERROR)"

definition rename_directory_row :: "meta_env \<Rightarrow> u64 \<times> string \<times> u64 \<Rightarrow> u64 \<times> string \<times> u64 \<Rightarrow> (meta_state, unit) exec" where
  "rename_directory_row E src dst =
     exec_bind (on_dirs (DeleteDirectoryByDirectoryHashTable (me_dir E) (fst src) (fst (snd src)) DIR_LOCK_NONE)) (\<lambda>_.
     exec_bind (exec_modify CommandCounterIncrement) (\<lambda>_.
     exec_bind (on_dirs (InsertDirectoryByDirectoryHashTable (me_dir E) (fst dst) (fst (snd dst)) (snd (snd dst)) DIR_LOCK_NONE)) (\<lambda>_.
     exec_modify CommandCounterIncrement)))"

text \<open>The requests to all servers: the server of the file moves its row, all of them change their directory table.\<close>

definition rename_remote ::
    "meta_env \<Rightarrow> nat \<Rightarrow> u64 \<Rightarrow> u64 \<Rightarrow> int \<Rightarrow> int \<Rightarrow> (meta_state, (int \<times> PGresult list) list) exec" where
  "rename_remote E i srcKey dstKey srcWorkerId dstWorkerId =
     exec_bind (exec_modify (set_info i (\<lambda>m. m\<lparr>mi_parentId_partId := srcKey,
       mi_dstParentIdPartId := (if dstWorkerId = srcWorkerId then dstKey else 0)\<rparr>))) (\<lambda>_.
     exec_bind (exec_gets (info i)) (\<lambda>m.
     exec_bind (meta_call E RENAME_SUB_RENAME_LOCALLY [m] [srcWorkerId]) (\<lambda>_.
     exec_bind (exec_modify (set_info i (\<lambda>m. m\<lparr>mi_parentId_partId := 0, mi_dstParentIdPartId := 0\<rparr>))) (\<lambda>_.
     exec_bind (exec_gets (info i)) (\<lambda>m.
     exec_bind (exec_run (encode_params E RENAME_SUB_RENAME_LOCALLY [m])) (\<lambda>param.
     exec_bind (all_foreign_servers E True True) (\<lambda>servers.
     exec_bind (on_rc (exec_op (CuckooMetaCallOnWorkerList RENAME_SUB_RENAME_LOCALLY 1 param REMOTE_COMMAND_FLAG_WRITE
       (remove1 srcWorkerId servers)))) (\<lambda>_.
     send_and_wait E))))))))"

definition CuckooRenameHandle :: "meta_env \<Rightarrow> nat \<Rightarrow> (meta_state, unit) exec" where
  "CuckooRenameHandle E i =
     exec_bind (exec_gets (info i)) (\<lambda>m.
     exec_bind (local_server_id E) (\<lambda>serverId.
     if serverId \<noteq> 0 then exec_raise WRONG_WORKER
     else
       exec_bind (CheckWhetherPathExistsInDirectoryTable
         (\<lambda>pid name mode. on_dirs (SearchDirectoryByDirectoryHashTable (me_dir E) pid name mode)) (Some (mi_path m))) (\<lambda>srcDirectoryId.
       let srcProperty = snd (VerifyPathValidity (Some (mi_path m)) 0);
           renameDirectory = (srcDirectoryId \<noteq> DIR_HASH_TABLE_PATH_NOT_EXIST) in
       if renameDirectory \<and> srcProperty AND VERIFY_PATH_VALIDITY_PROPERTY_CAN_BE_DIRECTORY = 0 then exec_raise ARGUMENT_ERROR
       else if \<not> renameDirectory \<and> srcProperty AND VERIFY_PATH_VALIDITY_PROPERTY_CAN_BE_FILE = 0 then exec_raise ARGUMENT_ERROR
       else
         exec_bind (rename_paths E renameDirectory srcDirectoryId (mi_path m) (mi_dstPath m)) (\<lambda>(src, dst, srcIndex).
         exec_bind (if renameDirectory then rename_directory_row E src dst else exec_return ()) (\<lambda>_.
         exec_bind (exec_modify (set_info i (\<lambda>m. m\<lparr>mi_targetIsDirectory := renameDirectory, mi_inodeId := snd (snd dst),
           mi_srcLockOrder := srcIndex, mi_parentId := fst src, mi_name := fst (snd src), mi_dstParentId := fst dst,
           mi_dstName := fst (snd dst)\<rparr>))) (\<lambda>_.
         let srcKey = parent_key E (fst src) (fst (snd src)); dstKey = parent_key E (fst dst) (fst (snd dst)) in
         exec_bind (search_shard E srcKey) (\<lambda>(srcShardId, srcWorkerId).
         exec_bind (search_shard E dstKey) (\<lambda>(dstShardId, dstWorkerId).
         exec_bind (rename_remote E i srcKey dstKey srcWorkerId dstWorkerId) (\<lambda>totalRemoteRes.
         exec_bind (rename_results E srcWorkerId dstWorkerId dstKey (fst (snd dst)) totalRemoteRes (me_fresh E 0)) (\<lambda>responseInfo.
         exec_bind (if srcWorkerId \<noteq> dstWorkerId then rename_created E dstWorkerId responseInfo else exec_return ()) (\<lambda>_.
         exec_modify (set_code i SUCCESS)))))))))))) "

definition rename_locally_directory :: "meta_env \<Rightarrow> MetaProcessInfo \<Rightarrow> (meta_state, unit) exec" where
  "rename_locally_directory E m =
     (if mi_srcLockOrder m < 0 \<or> mi_srcLockOrder m > 1 then exec_raise ARGUMENT_ERROR
      else
        each (\<lambda>k. exec_bind
            (if k = mi_srcLockOrder m
             then on_dirs (DeleteDirectoryByDirectoryHashTable (me_dir E) (mi_parentId m) (mi_name m) DIR_LOCK_EXCLUSIVE)
             else on_dirs (InsertDirectoryByDirectoryHashTable (me_dir E) (mi_dstParentId m) (mi_dstName m) (mi_inodeId m) DIR_LOCK_EXCLUSIVE))
            (\<lambda>_. exec_modify CommandCounterIncrement)) [0, 1])"

definition fill_moved :: "inode_row \<Rightarrow> MetaProcessInfo \<Rightarrow> MetaProcessInfo" where
  "fill_moved row m = m\<lparr>mi_inodeId := row_ino row, mi_st_dev := row_dev row, mi_st_mode := row_mode row,
     mi_st_nlink := row_nlink row, mi_st_uid := row_uid row, mi_st_gid := row_gid row, mi_st_rdev := row_rdev row,
     mi_st_size := row_size row, mi_st_blksize := row_blksize row, mi_st_blocks := row_blocks row,
     mi_st_atim := row_atim row, mi_st_mtim := row_mtim row, mi_st_ctim := row_ctim row, mi_node_id := row_primary_nodeid row\<rparr>"

text \<open>The row is taken out of its table.\<close>

definition take_row :: "string \<Rightarrow> inode_key \<Rightarrow> (meta_state, inode_row) op" where
  "take_row rel key =
     op_bind (on_table rel (\<lambda>h. (Inr (heap_fetch h key), h))) (\<lambda>found.
       case found of
         None \<Rightarrow> (\<lambda>s. (Inl FILE_NOT_EXISTS, s))
       | Some row \<Rightarrow> op_bind (on_table rel (heap_delete key)) (\<lambda>_. op_bind next_command (\<lambda>_ s. (Inr row, s))))"

definition CuckooRenameSubRenameLocallyHandle :: "meta_env \<Rightarrow> nat \<Rightarrow> (meta_state, unit) exec" where
  "CuckooRenameSubRenameLocallyHandle E i =
     exec_bind (exec_gets (info i)) (\<lambda>m.
     exec_bind (if mi_targetIsDirectory m then rename_locally_directory E m else exec_return ()) (\<lambda>_.
     if mi_parentId_partId m = 0 then exec_modify (set_code i SUCCESS)
     else
       exec_bind (search_shard E (mi_parentId_partId m)) (\<lambda>(srcShardId, srcWorkerId).
       exec_bind (local_server_id E) (\<lambda>serverId.
       if srcWorkerId \<noteq> serverId then exec_raise WRONG_WORKER
       else
         exec_bind (exec_op (take_row (GetInodeShardName srcShardId) (mi_parentId_partId m, mi_name m))) (\<lambda>row.
         exec_bind
           (if mi_dstParentIdPartId m \<noteq> 0
            then
              exec_bind (search_shard E (mi_dstParentIdPartId m)) (\<lambda>(dstShardId, dstWorkerId).
              exec_bind (local_server_id E) (\<lambda>serverId.
              if dstWorkerId \<noteq> serverId then exec_raise WRONG_WORKER
              else exec_op (InsertIntoInodeTable (GetInodeShardName dstShardId) (mi_dstParentIdPartId m) (mi_dstName m) row)))
            else exec_modify (set_info i (fill_moved row))) (\<lambda>_.
         exec_modify (set_code i SUCCESS)))))))"

definition moved_row :: "MetaProcessInfo \<Rightarrow> inode_row" where
  "moved_row m = \<lparr>row_ino = mi_inodeId m, row_dev = mi_st_dev m, row_mode = mi_st_mode m, row_nlink = mi_st_nlink m,
     row_uid = mi_st_uid m, row_gid = mi_st_gid m, row_rdev = mi_st_rdev m, row_size = mi_st_size m,
     row_blksize = mi_st_blksize m, row_blocks = mi_st_blocks m, row_atim = mi_st_atim m, row_mtim = mi_st_mtim m,
     row_ctim = mi_st_ctim m, row_etag = [], row_update_version = 0, row_primary_nodeid = mi_node_id m, row_backup_nodeid = - 1\<rparr>"

definition CuckooRenameSubCreateHandle :: "meta_env \<Rightarrow> nat \<Rightarrow> (meta_state, unit) exec" where
  "CuckooRenameSubCreateHandle E i =
     exec_bind (exec_gets (info i)) (\<lambda>m.
     exec_bind (search_shard E (mi_parentId_partId m)) (\<lambda>(shardId, workerId).
     exec_bind (local_server_id E) (\<lambda>serverId.
     if workerId \<noteq> serverId then exec_raise WRONG_WORKER
     else
       exec_bind (exec_op (InsertIntoInodeTable (GetInodeShardName shardId) (mi_parentId_partId m) (mi_name m) (moved_row m))) (\<lambda>_.
       exec_modify (set_code i SUCCESS)))))"

end
