(* ===== verification/Meta_Example.thy ===== *)
theory Meta_Example
  imports Meta_Dirs "HOL-Library.Product_Lexorder" "HOL-Library.List_Lexorder" "HOL-Library.Char_ord"
begin

text \<open>
  A small metadata server: one shard, a directory with a file and a directory in it, and concrete
  instances of everything the handlers take from outside. The examples of the other theories run on it.
\<close>

definition file_row :: "u64 \<Rightarrow> u32 \<Rightarrow> inode_row" where
  "file_row ino mode = \<lparr>row_ino = ino, row_dev = 0, row_mode = mode, row_nlink = 1, row_uid = 0, row_gid = 0, row_rdev = 0,
     row_size = 12, row_blksize = 0, row_blocks = 0, row_atim = 5, row_mtim = 5, row_ctim = 5, row_etag = [],
     row_update_version = 0, row_primary_nodeid = 3, row_backup_nodeid = - 1\<rparr>"

text \<open>An index that compares names byte by byte.\<close>

definition index_key :: "inode_key \<times> inode_row \<Rightarrow> int \<times> string" where
  "index_key r = (sint (fst (fst r)), snd (fst r))"

definition small_meta_env :: meta_env where
  "small_meta_env = \<lparr>me_dir = small_env, me_pq = cluster_env, me_hash = (\<lambda>x. x), me_signed = True, me_nextval = of_nat,
     me_clock = of_nat, me_qsort = (\<lambda>f is. is), me_group_seq = (\<lambda>gs. gs), me_index_seq = sort_key index_key,
     me_name_gt = (\<lambda>a b. b < a), me_fb = byte_fb, me_little = True, me_mm = zeroing_mm, me_fresh = (\<lambda>i. path_request [])\<rparr>"

definition small_server :: rc_state where
  "small_server = coordinator\<lparr>rc_servers := cluster_servers\<lparr>LocalServerId := 1\<rparr>\<rparr>"

text \<open>One shard, with a file and a directory in \<^verbatim>\<open>/a\<close>, whose inode id is 7, and requests for a new and the two old names.\<close>

definition small_meta :: meta_state where
  "small_meta = \<lparr>m_dirs = small_dir, m_root = Some (PPNode 0 PP_SHARED [(''/'', PPNode 1 PP_SHARED [(''a'', PPNode 7 PP_SHARED [])])]),
     m_remote = small_server,
     m_shards = \<lparr>st_table = [\<lparr>range_point = 2147483647, shard_server = 1\<rparr>],
       st_cache = [\<lparr>range_point = 2147483647, shard_server = 1\<rparr>], st_invalid = False\<rparr>,
     m_inodes = [GetInodeShardName 2147483647 \<mapsto> heap_of
       [((parent_key small_meta_env 7 ''b'', ''b''), file_row 21 (S_IFREG OR 0x1A4)),
        ((parent_key small_meta_env 7 ''d'', ''d''), file_row 22 (S_IFDIR OR 0x1ED))]],
     m_seq = \<lparr>remainNumberCount = 0, currentSequenceNumber = 0\<rparr>, m_draws = 0, m_ticks = 0,
     m_infos = map path_request [''/a/f'', ''/a/b'', ''/a/d'']\<rparr>"

lemma small_meta_settled: "tables_settled small_meta"
  by (simp add: settled_iff small_meta_def small_dir_def DirPathShmemInit_def heap_of_def heap_next_command_def
      small_server_def coordinator_def fun_eq_iff)

lemma small_meta_env_ok: "env_ok small_meta_env"
  using small_env_scans by (simp add: env_ok_def small_meta_env_def)

lemma small_meta_wf: "dir_wf (me_dir small_meta_env) (m_dirs small_meta)"
  using small_dir_inv by (simp add: small_meta_env_def small_meta_def dir_inv_def cache_ok_def)

lemma small_meta_infos: "length (m_infos small_meta) = 3"
  by (simp add: small_meta_def)

lemma small_sizes: "m_shards s = m_shards small_meta \<Longrightarrow> on_shards GetShardTableSize s = Returns (Inr 1, s)"
  by (subst (asm) small_meta_def, cases s)
    (simp add: on_part_def GetShardTableSize_def with_current_shards_def reload_while.simps)

lemma small_search_shard:
  assumes "m_shards s = m_shards small_meta"
  shows "search_shard small_meta_env key s = Returns (Inr (2147483647, 1), s)"
proof -
  let ?r = "\<lparr>range_point = 2147483647, shard_server = 1\<rparr> :: shard"
  have "HashShard (\<lambda>x. x) key \<le> 2147483647" using HashShard_le_max [of "\<lambda>x. x" key] by (simp add: SHARD_TABLE_RANGE_MAX_def)
  then have "search_loop [?r] (HashShard (\<lambda>x. x) key) 0 1 = 0" by (subst search_loop.simps, simp, subst search_loop.simps, simp)
  then show ?thesis using assms unfolding search_shard_def on_part_def SearchShardInfoByShardValue_def
    by (cases s) (simp add: with_current_shards_def reload_while.simps small_meta_def small_meta_env_def Let_def)
qed

lemma small_local_id: "m_remote s = small_server \<Longrightarrow> local_server_id small_meta_env s = Returns (Inr 1, s)"
  by (cases s) (simp add: local_server_id_def on_part_def on_servers_def GetLocalServerId_def op_bind_def small_server_def
      coordinator_def cluster_servers_def small_meta_env_def)

lemma small_parse:
  "m_root s = m_root small_meta \<Longrightarrow> parse_path small_meta_env ''/a/b'' 0 None s
     = Returns (Inr \<lparr>pp_code = SUCCESS, out_parentId = Some 7, out_fileName = Some ''b'', out_inodeId = None\<rparr>, s)"
  by (cases s) (simp add: parse_path_def small_meta_def PathParseTreeInsert_def pp_walk.simps find_child_def set_child_def
      pp_target_def has_flag_def)

lemma small_meta_remote: "m_remote small_meta = small_server"
  by (simp add: small_meta_def)

end
