(* ===== verification/Meta_Files.thy ===== *)
theory Meta_Files
  imports Meta_Example
begin

text \<open>
  What the handlers for files do to the rows of the inode tables: \<^verbatim>\<open>CuckooCreateHandle\<close> with its
  subtransactions and retries creates the files of a batch one after the other, and the reports of
  \<^verbatim>\<open>CuckooCreateHandle\<close> and \<^verbatim>\<open>CuckooUnlinkHandle\<close> agree with the tables.
\<close>

section \<open>Batched creation is creation one by one\<close>

text \<open>
  The reference: a request creates its row, or finds that it exists and reports it. The handler inserts up
  to eight rows in a subtransaction, and when one of them exists rolls all of them back, marks that
  request and starts again.
\<close>

definition create_one :: "string \<Rightarrow> nat \<Rightarrow> meta_state \<Rightarrow> meta_state" where
  "create_one rel i s =
     (let m = info i s; key = (mi_parentId_partId m, mi_name m) in
      case rows rel s key of
        Some row \<Rightarrow> set_info i (\<lambda>m. (fill_open row m)\<lparr>mi_errorCode := FILE_EXISTS\<rparr>) s
      | None \<Rightarrow> with_heap rel (\<lambda>h. h\<lparr>h_now := h_now h @ [(key, created_row m)]\<rparr>) s)"

lemma fill_open_sel [simp]:
  "mi_parentId_partId (fill_open row m) = mi_parentId_partId m" "mi_name (fill_open row m) = mi_name m"
  "mi_errorCode (fill_open row m) = mi_errorCode m"
  by (simp_all add: fill_open_def)

lemma create_one_sel [simp]:
  "m_inodes (create_one rel i s) rel' = None \<longleftrightarrow> m_inodes s rel' = None"
  "tables_settled s \<Longrightarrow> tables_settled (create_one rel i s)"
  "length (m_infos (create_one rel i s)) = length (m_infos s)"
  "i \<noteq> j \<Longrightarrow> info j (create_one rel i s) = info j s"
  by (auto simp: create_one_def Let_def info_def set_info_def split: option.splits)

text \<open>Requests that are known to exist may already be marked and filled in.\<close>

definition same_after :: "MetaProcessInfo \<Rightarrow> MetaProcessInfo \<Rightarrow> bool" where
  "same_after m m' \<longleftrightarrow> (\<forall>row. (fill_open row m)\<lparr>mi_errorCode := FILE_EXISTS\<rparr> = (fill_open row m')\<lparr>mi_errorCode := FILE_EXISTS\<rparr>)
     \<and> mi_errorCode m \<in> {SUCCESS, FILE_EXISTS}"

lemma same_after_key: "same_after m m' \<Longrightarrow> mi_parentId_partId m = mi_parentId_partId m' \<and> mi_name m = mi_name m'"
  by (cases m; cases m') (auto simp: same_after_def fill_open_def)

primrec agrees :: "string \<Rightarrow> nat list \<Rightarrow> MetaProcessInfo list \<Rightarrow> meta_state \<Rightarrow> bool" where
  "agrees rel [] ms s \<longleftrightarrow> ms = m_infos s"
| "agrees rel (i # is) ms s \<longleftrightarrow>
     i < length (m_infos s) \<and> length ms = length (m_infos s) \<and> mi_errorCode (info i s) = SUCCESS
     \<and> (if rows rel s (mi_parentId_partId (info i s), mi_name (info i s)) = None then ms ! i = info i s
        else same_after (ms ! i) (info i s))
     \<and> agrees rel is (ms[i := info i (create_one rel i s)]) (create_one rel i s)"

lemma agrees_length: "agrees rel is ms s \<Longrightarrow> length ms = length (m_infos s)"
  by (cases "is") auto

lemma agrees_range: "agrees rel is ms s \<Longrightarrow> i \<in> set is \<Longrightarrow> i < length (m_infos s)"
proof (induction "is" arbitrary: ms s)
  case (Cons j "is")
  then show ?case using Cons.IH [of _ "create_one rel j s"] by auto
qed simp

lemma agrees_outside: "agrees rel is ms s \<Longrightarrow> j \<notin> set is \<Longrightarrow> ms ! j = info j s"
proof (induction "is" arbitrary: ms s)
  case (Cons i "is")
  have "agrees rel is (ms[i := info i (create_one rel i s)]) (create_one rel i s)" using Cons.prems(1) by simp
  from Cons.IH [OF this] Cons.prems(2) show ?case by simp
qed (simp add: info_def)

lemma agrees_self:
  "distinct is \<Longrightarrow> \<forall>i \<in> set is. i < length (m_infos s) \<and> mi_errorCode (info i s) = SUCCESS \<Longrightarrow> agrees rel is (m_infos s) s"
proof (induction "is" arbitrary: s)
  case (Cons i "is")
  have "m_infos (create_one rel i s) = (m_infos s)[i := info i (create_one rel i s)]"
    using Cons.prems(2) by (auto simp: create_one_def Let_def set_info_def info_def split: option.splits)
  moreover have other: "info j (create_one rel i s) = info j s" if "j \<in> set is" for j
    using that Cons.prems(1) by (intro create_one_sel(4)) auto
  have "agrees rel is (m_infos (create_one rel i s)) (create_one rel i s)"
    using Cons.prems other by (intro Cons.IH) auto
  with calculation show ?case using Cons.prems by (simp add: info_def same_after_def)
qed simp

lemma rolled_back_twice [simp]: "rolled_back a (rolled_back b s) = rolled_back a s"
  by (simp add: rolled_back_def)

lemma rolled_back_infos: "rolled_back s (s\<lparr>m_infos := ms\<rparr>) = s\<lparr>m_infos := ms\<rparr>"
  by (cases s) (simp add: rolled_back_def)

lemma rolled_back_create_one: "rolled_back s ((create_one rel i s)\<lparr>m_infos := ms\<rparr>) = s\<lparr>m_infos := ms\<rparr>"
  by (cases s) (simp add: rolled_back_def create_one_def Let_def with_heap_def CommandCounterIncrement_def set_info_def split: option.splits)

lemma create_one_same:
  "i < length (m_infos s) \<Longrightarrow>
   if rows rel s (mi_parentId_partId (info i s), mi_name (info i s)) = None then info i (create_one rel i s) = info i s
   else same_after (info i (create_one rel i s)) (info i s)"
  by (auto simp: create_one_def Let_def info_def same_after_def fill_open_def set_info_def split: option.splits)

text \<open>One request of a group: done as the reference does it, or found to exist for the first time.\<close>

lemma create_group_step:
  assumes "tables_settled s" "m_inodes s rel \<noteq> None" "agrees rel (i # is) ms s" "n \<noteq> 0"
  defines "s1 \<equiv> create_one rel i s" and "ms1 \<equiv> ms[i := info i (create_one rel i s)]"
  obtains (go_on) n' where "create_group rel (i # is) n (s\<lparr>m_infos := ms\<rparr>) = create_group rel is n' (s1\<lparr>m_infos := ms1\<rparr>)"
      "\<forall>j. mi_errorCode (ms1 ! j) = mi_errorCode (ms ! j)"
  | (exists) "create_group rel (i # is) n (s\<lparr>m_infos := ms\<rparr>) = (Inl i, s\<lparr>m_infos := ms\<rparr>)"
      "mi_errorCode (ms ! i) = SUCCESS" "agrees rel (i # is) (ms[i := (ms ! i)\<lparr>mi_errorCode := FILE_EXISTS\<rparr>]) s"
proof -
  let ?k = "(mi_parentId_partId (info i s), mi_name (info i s))"
  have i: "i < length ms" "i < length (m_infos s)" "mi_errorCode (info i s) = SUCCESS" using assms(3) by auto
  show thesis
  proof (cases "rows rel s ?k")
    case None
    then have m: "ms ! i = info i s" using assms(3) by simp
    have "info i s1 = info i s" using None by (simp add: s1_def create_one_def Let_def info_def)
    then have "ms1 = ms" using m list_update_id [of ms i] by (simp add: ms1_def s1_def)
    moreover have "create_group rel (i # is) n (s\<lparr>m_infos := ms\<rparr>) = create_group rel is (n - 1) (s1\<lparr>m_infos := ms\<rparr>)"
      using None m i assms(2,4) by (simp add: info_def Insert_settled s1_def create_one_def Let_def)
    ultimately show thesis using go_on by simp
  next
    case (Some row)
    then have m: "same_after (ms ! i) (info i s)" using assms(3) by simp
    note key = same_after_key [OF m]
    show thesis
    proof (cases "mi_errorCode (ms ! i) = SUCCESS")
      case True
      then have "create_group rel (i # is) n (s\<lparr>m_infos := ms\<rparr>) = (Inl i, s\<lparr>m_infos := ms\<rparr>)"
        using Some key assms(2,4) by (simp add: info_def Insert_settled)
      moreover have "agrees rel (i # is) (ms[i := (ms ! i)\<lparr>mi_errorCode := FILE_EXISTS\<rparr>]) s"
        using assms(3) Some m i by (simp add: same_after_def fill_open_def)
      ultimately show thesis using exists True by blast
    next
      case False
      then have fe: "mi_errorCode (ms ! i) = FILE_EXISTS" using m by (auto simp: same_after_def)
      have "info i s1 = (fill_open row (info i s))\<lparr>mi_errorCode := FILE_EXISTS\<rparr>"
        using Some i(2) by (simp add: s1_def create_one_def Let_def)
      also have "\<dots> = (fill_open row (ms ! i))\<lparr>mi_errorCode := FILE_EXISTS\<rparr>" using m unfolding same_after_def by metis
      also have "\<dots> = fill_open row (ms ! i)" using fe by (cases "ms ! i") (simp add: fill_open_def)
      finally have new: "info i s1 = fill_open row (ms ! i)" .
      have "SearchAndUpdateInodeTableInfo rel (mi_parentId_partId (ms ! i)) (mi_name (ms ! i))
          ((plain_request False)\<lparr>rq_nlink := True\<rparr>) (s\<lparr>m_infos := ms\<rparr>) = (Inr (Some row), s\<lparr>m_infos := ms\<rparr>)"
        using fetch_settled [of "s\<lparr>m_infos := ms\<rparr>" rel ?k] assms(1,2) Some key
        by (simp add: SearchAndUpdateInodeTableInfo_def op_bind_def plain_request_def)
      then have "create_group rel (i # is) n (s\<lparr>m_infos := ms\<rparr>) = create_group rel is n (set_info i (fill_open row) (s\<lparr>m_infos := ms\<rparr>))"
        using fe assms(4) by (simp add: info_def)
      also have "set_info i (fill_open row) (s\<lparr>m_infos := ms\<rparr>) = s1\<lparr>m_infos := ms1\<rparr>"
        using Some new by (simp add: set_info_def ms1_def s1_def [symmetric]) (simp add: s1_def create_one_def Let_def set_info_def)
      finally show thesis using go_on new i(1) by (simp add: ms1_def s1_def [symmetric] nth_list_update fill_open_def)
    qed
  qed
qed

lemma create_group_agrees:
  "tables_settled s \<Longrightarrow> m_inodes s rel \<noteq> None \<Longrightarrow> agrees rel is ms s \<Longrightarrow> distinct is \<Longrightarrow>
   (\<exists>front rest ms'. is = front @ rest \<and> (n \<noteq> 0 \<and> is \<noteq> [] \<longrightarrow> front \<noteq> [])
        \<and> create_group rel is n (s\<lparr>m_infos := ms\<rparr>) = (Inr rest, (fold (create_one rel) front s)\<lparr>m_infos := ms'\<rparr>)
        \<and> agrees rel rest ms' (fold (create_one rel) front s) \<and> (\<forall>j. mi_errorCode (ms' ! j) = mi_errorCode (ms ! j)))
   \<or> (\<exists>i s' ms'. create_group rel is n (s\<lparr>m_infos := ms\<rparr>) = (Inl i, s') \<and> i \<in> set is
        \<and> rolled_back s s' = s\<lparr>m_infos := ms'\<rparr> \<and> mi_errorCode (ms ! i) = SUCCESS
        \<and> (\<forall>j. mi_errorCode (ms' ! j) = mi_errorCode (ms ! j))
        \<and> agrees rel is (ms'[i := (ms' ! i)\<lparr>mi_errorCode := FILE_EXISTS\<rparr>]) s)"
proof (induction "is" arbitrary: s ms n)
  case Nil
  then show ?case by simp
next
  case (Cons i "is")
  show ?case
  proof (cases "n = 0")
    case True
    then show ?thesis using Cons.prems by (intro disjI1 exI [of _ "[]"] exI [of _ "i # is"] exI [of _ ms]) simp
  next
    case False
    let ?s1 = "create_one rel i s" and ?ms1 = "ms[i := info i (create_one rel i s)]"
    from Cons.prems(1-3) False show ?thesis
    proof (cases rule: create_group_step)
      case exists
      then show ?thesis using rolled_back_infos by (intro disjI2 exI [of _ i] exI [of _ "s\<lparr>m_infos := ms\<rparr>"] exI [of _ ms])
        (simp del: create_group.simps agrees.simps)
    next
      case (go_on n')
      have a: "agrees rel is ?ms1 ?s1" using Cons.prems(3) by simp
      have "tables_settled ?s1" "m_inodes ?s1 rel \<noteq> None" "distinct is" using Cons.prems by simp_all
      from Cons.IH [OF this(1,2) a this(3), of n'] show ?thesis
      proof (elim disjE exE conjE)
        fix front rest ms'
        assume r: "is = front @ rest" "create_group rel is n' (?s1\<lparr>m_infos := ?ms1\<rparr>) = (Inr rest, (fold (create_one rel) front ?s1)\<lparr>m_infos := ms'\<rparr>)"
          "agrees rel rest ms' (fold (create_one rel) front ?s1)" "\<forall>j. mi_errorCode (ms' ! j) = mi_errorCode (?ms1 ! j)"
        then show ?thesis using go_on by (intro disjI1 exI [of _ "i # front"] exI [of _ rest] exI [of _ ms'])
          (simp del: create_group.simps)
      next
        fix j s' ms'
        assume r: "create_group rel is n' (?s1\<lparr>m_infos := ?ms1\<rparr>) = (Inl j, s')" "j \<in> set is" "rolled_back ?s1 s' = ?s1\<lparr>m_infos := ms'\<rparr>"
          "mi_errorCode (?ms1 ! j) = SUCCESS" "\<forall>j. mi_errorCode (ms' ! j) = mi_errorCode (?ms1 ! j)"
          and marked: "agrees rel is (ms'[j := (ms' ! j)\<lparr>mi_errorCode := FILE_EXISTS\<rparr>]) ?s1"
        let ?ms2 = "ms'[j := (ms' ! j)\<lparr>mi_errorCode := FILE_EXISTS\<rparr>]"
        have "rolled_back s s' = rolled_back s (?s1\<lparr>m_infos := ms'\<rparr>)" using r(3) by (metis rolled_back_twice)
        then have undone: "rolled_back s s' = s\<lparr>m_infos := ms'\<rparr>" by (simp add: rolled_back_create_one)
        have "?ms2 ! i = info i ?s1" by (rule agrees_outside [OF marked]) (use Cons.prems(4) in simp)
        moreover from this have "?ms2[i := info i ?s1] = ?ms2" by (metis list_update_id)
        ultimately have "agrees rel (i # is) ?ms2 s"
          using Cons.prems(3) marked agrees_length [OF marked] create_one_same [of i s rel] by simp
        then show ?thesis using go_on r undone
          by (intro disjI2 exI [of _ j] exI [of _ s'] exI [of _ ms']) (simp del: create_group.simps agrees.simps)
      qed
    qed
  qed
qed

lemma rolled_back_with_infos [simp]: "rolled_back (s\<lparr>m_infos := ms\<rparr>) s' = rolled_back s s'"
  by (simp add: rolled_back_def)

lemma settled_create_each [simp]: "tables_settled s \<Longrightarrow> tables_settled (fold (create_one rel) is s)"
  by (induction "is" arbitrary: s) simp_all

lemma table_create_each [simp]: "m_inodes (fold (create_one rel) is s) rel' = None \<longleftrightarrow> m_inodes s rel' = None"
  by (induction "is" arbitrary: s) simp_all

lemma settled_next [simp]: "tables_settled s \<Longrightarrow> CommandCounterIncrement s = s"
  by (simp add: tables_settled_def)

text \<open>The outer loop ends: a group either completes requests or marks one more of them.\<close>

definition unmarked :: "nat list \<Rightarrow> MetaProcessInfo list \<Rightarrow> nat set" where
  "unmarked todo ms = {i \<in> set todo. mi_errorCode (ms ! i) = SUCCESS}"

lemma unmarked_shrinks:
  assumes "\<forall>j. mi_errorCode (ms' ! j) = mi_errorCode (ms ! j)" "i \<in> set todo" "i < length ms'" "mi_errorCode (ms ! i) = SUCCESS"
  shows "card (unmarked todo (ms'[i := (ms' ! i)\<lparr>mi_errorCode := FILE_EXISTS\<rparr>])) < card (unmarked todo ms)"
  by (rule psubset_card_mono) (use assms in \<open>auto simp: unmarked_def nth_list_update split: if_splits\<close>)

lemma unmarked_rest:
  assumes "\<forall>j. mi_errorCode (ms' ! j) = mi_errorCode (ms ! j)"
  shows "card (unmarked rest ms') \<le> card (unmarked (front @ rest) ms)"
  by (rule card_mono) (use assms in \<open>auto simp: unmarked_def\<close>)

lemma create_loop_sequential:
  "tables_settled s \<Longrightarrow> m_inodes s rel \<noteq> None \<Longrightarrow> agrees rel todo ms s \<Longrightarrow> distinct todo \<Longrightarrow>
   create_loop rel False todo (s\<lparr>m_infos := ms\<rparr>) = Some (Inr (), fold (create_one rel) todo s)"
proof (induction "length todo + card (unmarked todo ms)" arbitrary: todo ms s rule: less_induct)
  case less
  show ?case
  proof (cases "todo = []")
    case True
    then show ?thesis using less.prems by (subst create_loop.simps) simp
  next
    case False
    have size: "BATCH_OPERATION_GROUP_SIZE \<noteq> 0" by (simp add: BATCH_OPERATION_GROUP_SIZE_def)
    from create_group_agrees [OF less.prems, of BATCH_OPERATION_GROUP_SIZE] show ?thesis
    proof (elim disjE exE conjE)
      fix front rest ms'
      assume r: "todo = front @ rest" "BATCH_OPERATION_GROUP_SIZE \<noteq> 0 \<and> todo \<noteq> [] \<longrightarrow> front \<noteq> []"
        "create_group rel todo BATCH_OPERATION_GROUP_SIZE (s\<lparr>m_infos := ms\<rparr>) = (Inr rest, (fold (create_one rel) front s)\<lparr>m_infos := ms'\<rparr>)"
        "agrees rel rest ms' (fold (create_one rel) front s)" "\<forall>j. mi_errorCode (ms' ! j) = mi_errorCode (ms ! j)"
      have "0 < length front" using r(2) size False by simp
      then have "length rest + card (unmarked rest ms') < length todo + card (unmarked todo ms)"
        using unmarked_rest [OF r(5), of rest front] r(1) by (cases front) simp_all
      then have "create_loop rel False rest ((fold (create_one rel) front s)\<lparr>m_infos := ms'\<rparr>)
          = Some (Inr (), fold (create_one rel) rest (fold (create_one rel) front s))"
        by (rule less.hyps) (use r(1,4) less.prems in auto)
      then show ?thesis using r(1,3) False less.prems(1,2) by (subst create_loop.simps) auto
    next
      fix i s' ms'
      assume r: "create_group rel todo BATCH_OPERATION_GROUP_SIZE (s\<lparr>m_infos := ms\<rparr>) = (Inl i, s')" "i \<in> set todo"
        "rolled_back s s' = s\<lparr>m_infos := ms'\<rparr>" "mi_errorCode (ms ! i) = SUCCESS"
        "\<forall>j. mi_errorCode (ms' ! j) = mi_errorCode (ms ! j)"
        "agrees rel todo (ms'[i := (ms' ! i)\<lparr>mi_errorCode := FILE_EXISTS\<rparr>]) s"
      let ?ms = "ms'[i := (ms' ! i)\<lparr>mi_errorCode := FILE_EXISTS\<rparr>]"
      have "i < length ms'" using agrees_length [OF r(6)] agrees_range [OF less.prems(3)] r(2) by simp
      then have "create_loop rel False todo (s\<lparr>m_infos := ?ms\<rparr>) = Some (Inr (), fold (create_one rel) todo s)"
        by (intro less.hyps) (use unmarked_shrinks [OF r(5,2) _ r(4)] r(6) less.prems in simp_all)
      then show ?thesis using r(1,3) False less.prems(2) by (subst create_loop.simps) (simp add: Let_def set_code_def set_info_def)
    qed
  qed
qed

lemma create_shard_sequential:
  assumes "tables_settled s" "m_inodes s (GetInodeShardName shardId) \<noteq> None" "distinct is" "\<forall>i \<in> set is. i < length (m_infos s)"
  shows "create_shard False shardId is s =
     Returns (Inr (), fold (create_one (GetInodeShardName shardId)) (filter (\<lambda>i. mi_errorCode (info i s) = SUCCESS) is) s)"
proof -
  let ?todo = "filter (\<lambda>i. mi_errorCode (info i s) = SUCCESS) is"
  have "agrees (GetInodeShardName shardId) ?todo (m_infos s) s" by (rule agrees_self) (use assms(3,4) in auto)
  then have "create_loop (GetInodeShardName shardId) False ?todo (s\<lparr>m_infos := m_infos s\<rparr>)
      = Some (Inr (), fold (create_one (GetInodeShardName shardId)) ?todo s)"
    by (rule create_loop_sequential [OF assms(1,2)]) (use assms(3) in simp)
  then show ?thesis using assms(2) by (simp add: create_shard_def exec_bind_def exec_loop_def)
qed

section \<open>The create handler\<close>

lemma create_attributes_prepares: "prepares E (create_attributes E)"
proof -
  have "exec_keeps (untouched E {i}) (create_attributes E i)" for i
    unfolding create_attributes_def by (intro resolve_untouched) simp
  moreover have "exec_keeps (\<lambda>s s'. mi_errorCode (info i s') = mi_errorCode (info i s)) (create_attributes E i)" for i
    by (simp add: exec_keeps_def create_attributes_def GetCurrentTimestamp_def set_info_code exec_bind_def) (simp add: info_def)
  ultimately show ?thesis by (simp add: prepares_def)
qed

lemma fold_create_pairs: "fold (\<lambda>(rel, i). create_one rel i) (map (Pair rel) is) = fold (create_one rel) is"
  by (induction "is") auto

lemma create_each_length [simp]: "length (m_infos (fold (create_one rel) is s)) = length (m_infos s)"
  by (induction "is" arbitrary: s) simp_all

lemma create_each_other: "j \<notin> set is \<Longrightarrow> info j (fold (create_one rel) is s) = info j s"
  by (induction "is" arbitrary: s) auto

lemma create_groups:
  "tables_settled s \<Longrightarrow> \<forall>g \<in> set gs. m_inodes s (GetInodeShardName (fst g)) \<noteq> None \<Longrightarrow> distinct (members gs)
     \<Longrightarrow> \<forall>i \<in> set (members gs). i < length (m_infos s) \<and> ok_in s i
     \<Longrightarrow> each (\<lambda>(shardId, is). create_shard False shardId is) gs s = Returns (Inr (), fold (\<lambda>(rel, i). create_one rel i) (group_pairs gs) s)"
proof (induction gs arbitrary: s)
  case (Cons g gs)
  obtain shardId "is" where g: "g = (shardId, is)" by (cases g)
  let ?rel = "GetInodeShardName shardId"
  let ?s = "fold (create_one ?rel) is s"
  have "filter (ok_in s) is = is" using Cons.prems(4) g by (simp add: filter_id_conv)
  then have one: "create_shard False shardId is s = Returns (Inr (), ?s)"
    using create_shard_sequential [of s shardId "is"] Cons.prems g by simp
  have "info j ?s = info j s" if "j \<in> set (members gs)" for j
    by (rule create_each_other) (use that Cons.prems(3) g in auto)
  then have "each (\<lambda>(shardId, is). create_shard False shardId is) gs ?s = Returns (Inr (), fold (\<lambda>(rel, i). create_one rel i) (group_pairs gs) ?s)"
    using Cons.prems g by (intro Cons.IH) auto
  then show ?case using one g by (simp add: fold_create_pairs)
qed simp

text \<open>What became of one request: a new row, or a report of the row that was there.\<close>

definition created :: "string \<Rightarrow> nat \<Rightarrow> meta_state \<Rightarrow> meta_state \<Rightarrow> bool" where
  "created rel i s s' \<longleftrightarrow>
     (let m = info i s; key = (mi_parentId_partId m, mi_name m) in
      if mi_errorCode (info i s') = SUCCESS
      then info i s' = m \<and> rows rel s key = None \<and> rows rel s' key = Some (created_row m)
      else \<exists>row. rows rel s' key = Some row \<and> info i s' = (fill_open row m)\<lparr>mi_errorCode := FILE_EXISTS\<rparr>)"

lemma create_one_rows:
  assumes "m_inodes s rel \<noteq> None"
  shows "rows r s k = Some row \<Longrightarrow> rows r (create_one rel i s) k = Some row"
  using assms rows_insert [of s rel]
  by (cases "r = rel") (auto simp: create_one_def Let_def rows_with_heap split: option.splits)

lemma create_one_created:
  assumes "m_inodes s rel \<noteq> None" "i < length (m_infos s)" "ok_in s i"
  shows "created rel i s (create_one rel i s)"
proof -
  let ?key = "(mi_parentId_partId (info i s), mi_name (info i s))"
  show ?thesis
  proof (cases "rows rel s ?key")
    case None
    then show ?thesis using assms rows_insert [of s rel ?key "created_row (info i s)"]
      by (simp add: created_def create_one_def Let_def info_def)
  next
    case (Some row)
    then show ?thesis using assms by (simp add: created_def create_one_def Let_def)
  qed
qed

lemma created_later:
  assumes "created rel i s s1" "info i s2 = info i s1" "\<And>k row. rows rel s1 k = Some row \<Longrightarrow> rows rel s2 k = Some row"
  shows "created rel i s s2"
  using assms by (auto simp: created_def Let_def)

lemma created_earlier:
  assumes "created rel i s1 s2" "info i s1 = info i s" "\<And>k row. rows rel s k = Some row \<Longrightarrow> rows rel s1 k = Some row"
  shows "created rel i s s2"
  using assms unfolding created_def Let_def by (metis option.exhaust option.simps(3))

lemma create_pairs_outcome:
  "\<forall>(rel, i) \<in> set ps. m_inodes s rel \<noteq> None \<and> i < length (m_infos s) \<and> ok_in s i \<Longrightarrow> distinct (map snd ps) \<Longrightarrow>
   s' = fold (\<lambda>(rel, i). create_one rel i) ps s \<Longrightarrow>
   (\<forall>rel k row. rows rel s k = Some row \<longrightarrow> rows rel s' k = Some row) \<and> (\<forall>(rel, i) \<in> set ps. created rel i s s')
   \<and> (\<forall>i. i \<notin> snd ` set ps \<longrightarrow> info i s' = info i s)"
proof (induction ps arbitrary: s)
  case (Cons p ps)
  obtain rel i where p: "p = (rel, i)" by (cases p)
  let ?s = "create_one rel i s"
  have other: "info j ?s = info j s" if "(r, j) \<in> set ps" for r j
    by (rule create_one_sel(4)) (use that Cons.prems(2) p in force)
  have "m_inodes ?s r \<noteq> None \<and> j < length (m_infos ?s) \<and> ok_in ?s j" if "(r, j) \<in> set ps" for r j
    using Cons.prems(1) that other [OF that] by auto
  then have "\<forall>(rel, i) \<in> set ps. m_inodes ?s rel \<noteq> None \<and> i < length (m_infos ?s) \<and> ok_in ?s i" by blast
  then have r: "\<forall>rel k row. rows rel ?s k = Some row \<longrightarrow> rows rel s' k = Some row" "\<forall>(rel, i) \<in> set ps. created rel i ?s s'"
    "\<forall>i. i \<notin> snd ` set ps \<longrightarrow> info i s' = info i ?s"
    using Cons.IH [of ?s] Cons.prems(2,3) p by auto
  have m: "m_inodes s rel \<noteq> None" "i < length (m_infos s)" "ok_in s i" "i \<notin> snd ` set ps" using Cons.prems(1,2) p by auto
  have "created rel i s s'" by (rule created_later [OF create_one_created [OF m(1-3)]]) (use r(1,3) m(4) in auto)
  moreover have "created rel' j s s'" if "(rel', j) \<in> set ps" for rel' j
  proof (rule created_earlier)
    show "created rel' j ?s s'" using r(2) that by auto
    show "info j ?s = info j s" by (rule other [OF that])
  qed (rule create_one_rows [OF m(1)])
  moreover have "rows r s' k = Some row" if "rows r s k = Some row" for r k row
    using r(1) create_one_rows [OF m(1) that] by blast
  moreover have "info j s' = info j s" if "j \<notin> snd ` set (p # ps)" for j
    using r(3) that create_one_sel(4) [of i j rel s] p by auto
  ultimately show ?case using p by auto
qed auto

text \<open>
  C4: Creating a batch of files in one shard is creating them one after the other. However the batch is
  cut into subtransactions of eight insertions, and however often a subtransaction is rolled back because
  a file exists, the handler comes to an end with the rows and the reports of a loop that handles one
  request at a time.
\<close>

theorem create_batch_is_sequential:
  assumes "tables_settled s" "m_inodes s (GetInodeShardName shardId) \<noteq> None" "distinct is" "\<forall>i \<in> set is. i < length (m_infos s)"
  shows "create_shard False shardId is s =
     Returns (Inr (), fold (create_one (GetInodeShardName shardId)) (filter (\<lambda>i. mi_errorCode (info i s) = SUCCESS) is) s)"
  by (rule create_shard_sequential [OF assms])

abbreviation resolve_create :: "meta_env \<Rightarrow> nat list \<Rightarrow> (meta_state, (int \<times> nat list) list) exec" where
  "resolve_create E \<equiv> resolve_batch E VERIFY_PATH_VALIDITY_REQUIREMENT_MUST_BE_FILE
     (PATH_PARSE_FLAG_NOT_ROOT OR PATH_PARSE_FLAG_TARGET_TO_BE_CREATED) True (create_attributes E)"

text \<open>
  C3: Once the paths of a batch are resolved, the create handler returns and tells the truth. No row of
  any inode table that existed is changed; every request that was assigned to a shard either got a new
  row with its attributes under a key that was free, or reports \<^const>\<open>FILE_EXISTS\<close> together with the
  inode id, size, link count, mode and node of the row that is there; every other request keeps the
  error its path met.
\<close>

theorem create_reports_outcome:
  assumes "env_ok E" "tables_settled s" "dir_wf (me_dir E) (m_dirs s)" "distinct infoArray" "set infoArray \<subseteq> {..<length (m_infos s)}"
    and run: "resolve_create E infoArray s = Returns (Inr groups, s1)"
    and "\<forall>g \<in> set groups. m_inodes s (GetInodeShardName (fst g)) \<noteq> None"
  shows "\<exists>s'. CuckooCreateHandle E infoArray False s = Returns (Inr (), s')
     \<and> (\<forall>rel k row. rows rel s k = Some row \<longrightarrow> rows rel s' k = Some row)
     \<and> (\<forall>(shardId, is) \<in> set groups. \<forall>i \<in> set is. created (GetInodeShardName shardId) i s1 s')
     \<and> (\<forall>i \<in> set infoArray. (\<forall>g \<in> set groups. i \<notin> set (snd g)) \<longrightarrow> info i s' = info i s1 \<and> mi_errorCode (info i s1) \<noteq> SUCCESS)"
proof -
  note r = resolved_groups [OF assms(1-6) create_attributes_prepares]
  note p = resolved_pairs [OF assms(1-6) create_attributes_prepares assms(7)]
  let ?gs = "me_group_seq E groups"
  let ?s' = "fold (\<lambda>(rel, i). create_one rel i) (group_pairs ?gs) s1"
  have "each (\<lambda>(shardId, is). create_shard False shardId is) ?gs s1 = Returns (Inr (), ?s')"
    by (rule create_groups) (use r assms(5,7) in auto)
  then have handler: "CuckooCreateHandle E infoArray False s = Returns (Inr (), ?s')"
    using run by (simp add: CuckooCreateHandle_def batch_def)
  from create_pairs_outcome [OF p(1) _ refl] r(2) have o:
    "\<forall>rel k row. rows rel s1 k = Some row \<longrightarrow> rows rel ?s' k = Some row" "\<forall>(rel, i) \<in> set (group_pairs ?gs). created rel i s1 ?s'"
    "\<forall>i. i \<notin> set (members ?gs) \<longrightarrow> info i ?s' = info i s1" by auto
  have "created (GetInodeShardName shardId) i s1 ?s'" if "(shardId, is) \<in> set groups" "i \<in> set is" for shardId "is" i
    using o(2) p(2) [OF that] by blast
  moreover have "info i ?s' = info i s1 \<and> mi_errorCode (info i s1) \<noteq> SUCCESS"
    if "i \<in> set infoArray" "\<forall>g \<in> set groups. i \<notin> set (snd g)" for i
    using o(3) p(3) [OF that] by blast
  moreover have "\<forall>rel k row. rows rel s k = Some row \<longrightarrow> rows rel ?s' k = Some row" using o(1) r(5) by simp
  ultimately show ?thesis using handler by (intro exI [of _ ?s'] conjI) blast+
qed

section \<open>The unlink handler\<close>

definition unlink_request :: inode_request where
  "unlink_request = (plain_request True)\<lparr>rq_nlink := True, rq_nlinkChangeNum := - 1\<rparr>"

lemma unlink_request_sel:
  "rq_doUpdate unlink_request" "removes_row unlink_request row \<longleftrightarrow> row_nlink row = 1"
  "needCatalogTupleUpdate unlink_request row \<longleftrightarrow> row_nlink row \<noteq> 1"
  "changed_row unlink_request row = (if row_nlink row = 1 then None else Some (row\<lparr>row_nlink := row_nlink row - 1\<rparr>))"
  by (cases row; auto simp: unlink_request_def plain_request_def removes_row_def needCatalogTupleUpdate_def new_nlink_def
      changed_row_def updated_row_def)+

lemma unlink_info_settled:
  assumes "tables_settled s" "m_inodes s rel \<noteq> None" "i < length (m_infos s)"
  defines "key \<equiv> (mi_parentId_partId (info i s), mi_name (info i s))"
  obtains s' where "unlink_info rel i s = Returns (Inr (), s')" "tables_settled s'" "length (m_infos s') = length (m_infos s)"
    "\<forall>r. m_inodes s' r = None \<longleftrightarrow> m_inodes s r = None" "\<forall>j. j \<noteq> i \<longrightarrow> info j s' = info j s"
    "\<forall>r. rows r s' = (if r = rel then (rows rel s)(key := Option.bind (rows rel s key) (changed_row unlink_request)) else rows r s)"
    "mi_errorCode (info i s') = (case rows rel s key of None \<Rightarrow> FILE_NOT_EXISTS
       | Some row \<Rightarrow> if row_nlink row \<noteq> 1 \<or> \<not> S_ISREG (row_mode row) then PROGRAM_ERROR else SUCCESS)"
proof (cases rule: SearchAndUpdate_settled [OF assms(1,2), of "fst key" "snd key" unlink_request])
  case absent: 1
  then have "unlink_info rel i s = Returns (Inr (), set_code i FILE_NOT_EXISTS s)"
    by (simp add: unlink_info_def exec_bind_run unlink_request_def [symmetric] key_def)
  then show thesis using that [of "set_code i FILE_NOT_EXISTS s"] absent assms(1-3)
    by (simp add: set_code_def fun_upd_idem)
next
  case twice: (2 row)
  then show thesis by (simp add: unlink_request_sel)
next
  case found: (3 row s1)
  define f :: "MetaProcessInfo \<Rightarrow> MetaProcessInfo" where "f = (\<lambda>m. m\<lparr>mi_inodeId := row_ino row, mi_st_size := row_size row, mi_node_id := row_primary_nodeid row,
      mi_errorCode := (if row_nlink row \<noteq> 1 \<or> \<not> S_ISREG (row_mode row) then PROGRAM_ERROR else SUCCESS)\<rparr>)"
  have run: "unlink_info rel i s = Returns (Inr (), set_info i f s1)"
    using found(2) by (simp add: unlink_info_def exec_bind_run unlink_request_def [symmetric] key_def f_def)
  have infos: "m_infos s1 = m_infos s" using rows_onlyD [OF found(6)] by simp
  show thesis
  proof (rule that [OF run])
    show "\<forall>r. rows r (set_info i f s1) = (if r = rel then (rows rel s)(key := Option.bind (rows rel s key) (changed_row unlink_request)) else rows r s)"
      using found(1,3,5) by simp
    show "\<forall>j. j \<noteq> i \<longrightarrow> info j (set_info i f s1) = info j s" using infos by (simp add: info_def set_info_def)
    show "mi_errorCode (info i (set_info i f s1)) = (case rows rel s key of None \<Rightarrow> FILE_NOT_EXISTS
       | Some row \<Rightarrow> if row_nlink row \<noteq> 1 \<or> \<not> S_ISREG (row_mode row) then PROGRAM_ERROR else SUCCESS)"
      using found(1) infos assms(3) by (simp add: f_def)
  qed (use found(4,7) infos in simp_all)
qed

text \<open>Unlinking only removes rows and lowers link counts.\<close>

definition fewer_links :: "meta_state \<Rightarrow> meta_state \<Rightarrow> bool" where
  "fewer_links s s' \<longleftrightarrow> (\<forall>rel k row'. rows rel s' k = Some row' \<longrightarrow>
     (\<exists>row. rows rel s k = Some row \<and> row_mode row' = row_mode row \<and> (row_nlink row = 1 \<longrightarrow> row' = row)))"

lemma fewer_links_trans: "fewer_links s t \<Longrightarrow> fewer_links t u \<Longrightarrow> fewer_links s u"
  unfolding fewer_links_def by metis

text \<open>What became of one request.\<close>

definition unlinked :: "string \<Rightarrow> nat \<Rightarrow> meta_state \<Rightarrow> meta_state \<Rightarrow> bool" where
  "unlinked rel i s s' \<longleftrightarrow>
     (let key = (mi_parentId_partId (info i s), mi_name (info i s)) in
      (mi_errorCode (info i s') = SUCCESS \<and> (\<exists>row. rows rel s key = Some row \<and> S_ISREG (row_mode row)) \<and> rows rel s' key = None)
      \<or> (mi_errorCode (info i s') = FILE_NOT_EXISTS \<and> rows rel s' key = None)
      \<or> (mi_errorCode (info i s') = PROGRAM_ERROR
           \<and> (\<exists>row. rows rel s key = Some row \<and> (row_nlink row \<noteq> 1 \<or> \<not> S_ISREG (row_mode row)))))"

lemma unlinked_later: "unlinked rel i s s1 \<Longrightarrow> info i s2 = info i s1 \<Longrightarrow> fewer_links s1 s2 \<Longrightarrow> unlinked rel i s s2"
  unfolding unlinked_def fewer_links_def Let_def by (metis option.exhaust option.simps(3))

lemma unlinked_earlier: "unlinked rel i s1 s2 \<Longrightarrow> info i s1 = info i s \<Longrightarrow> fewer_links s s1 \<Longrightarrow> unlinked rel i s s2"
  unfolding unlinked_def fewer_links_def Let_def by metis

lemma unlink_one:
  assumes "tables_settled s" "m_inodes s rel \<noteq> None" "i < length (m_infos s)" "ok_in s i"
  obtains s' where "unless_failed (unlink_info rel) i s = Returns (Inr (), s')" "tables_settled s'"
    "length (m_infos s') = length (m_infos s)" "\<forall>r. m_inodes s' r = None \<longleftrightarrow> m_inodes s r = None"
    "\<forall>j. j \<noteq> i \<longrightarrow> info j s' = info j s" "fewer_links s s'" "unlinked rel i s s'"
    "\<forall>r k. (r, k) \<noteq> (rel, mi_parentId_partId (info i s), mi_name (info i s)) \<longrightarrow> rows r s' k = rows r s k"
proof -
  obtain s' where s': "unlink_info rel i s = Returns (Inr (), s')" "tables_settled s'"
    "length (m_infos s') = length (m_infos s)" "\<forall>r. m_inodes s' r = None \<longleftrightarrow> m_inodes s r = None" "\<forall>j. j \<noteq> i \<longrightarrow> info j s' = info j s"
    and rows: "\<forall>r. rows r s' = (if r = rel then (rows rel s)((mi_parentId_partId (info i s), mi_name (info i s)) :=
        Option.bind (rows rel s (mi_parentId_partId (info i s), mi_name (info i s))) (changed_row unlink_request)) else rows r s)"
    and code: "mi_errorCode (info i s') = (case rows rel s (mi_parentId_partId (info i s), mi_name (info i s)) of None \<Rightarrow> FILE_NOT_EXISTS
       | Some row \<Rightarrow> if row_nlink row \<noteq> 1 \<or> \<not> S_ISREG (row_mode row) then PROGRAM_ERROR else SUCCESS)"
    by (rule unlink_info_settled [OF assms(1-3)])
  have run: "unless_failed (unlink_info rel) i s = Returns (Inr (), s')"
    using s'(1) assms(4) by (simp add: unless_failed_def exec_bind_run)
  have "fewer_links s s'"
    unfolding fewer_links_def by (auto simp: rows unlink_request_sel split: if_splits bind_splits)
  moreover have "unlinked rel i s s'" unfolding unlinked_def Let_def
    by (cases "rows rel s (mi_parentId_partId (info i s), mi_name (info i s))") (auto simp: rows code unlink_request_sel)
  moreover have "rows r s' k = rows r s k" if "(r, k) \<noteq> (rel, mi_parentId_partId (info i s), mi_name (info i s))" for r k
    using that by (auto simp: rows)
  ultimately show thesis using that [OF run s'(2-5)] by blast
qed

definition request_key :: "nat \<Rightarrow> meta_state \<Rightarrow> inode_key" where
  "request_key i s = (mi_parentId_partId (info i s), mi_name (info i s))"

lemma unlink_pairs_outcome:
  "tables_settled s \<Longrightarrow> \<forall>(rel, i) \<in> set ps. m_inodes s rel \<noteq> None \<and> i < length (m_infos s) \<and> ok_in s i \<Longrightarrow> distinct (map snd ps) \<Longrightarrow>
   \<exists>s'. each (\<lambda>(rel, i). unless_failed (unlink_info rel) i) ps s = Returns (Inr (), s')
   \<and> fewer_links s s' \<and> (\<forall>(rel, i) \<in> set ps. unlinked rel i s s') \<and> (\<forall>i. i \<notin> snd ` set ps \<longrightarrow> info i s' = info i s)
   \<and> (\<forall>r k. (\<forall>(rel, i) \<in> set ps. (r, k) \<noteq> (rel, request_key i s)) \<longrightarrow> rows r s' k = rows r s k)"
proof (induction ps arbitrary: s)
  case Nil
  then show ?case by (simp add: fewer_links_def)
next
  case (Cons p ps)
  obtain rel i where p: "p = (rel, i)" by (cases p)
  have m: "m_inodes s rel \<noteq> None" "i < length (m_infos s)" "ok_in s i" "i \<notin> snd ` set ps" using Cons.prems(2,3) p by auto
  obtain s1 where s1: "unless_failed (unlink_info rel) i s = Returns (Inr (), s1)" "tables_settled s1"
    "length (m_infos s1) = length (m_infos s)" "\<forall>r. m_inodes s1 r = None \<longleftrightarrow> m_inodes s r = None"
    "\<forall>j. j \<noteq> i \<longrightarrow> info j s1 = info j s" "fewer_links s s1" "unlinked rel i s s1"
    "\<forall>r k. (r, k) \<noteq> (rel, mi_parentId_partId (info i s), mi_name (info i s)) \<longrightarrow> rows r s1 k = rows r s k"
    by (rule unlink_one [OF Cons.prems(1) m(1-3)])
  have other: "info j s1 = info j s" if "(r, j) \<in> set ps" for r j using s1(5) m(4) that by force
  have "m_inodes s1 r \<noteq> None \<and> j < length (m_infos s1) \<and> ok_in s1 j" if "(r, j) \<in> set ps" for r j
    using Cons.prems(2) that other [OF that] s1(3,4) by auto
  then have "\<forall>(rel, i) \<in> set ps. m_inodes s1 rel \<noteq> None \<and> i < length (m_infos s1) \<and> ok_in s1 i" by blast
  then obtain s' where s': "each (\<lambda>(rel, i). unless_failed (unlink_info rel) i) ps s1 = Returns (Inr (), s')" "fewer_links s1 s'"
    "\<forall>(rel, i) \<in> set ps. unlinked rel i s1 s'" "\<forall>i. i \<notin> snd ` set ps \<longrightarrow> info i s' = info i s1"
    "\<forall>r k. (\<forall>(rel, i) \<in> set ps. (r, k) \<noteq> (rel, request_key i s1)) \<longrightarrow> rows r s' k = rows r s1 k"
    using Cons.IH [OF s1(2)] Cons.prems(3) by auto
  have run: "each (\<lambda>(rel, i). unless_failed (unlink_info rel) i) (p # ps) s = Returns (Inr (), s')" using s1(1) s'(1) p by simp
  have "unlinked rel i s s'" by (rule unlinked_later [OF s1(7) _ s'(2)]) (use s'(4) m(4) in auto)
  moreover have "unlinked r j s s'" if "(r, j) \<in> set ps" for r j
    by (rule unlinked_earlier [OF _ other [OF that] s1(6)]) (use s'(3) that in auto)
  moreover have "info j s' = info j s" if "j \<notin> snd ` set (p # ps)" for j using s'(4) s1(5) that p by auto
  moreover have "rows r s' k = rows r s k" if "\<forall>(rel, i) \<in> set (p # ps). (r, k) \<noteq> (rel, request_key i s)" for r k
  proof -
    have "\<forall>(rel, i) \<in> set ps. (r, k) \<noteq> (rel, request_key i s1)" using that other by (fastforce simp: request_key_def)
    moreover have "(r, k) \<noteq> (rel, mi_parentId_partId (info i s), mi_name (info i s))" using that p by (auto simp: request_key_def)
    ultimately show ?thesis using s'(5) s1(8) by metis
  qed
  ultimately show ?case using run fewer_links_trans [OF s1(6) s'(2)] p by (intro exI [of _ s'] conjI) auto
qed

abbreviation resolve_unlink :: "meta_env \<Rightarrow> nat list \<Rightarrow> (meta_state, (int \<times> nat list) list) exec" where
  "resolve_unlink E \<equiv> resolve_batch E VERIFY_PATH_VALIDITY_REQUIREMENT_MUST_BE_FILE 0 False (\<lambda>i. exec_return ())"


text \<open>
  C24: Unlinking the path of a directory reports \<^const>\<open>PROGRAM_ERROR\<close>, an error that does not abort the
  transaction, but removes the directory's inode row all the same.
\<close>

theorem unlink_drops_directory_row:
  assumes "tables_settled s" "m_inodes s rel \<noteq> None" "i < length (m_infos s)"
    and "rows rel s (request_key i s) = Some row" "row_nlink row = 1" "row_mode row AND S_IFMT = S_IFDIR"
  shows "\<exists>s'. unlink_info rel i s = Returns (Inr (), s') \<and> mi_errorCode (info i s') = PROGRAM_ERROR
     \<and> rows rel s' = (rows rel s)(request_key i s := None)"
proof (rule unlink_info_settled [OF assms(1-3)])
  have "\<not> S_ISREG (row_mode row)" using assms(6) by (simp add: S_ISREG_def S_IFDIR_def S_IFREG_def)
  then show ?thesis if "unlink_info rel i s = Returns (Inr (), s')"
      "\<forall>r. rows r s' = (if r = rel then (rows rel s)((mi_parentId_partId (info i s), mi_name (info i s)) :=
        Option.bind (rows rel s (mi_parentId_partId (info i s), mi_name (info i s))) (changed_row unlink_request)) else rows r s)"
      "mi_errorCode (info i s') = (case rows rel s (mi_parentId_partId (info i s), mi_name (info i s)) of None \<Rightarrow> FILE_NOT_EXISTS
       | Some row \<Rightarrow> if row_nlink row \<noteq> 1 \<or> \<not> S_ISREG (row_mode row) then PROGRAM_ERROR else SUCCESS)" for s'
    using that assms(4,5) by (intro exI [of _ s']) (simp add: request_key_def unlink_request_sel)
qed

section \<open>The concrete server\<close>

lemma small_parse_create:
  assumes "m_root s = m_root small_meta" "m_remote s = small_server"
  shows "\<exists>ino l n. parse_path small_meta_env ''/a/b'' (PATH_PARSE_FLAG_NOT_ROOT OR PATH_PARSE_FLAG_TARGET_TO_BE_CREATED) (Some ino0) s
     = Returns (Inr \<lparr>pp_code = SUCCESS, out_parentId = Some 7, out_fileName = Some ''b'', out_inodeId = Some ino\<rparr>,
         s\<lparr>m_seq := l, m_draws := n\<rparr>)"
proof -
  obtain n0 l n where seq: "GetNextSequenceNum (me_nextval small_meta_env) (m_seq s) (m_draws s) = (n0, l, n)"
    by (cases "GetNextSequenceNum (me_nextval small_meta_env) (m_seq s) (m_draws s)") auto
  have "local_server_id small_meta_env (s\<lparr>m_seq := l, m_draws := n\<rparr>) = Returns (Inr 1, s\<lparr>m_seq := l, m_draws := n\<rparr>)"
    by (rule small_local_id) (simp add: assms(2))
  then have "new_inode_id small_meta_env s = Returns (Inr (GenerateInodeIdBySeqAndNodeId n0 1), s\<lparr>m_seq := l, m_draws := n\<rparr>)"
    by (simp add: new_inode_id_def seq)
  then show ?thesis using assms(1)
    by (cases s) (simp add: parse_path_def small_meta_def PathParseTreeInsert_def pp_walk.simps find_child_def set_child_def
      pp_target_def pp_create_def pp_call_def meta_ops_def has_flag_def path_flag_defs)
qed

lemma small_verify: "verify_infos VERIFY_PATH_VALIDITY_REQUIREMENT_MUST_BE_FILE [Suc 0] small_meta = small_meta"
  by (simp add: verify_infos_def VerifyPathValidity_def set_code_def set_info_def small_meta_def info_def path_request_def Let_def
      VERIFY_PATH_VALIDITY_REQUIREMENT_MUST_BE_FILE_def VERIFY_PATH_VALIDITY_REQUIREMENT_MUST_BE_DIRECTORY_def
      VERIFY_PATH_VALIDITY_PROPERTY_CAN_BE_DIRECTORY_def VERIFY_PATH_VALIDITY_PROPERTY_CAN_BE_FILE_def)

lemma set_info_root [simp]: "m_root (set_info i f s) = m_root s"
  by (simp add: set_info_def)

lemma small_request: "mi_path (info (Suc 0) small_meta) = ''/a/b''" "ok_in small_meta (Suc 0)" "mi_inodeId (info (Suc 0) small_meta) = 0"
  by (simp_all add: small_meta_def info_def path_request_def)

lemma small_unlink:
  "\<exists>s1. resolve_unlink small_meta_env [1] small_meta = Returns (Inr [(2147483647, [1])], s1)
     \<and> request_key 1 s1 = (parent_key small_meta_env 7 ''b'', ''b'')"
proof -
  have "sorted_infos small_meta_env [1] s = [1]" for s by (simp add: sorted_infos_def small_meta_env_def)
  then show ?thesis
    by (simp add: resolve_batch_def exec_bind_run small_verify small_sizes locate_info_def small_parse small_search_shard
        small_local_id small_request small_meta_remote small_meta_infos group_add_def request_key_def take_out_def)
qed

lemma small_create: "\<exists>s1. resolve_create small_meta_env [1] small_meta = Returns (Inr [(2147483647, [1])], s1)"
proof -
  obtain ino l n where p: "parse_path small_meta_env ''/a/b'' (PATH_PARSE_FLAG_NOT_ROOT OR PATH_PARSE_FLAG_TARGET_TO_BE_CREATED) (Some 0) small_meta
      = Returns (Inr \<lparr>pp_code = SUCCESS, out_parentId = Some 7, out_fileName = Some ''b'', out_inodeId = Some ino\<rparr>,
          small_meta\<lparr>m_seq := l, m_draws := n\<rparr>)" using small_parse_create [OF refl small_meta_remote] by blast
  have "sorted_infos small_meta_env [1] s = [1]" for s by (simp add: sorted_infos_def small_meta_env_def)
  then show ?thesis using p
    by (simp add: resolve_batch_def exec_bind_run small_verify small_sizes locate_info_def small_search_shard
        small_local_id small_request small_meta_remote group_add_def create_attributes_def GetCurrentTimestamp_def)
qed

lemma small_rows:
  "rows (GetInodeShardName 2147483647) small_meta = [(parent_key small_meta_env 7 ''b'', ''b'') \<mapsto> file_row 21 (S_IFREG OR 0x1A4),
     (parent_key small_meta_env 7 ''d'', ''d'') \<mapsto> file_row 22 (S_IFDIR OR 0x1ED)]"
  by (simp add: rows_def small_meta_def heap_of_def fun_eq_iff)

lemma small_tables: "m_inodes small_meta (GetInodeShardName 2147483647) \<noteq> None"
  by (simp add: small_meta_def)

theorem create_batch_is_sequential_witness:
  "create_shard False 2147483647 [0, 1] small_meta
     = Returns (Inr (), create_one (GetInodeShardName 2147483647) 1 (create_one (GetInodeShardName 2147483647) 0 small_meta))"
proof -
  have "ok_in small_meta 0" "ok_in small_meta 1" by (simp_all add: small_meta_def info_def path_request_def)
  then show ?thesis
    using create_batch_is_sequential [OF small_meta_settled small_tables, of "[0, 1]"] small_meta_infos by simp
qed

theorem create_reports_outcome_witness:
  "\<exists>s'. CuckooCreateHandle small_meta_env [1] False small_meta = Returns (Inr (), s')
     \<and> rows (GetInodeShardName 2147483647) s' (parent_key small_meta_env 7 ''b'', ''b'') = Some (file_row 21 (S_IFREG OR 0x1A4))"
proof -
  obtain s1 where s1: "resolve_create small_meta_env [1] small_meta = Returns (Inr [(2147483647, [1])], s1)" using small_create by blast
  have "\<exists>s'. CuckooCreateHandle small_meta_env [1] False small_meta = Returns (Inr (), s')
      \<and> (\<forall>rel k row. rows rel small_meta k = Some row \<longrightarrow> rows rel s' k = Some row)"
    using create_reports_outcome [OF small_meta_env_ok small_meta_settled small_meta_wf _ _ s1] small_tables small_meta_infos by auto
  moreover have "rows (GetInodeShardName 2147483647) small_meta (parent_key small_meta_env 7 ''b'', ''b'') = Some (file_row 21 (S_IFREG OR 0x1A4))"
    by (simp add: small_rows)
  ultimately show ?thesis by blast
qed


theorem unlink_drops_directory_row_witness:
  "\<exists>s'. unlink_info (GetInodeShardName 2147483647) 0 (small_meta\<lparr>m_infos := [(path_request ''/a/d'')\<lparr>
         mi_parentId_partId := parent_key small_meta_env 7 ''d'', mi_name := ''d''\<rparr>]\<rparr>) = Returns (Inr (), s')
     \<and> mi_errorCode (info 0 s') = PROGRAM_ERROR
     \<and> rows (GetInodeShardName 2147483647) s' (parent_key small_meta_env 7 ''d'', ''d'') = None"
proof -
  let ?s = "small_meta\<lparr>m_infos := [(path_request ''/a/d'')\<lparr>mi_parentId_partId := parent_key small_meta_env 7 ''d'', mi_name := ''d''\<rparr>]\<rparr>"
  have key: "request_key 0 ?s = (parent_key small_meta_env 7 ''d'', ''d'')" by (simp add: request_key_def info_def)
  then have "rows (GetInodeShardName 2147483647) ?s (request_key 0 ?s) = Some (file_row 22 (S_IFDIR OR 0x1ED))"
    by (simp add: small_rows)
  moreover have "row_nlink (file_row 22 (S_IFDIR OR 0x1ED)) = 1" "row_mode (file_row 22 (S_IFDIR OR 0x1ED)) AND S_IFMT = S_IFDIR"
    by (simp_all add: file_row_def S_IFDIR_def S_IFMT_def)
  moreover have "tables_settled ?s" "m_inodes ?s (GetInodeShardName 2147483647) \<noteq> None" "0 < length (m_infos ?s)"
    using small_meta_settled small_tables by simp_all
  ultimately show ?thesis
    using unlink_drops_directory_row [of ?s "GetInodeShardName 2147483647" 0] unfolding key by auto
qed

end
