(* ===== verification/Meta_Listing.thy ===== *)
theory Meta_Listing
  imports Meta_Example
begin

text \<open>
  Reading a directory page by page: \<^const>\<open>read_page\<close>, called again and again with the position it returned,
  ends and yields every entry the server holds of the directory exactly once.
\<close>

section \<open>Index order\<close>

definition key_less :: "meta_env \<Rightarrow> inode_key \<Rightarrow> inode_key \<Rightarrow> bool" where
  "key_less E a b \<longleftrightarrow> sint (fst a) < sint (fst b) \<or> fst a = fst b \<and> me_name_gt E (snd b) (snd a)"

text \<open>What an index scan promises: the rows it was asked for in increasing order of their keys.\<close>

definition index_law :: "meta_env \<Rightarrow> bool" where
  "index_law E \<longleftrightarrow> transp (me_name_gt E) \<and> irreflp (me_name_gt E)
     \<and> (\<forall>rs. distinct (map fst rs) \<longrightarrow> set (me_index_seq E rs) = set rs \<and> sorted_wrt (key_less E) (map fst (me_index_seq E rs)))"

lemma key_less_strict:
  assumes "index_law E" shows "transp (key_less E)" "irreflp (key_less E)"
  using assms unfolding index_law_def
  by (auto simp: transp_def irreflp_def key_less_def)

lemma sorted_wrt_unique:
  assumes "transp R" "irreflp R"
  shows "sorted_wrt R xs \<Longrightarrow> sorted_wrt R ys \<Longrightarrow> set xs = set ys \<Longrightarrow> xs = ys"
proof (induction xs arbitrary: ys)
  case (Cons x xs)
  obtain y zs where ys: "ys = y # zs" using Cons.prems(3) by (cases ys) auto
  have "x = y"
  proof (rule ccontr)
    assume "x \<noteq> y"
    then have "R y x" "R x y" using Cons.prems ys by auto
    then show False using assms by (meson irreflpD transpD)
  qed
  moreover have "x \<notin> set xs" "y \<notin> set zs" using Cons.prems(1,2) ys assms(2) by (auto dest: irreflpD)
  ultimately have "set xs = set zs" using Cons.prems(3) ys by auto
  then show ?case using Cons ys \<open>x = y\<close> by simp
qed simp

lemma sorted_wrt_filter_fst: "sorted_wrt R (map fst rs) \<Longrightarrow> sorted_wrt R (map fst (filter P rs))"
  by (induction rs) auto

text \<open>A narrower scan gives the same rows in the same order.\<close>

lemma index_filter:
  assumes law: "index_law E" and "distinct (map fst rs)"
  shows "me_index_seq E (filter P rs) = filter P (me_index_seq E rs)"
proof -
  have d: "distinct (map fst (filter P rs))" using assms(2) by (metis distinct_map_filter)
  have l: "set (me_index_seq E rs) = set rs" "sorted_wrt (key_less E) (map fst (me_index_seq E rs))"
    "set (me_index_seq E (filter P rs)) = set (filter P rs)" "sorted_wrt (key_less E) (map fst (me_index_seq E (filter P rs)))"
    using law assms(2) d by (auto simp: index_law_def)
  let ?R = "\<lambda>a b. key_less E (fst a) (fst b)"
  have "transp ?R" "irreflp ?R"
    using key_less_strict [OF law] by (auto simp: transp_def irreflp_def)
  then show ?thesis
  proof (rule sorted_wrt_unique)
    show "sorted_wrt ?R (me_index_seq E (filter P rs))" using l(4) by (simp add: sorted_wrt_map)
    show "sorted_wrt ?R (filter P (me_index_seq E rs))" using l(2) by (simp add: sorted_wrt_map sorted_wrt_filter)
  qed (use l in auto)
qed

section \<open>Walking over the scans\<close>

abbreviation entry :: "inode_key \<times> inode_row \<Rightarrow> string \<times> u32" where
  "entry r \<equiv> (snd (fst r), row_mode (snd r))"

primrec walk :: "int \<Rightarrow> (nat \<times> (inode_key \<times> inode_row) list) list \<Rightarrow> nat \<Rightarrow> (string \<times> u32) list \<Rightarrow> nat \<times> (string \<times> u32) list" where
  "walk limit [] e rs = (e, rs)"
| "walk limit (step # steps) e rs =
     (let rs1 = read_rows limit (snd step) rs in if int (length rs1) \<ge> limit then (fst step, rs1) else walk limit steps e rs1)"

lemma read_rows_result:
  assumes "int (length rs) < limit"
  shows "(int (length rs + length found) < limit \<and> read_rows limit found rs = rs @ map entry found)
    \<or> (\<exists>A x B. found = A @ x # B \<and> int (length rs + length A) + 1 = limit \<and> read_rows limit found rs = rs @ map entry (A @ [x]))"
  using assms
proof (induction found arbitrary: rs)
  case (Cons r found)
  show ?case
  proof (cases "int (length rs) + 1 = limit")
    case True
    then have "r # found = [] @ r # found \<and> int (length rs + length ([] :: (inode_key \<times> inode_row) list)) + 1 = limit
        \<and> read_rows limit (r # found) rs = rs @ map entry ([] @ [r])" by simp
    then show ?thesis by blast
  next
    case False
    then have less: "int (length (rs @ [entry r])) < limit" using Cons.prems by simp
    have step: "read_rows limit (r # found) rs = read_rows limit found (rs @ [entry r])" using less by simp
    from Cons.IH [OF less] show ?thesis
    proof (elim disjE exE conjE)
      fix A x B assume "found = A @ x # B" "int (length (rs @ [entry r]) + length A) + 1 = limit"
        "read_rows limit found (rs @ [entry r]) = (rs @ [entry r]) @ map entry (A @ [x])"
      then have "r # found = (r # A) @ x # B \<and> int (length rs + length (r # A)) + 1 = limit
          \<and> read_rows limit (r # found) rs = rs @ map entry ((r # A) @ [x])" using step by simp
      then show ?thesis by blast
    qed (use step in simp)
  qed
qed simp

text \<open>Where a walk stops: behind everything, or at a row that fills the page.\<close>

lemma walk_result:
  assumes "int (length rs) < limit"
  shows "(walk limit steps e rs = (e, rs @ map entry (concat (map snd steps)))
        \<and> int (length rs + length (concat (map snd steps))) < limit)
    \<or> (\<exists>before k A x B after. steps = before @ (k, A @ x # B) # after
        \<and> walk limit steps e rs = (k, rs @ map entry (concat (map snd before) @ A @ [x]))
        \<and> int (length (rs @ map entry (concat (map snd before) @ A @ [x]))) = limit)"
  using assms
proof (induction steps arbitrary: rs)
  case (Cons step steps)
  from read_rows_result [OF Cons.prems, of "snd step"] show ?case
  proof (elim disjE exE conjE)
    fix A x B assume h: "snd step = A @ x # B" "int (length rs + length A) + 1 = limit"
      "read_rows limit (snd step) rs = rs @ map entry (A @ [x])"
    then have "step # steps = [] @ (fst step, A @ x # B) # steps
      \<and> walk limit (step # steps) e rs = (fst step, rs @ map entry (concat (map snd []) @ A @ [x]))
      \<and> int (length (rs @ map entry (concat (map snd []) @ A @ [x]))) = limit"
      by (cases step) (simp add: Let_def)
    then show ?thesis by blast
  next
    assume h: "int (length rs + length (snd step)) < limit" "read_rows limit (snd step) rs = rs @ map entry (snd step)"
    let ?rs1 = "rs @ map entry (snd step)"
    have less: "int (length ?rs1) < limit" using h(1) by simp
    have w: "walk limit (step # steps) e rs = walk limit steps e ?rs1" using h by (simp add: Let_def)
    from Cons.IH [OF less] show ?thesis
    proof (elim disjE exE conjE)
      fix before k A x B after
      assume "steps = before @ (k, A @ x # B) # after"
        "walk limit steps e ?rs1 = (k, ?rs1 @ map entry (concat (map snd before) @ A @ [x]))"
        "int (length (?rs1 @ map entry (concat (map snd before) @ A @ [x]))) = limit"
      then have "step # steps = (step # before) @ (k, A @ x # B) # after
        \<and> walk limit (step # steps) e rs = (k, rs @ map entry (concat (map snd (step # before)) @ A @ [x]))
        \<and> int (length (rs @ map entry (concat (map snd (step # before)) @ A @ [x]))) = limit" using w by simp
      then show ?thesis by blast
    qed (use w in simp)
  qed
qed simp

section \<open>What the server holds of a directory\<close>

abbreviation in_directory :: "meta_env \<Rightarrow> u64 \<Rightarrow> inode_key \<Rightarrow> bool" where
  "in_directory E directoryId \<equiv> scan_matches E directoryId [] NEW_SHARD"

lemma scan_new_shard: "scan_matches E directoryId f NEW_SHARD = in_directory E directoryId"
  by (simp add: scan_matches_def fun_eq_iff)

definition seen_rows :: "meta_state \<Rightarrow> shard \<Rightarrow> (inode_key \<times> inode_row) list" where
  "seen_rows s r = (case m_inodes s (GetInodeShardName (range_point r)) of None \<Rightarrow> [] | Some h \<Rightarrow> h_seen h)"

definition shard_scan_rows :: "meta_env \<Rightarrow> (inode_key \<Rightarrow> bool) \<Rightarrow> meta_state \<Rightarrow> shard \<Rightarrow> (inode_key \<times> inode_row) list" where
  "shard_scan_rows E matches s r = me_index_seq E (filter (\<lambda>(k, row). matches k) (seen_rows s r))"

definition dir_listing :: "meta_env \<Rightarrow> u64 \<Rightarrow> meta_state \<Rightarrow> int \<Rightarrow> shard list \<Rightarrow> (inode_key \<times> inode_row) list" where
  "dir_listing E directoryId s serverId shards =
     concat (map (shard_scan_rows E (in_directory E directoryId) s) (filter (\<lambda>r. shard_server r = serverId) shards))"

text \<open>The caches are valid and every shard of this server has its table.\<close>

definition listing_ready :: "meta_env \<Rightarrow> meta_state \<Rightarrow> int \<Rightarrow> shard list \<Rightarrow> bool" where
  "listing_ready E s serverId shards \<longleftrightarrow>
     local_server_id E s = Returns (Inr serverId, s) \<and> on_shards GetShardTableData s = Returns (Inr shards, s)
     \<and> (\<forall>r \<in> set shards. shard_server r = serverId \<longrightarrow> m_inodes s (GetInodeShardName (range_point r)) \<noteq> None)"

text \<open>Unique keys, and every entry of the directory is stored under the key computed from its name.\<close>

definition entries_ok :: "meta_env \<Rightarrow> u64 \<Rightarrow> meta_state \<Rightarrow> shard list \<Rightarrow> bool" where
  "entries_ok E directoryId s shards \<longleftrightarrow>
     (\<forall>r \<in> set shards. distinct (map fst (seen_rows s r))
       \<and> (\<forall>(k, row) \<in> set (seen_rows s r). in_directory E directoryId k \<longrightarrow> fst k = parent_key E directoryId (snd k)))"

lemma scan_shard_ready:
  assumes "m_inodes s (GetInodeShardName (range_point r)) \<noteq> None"
  shows "scan_shard E (range_point r) matches s = Returns (Inr (shard_scan_rows E matches s r), s)"
  using assms by (auto simp: scan_shard_def on_table_def shard_scan_rows_def seen_rows_def)

definition steps_from :: "meta_env \<Rightarrow> u64 \<Rightarrow> meta_state \<Rightarrow> int \<Rightarrow> shard list \<Rightarrow> nat \<Rightarrow> (nat \<times> (inode_key \<times> inode_row) list) list" where
  "steps_from E directoryId s serverId shards k =
     map (\<lambda>j. (j, shard_scan_rows E (in_directory E directoryId) s (shards ! j)))
       (filter (\<lambda>j. shard_server (shards ! j) = serverId) [k..<length shards])"

lemma steps_from_unfold:
  assumes "k < length shards"
  shows "steps_from E d s serverId shards k
     = (if shard_server (shards ! k) = serverId then [(k, shard_scan_rows E (in_directory E d) s (shards ! k))] else [])
       @ steps_from E d s serverId shards (Suc k)"
proof -
  have upt: "[k..<length shards] = k # [Suc k..<length shards]" using assms by (rule upt_conv_Cons)
  show ?thesis unfolding steps_from_def upt by (simp del: upt_Suc)
qed

lemma read_loop_new:
  assumes ready: "listing_ready E s serverId shards" and "k \<le> length shards"
  shows "read_loop E d f limit shards k NEW_SHARD rs s
    = Returns (Inr (walk limit (steps_from E d s serverId shards k) (length shards) rs), s)"
  using assms(2)
proof (induction "length shards - k" arbitrary: k rs)
  case 0
  then show ?case by (subst read_loop.simps) (simp add: steps_from_def)
next
  case (Suc n)
  then have k: "k < length shards" "n = length shards - Suc k" by simp_all
  have sid: "local_server_id E s = Returns (Inr serverId, s)" using ready by (simp add: listing_ready_def)
  show ?case
  proof (cases "shard_server (shards ! k) = serverId")
    case True
    then have "m_inodes s (GetInodeShardName (range_point (shards ! k))) \<noteq> None"
      using ready k(1) by (auto simp: listing_ready_def)
    from scan_shard_ready [OF this, of E "scan_matches E d (or_else f []) NEW_SHARD"]
    have scan: "scan_shard E (range_point (shards ! k)) (scan_matches E d (or_else f []) NEW_SHARD) s
        = Returns (Inr (shard_scan_rows E (in_directory E d) s (shards ! k)), s)"
      using scan_new_shard [of E d "or_else f []"] by simp
    show ?thesis
      using True k sid scan Suc.hyps(1) [OF k(2)]
      by (subst read_loop.simps, subst steps_from_unfold [OF k(1)]) (simp add: exec_bind_def Let_def)
  next
    case False
    then show ?thesis
      using k sid Suc.hyps(1) [OF k(2)]
      by (subst read_loop.simps, subst steps_from_unfold [OF k(1)]) (simp add: exec_bind_def)
  qed
qed

text \<open>Going on behind an entry: first the same key, then the greater keys of the shard.\<close>

definition steps_behind :: "meta_env \<Rightarrow> u64 \<Rightarrow> meta_state \<Rightarrow> int \<Rightarrow> shard list \<Rightarrow> nat \<Rightarrow> string \<Rightarrow> (nat \<times> (inode_key \<times> inode_row) list) list" where
  "steps_behind E directoryId s serverId shards k f =
     (k, shard_scan_rows E (scan_matches E directoryId f SAME_ID_GREATER_NAME) s (shards ! k))
     # (k, shard_scan_rows E (scan_matches E directoryId f GREATER_ID) s (shards ! k))
     # steps_from E directoryId s serverId shards (Suc k)"

lemma read_loop_behind:
  assumes ready: "listing_ready E s serverId shards" and k: "k < length shards" "shard_server (shards ! k) = serverId"
  shows "read_loop E d (Some f) limit shards k SAME_ID_GREATER_NAME rs s
    = Returns (Inr (walk limit (steps_behind E d s serverId shards k f) (length shards) rs), s)"
proof -
  have sid: "local_server_id E s = Returns (Inr serverId, s)" using ready by (simp add: listing_ready_def)
  have "m_inodes s (GetInodeShardName (range_point (shards ! k))) \<noteq> None"
    using ready k by (auto simp: listing_ready_def)
  note scan = scan_shard_ready [OF this, of E]
  show ?thesis
    using sid scan k read_loop_new [OF ready, of "Suc k"]
    by (subst read_loop.simps, subst read_loop.simps) (simp add: exec_bind_def Let_def steps_behind_def)
qed

lemma filter_stages:
  assumes "sorted_wrt R xs" "\<forall>x \<in> set xs. A x \<noteq> B x" "\<forall>x y. R x y \<longrightarrow> B x \<longrightarrow> \<not> A y"
  shows "filter A xs @ filter B xs = xs"
  using assms(1,2)
proof (induction xs)
  case (Cons x xs)
  show ?case
  proof (cases "A x")
    case False
    then have "B x" using Cons.prems(2) by simp
    then have "\<forall>y \<in> set xs. \<not> A y" using Cons.prems(1) assms(3) by auto
    then have "filter A xs = []" "filter B xs = xs" using Cons.prems(2) by (simp_all add: filter_empty_conv filter_id_conv)
    then show ?thesis using False \<open>B x\<close> by simp
  qed (use Cons in auto)
qed simp

lemma shard_scan_filter:
  assumes "index_law E" "distinct (map fst (seen_rows s r))"
  shows "shard_scan_rows E matches s r = filter (\<lambda>(k, row). matches k) (me_index_seq E (seen_rows s r))"
  using assms by (simp add: shard_scan_rows_def index_filter)

text \<open>The two scans that go on behind an entry give what follows it in the shard.\<close>

lemma scans_behind:
  assumes law: "index_law E" and r: "r \<in> set shards" and ok: "entries_ok E d s shards"
    and L: "shard_scan_rows E (in_directory E d) s r = P @ x # Q" and f: "f = snd (fst x)"
  shows "shard_scan_rows E (scan_matches E d f SAME_ID_GREATER_NAME) s r
       @ shard_scan_rows E (scan_matches E d f GREATER_ID) s r = Q"
proof -
  have dist: "distinct (map fst (seen_rows s r))" using ok r by (auto simp: entries_ok_def)
  define rs where "rs = me_index_seq E (seen_rows s r)"
  have rs: "set rs = set (seen_rows s r)" "sorted_wrt (key_less E) (map fst rs)"
    using law dist by (simp_all add: index_law_def rs_def)
  note scan = shard_scan_filter [OF law dist, folded rs_def]
  have PxQ: "filter (\<lambda>(k, row). in_directory E d k) rs = P @ x # Q" using L scan by simp
  then have "x \<in> set (filter (\<lambda>(k, row). in_directory E d k) rs)" by simp
  then have x: "x \<in> set rs" "in_directory E d (fst x)" by auto
  then have key: "fst (fst x) = parent_key E d f" using ok r rs(1) f by (fastforce simp: entries_ok_def)
  let ?same = "\<lambda>y. scan_matches E d f SAME_ID_GREATER_NAME (fst y)"
  let ?greater = "\<lambda>y. scan_matches E d f GREATER_ID (fst y)"
  have within: "?same y \<Longrightarrow> in_directory E d (fst y)" "?greater y \<Longrightarrow> in_directory E d (fst y)" for y
    using x(2) key by (auto simp: scan_matches_def)
  have narrow: "filter (\<lambda>(k, row). scan_matches E d f st k) rs = filter (\<lambda>y. scan_matches E d f st (fst y)) (P @ x # Q)"
    if "st = SAME_ID_GREATER_NAME \<or> st = GREATER_ID" for st
    unfolding PxQ [symmetric] filter_filter using within that by (intro filter_cong) auto
  have sorted: "sorted_wrt (\<lambda>a b. key_less E (fst a) (fst b)) (P @ x # Q)"
    unfolding PxQ [symmetric] using rs(2) by (simp add: sorted_wrt_map sorted_wrt_filter)
  note strict = key_less_strict [OF law]
  have before: "\<not> ?same y \<and> \<not> ?greater y" if "y \<in> set P \<or> y = x" for y
  proof -
    have "y = x \<or> key_less E (fst y) (fst x)" using that sorted by (auto simp: sorted_wrt_append)
    moreover have "\<not> (me_name_gt E f f)" "\<not> (me_name_gt E f n \<and> me_name_gt E n f)" for n
      using law unfolding index_law_def by (meson irreflpD transpD)+
    ultimately show ?thesis using key f by (auto simp: scan_matches_def key_less_def)
  qed
  have behind: "?same y \<noteq> ?greater y" if "y \<in> set Q" for y
  proof -
    have "key_less E (fst x) (fst y)" using that sorted by (auto simp: sorted_wrt_append)
    moreover have "y \<in> set (filter (\<lambda>(k, row). in_directory E d k) rs)" using that by (simp add: PxQ)
    then have "in_directory E d (fst y)" by auto
    ultimately show ?thesis unfolding key_less_def scan_matches_def key f [symmetric] by (elim disjE conjE) (auto simp: key)
  qed
  have "filter ?same Q @ filter ?greater Q = Q"
  proof (rule filter_stages)
    show "sorted_wrt (\<lambda>a b. key_less E (fst a) (fst b)) Q" using sorted by (simp add: sorted_wrt_append)
    show "\<forall>y z. key_less E (fst y) (fst z) \<longrightarrow> ?greater y \<longrightarrow> \<not> ?same z" by (auto simp: scan_matches_def key_less_def)
  qed (use behind in blast)
  moreover have "filter ?same P = []" "filter ?greater P = []" using before by (auto simp: filter_empty_conv)
  ultimately show ?thesis using before [of x] by (simp add: scan narrow)
qed

section \<open>Pages\<close>

text \<open>The entries a client collects that goes on reading until it is told that nothing is left.\<close>

inductive reads_on :: "meta_env \<Rightarrow> u64 \<Rightarrow> int \<Rightarrow> meta_state \<Rightarrow> int \<Rightarrow> string option \<Rightarrow> (string \<times> u32) list \<Rightarrow> bool"
  for E directoryId readDirMaxReadCount s where
  last_page: "read_page E directoryId readDirMaxReadCount k f s = Returns (Inr (- 1, None, page), s)
    \<Longrightarrow> reads_on E directoryId readDirMaxReadCount s k f page"
| next_page: "read_page E directoryId readDirMaxReadCount k f s = Returns (Inr (k1, f1, page), s) \<Longrightarrow> k1 \<noteq> - 1
    \<Longrightarrow> reads_on E directoryId readDirMaxReadCount s k1 f1 pages
    \<Longrightarrow> reads_on E directoryId readDirMaxReadCount s k f (page @ pages)"

definition page_limit :: "int \<Rightarrow> int" where
  "page_limit readDirMaxReadCount = (if readDirMaxReadCount = - 1 then 2 ^ 31 - 1 else readDirMaxReadCount)"

lemma read_page_result:
  assumes ready: "listing_ready E s serverId shards" and "k \<ge> - 1" and pos: "0 < page_limit c"
    and loop: "read_loop E d f (page_limit c) shards (if k = - 1 then 0 else nat k) (if k = - 1 then NEW_SHARD else SAME_ID_GREATER_NAME) [] s
      = Returns (Inr (walk (page_limit c) steps (length shards) []), s)"
  shows "read_page E d c k f s = Returns (Inr (- 1, None, map entry (concat (map snd steps))), s)
    \<or> (\<exists>before j A x B after. steps = before @ (j, A @ x # B) # after
        \<and> read_page E d c k f s = Returns (Inr (int j, Some (snd (fst x)), map entry (concat (map snd before) @ A @ [x])), s))"
proof -
  have shards: "on_shards GetShardTableData s = Returns (Inr shards, s)" using ready by (simp add: listing_ready_def)
  have page: "read_page E d c k f s = (case walk (page_limit c) steps (length shards) [] of (j, rs) \<Rightarrow>
      if int (length rs) < page_limit c then Returns (Inr (- 1, None, rs), s)
      else if rs = [] then Faults else Returns (Inr (int j, Some (fst (last rs)), rs), s))"
    using shards loop assms(2) by (simp add: read_page_def exec_bind_def Let_def page_limit_def split: prod.split)
  have "int (length []) < page_limit c" using pos by simp
  from walk_result [OF this, of steps "length shards"] show ?thesis
  proof (elim disjE exE conjE)
    fix before j A x B after
    assume h: "steps = before @ (j, A @ x # B) # after"
      "walk (page_limit c) steps (length shards) [] = (j, [] @ map entry (concat (map snd before) @ A @ [x]))"
      "int (length ([] @ map entry (concat (map snd before) @ A @ [x]))) = page_limit c"
    have "read_page E d c k f s = Returns (Inr (int j, Some (snd (fst x)), map entry (concat (map snd before) @ A @ [x])), s)"
      unfolding page h(2) using h(3) by simp
    then show ?thesis using h(1) by blast
  qed (use page in simp)
qed

lemma steps_concat_behind:
  assumes "index_law E" "entries_ok E d s shards" "k < length shards"
    and "shard_scan_rows E (in_directory E d) s (shards ! k) = P @ x # Q"
  shows "concat (map snd (steps_behind E d s serverId shards k (snd (fst x))))
    = Q @ concat (map snd (steps_from E d s serverId shards (Suc k)))"
  using scans_behind [OF assms(1) nth_mem [OF assms(3)] assms(2,4) refl] by (simp add: steps_behind_def)

text \<open>A row of a later shard: what has been read up to it and what is left behind it.\<close>

lemma steps_from_split:
  assumes "steps_from E d s serverId shards k = before @ (j, found) # after"
  shows "j < length shards \<and> shard_server (shards ! j) = serverId
    \<and> found = shard_scan_rows E (in_directory E d) s (shards ! j) \<and> after = steps_from E d s serverId shards (Suc j)"
  using assms
proof (induction "length shards - k" arbitrary: k before)
  case 0
  then show ?case by (simp add: steps_from_def)
next
  case (Suc n)
  then have k: "k < length shards" "n = length shards - Suc k" by simp_all
  show ?case
  proof (cases "shard_server (shards ! k) = serverId")
    case True
    then have steps: "(k, shard_scan_rows E (in_directory E d) s (shards ! k)) # steps_from E d s serverId shards (Suc k)
        = before @ (j, found) # after"
      using Suc.prems steps_from_unfold [OF k(1), of E d s serverId] by simp
    show ?thesis
    proof (cases before)
      case Nil
      then show ?thesis using steps True k(1) by auto
    next
      case (Cons b bs)
      then show ?thesis using steps Suc.hyps(1) [OF k(2), of bs] by simp
    qed
  next
    case False
    then show ?thesis using Suc.prems steps_from_unfold [OF k(1), of E d s serverId] Suc.hyps(1) [OF k(2)] by simp
  qed
qed

text \<open>
  Wherever a page ends, the entry it ends with is in a shard of this server, and what has not been read is
  what follows it.
\<close>

lemma steps_behind_split:
  assumes law: "index_law E" "entries_ok E d s shards" and k: "k < length shards" "shard_server (shards ! k) = serverId"
    and L: "shard_scan_rows E (in_directory E d) s (shards ! k) = P @ y # Q"
    and split: "steps_behind E d s serverId shards k (snd (fst y)) = before @ (j, A @ x # B) # after"
  shows "j < length shards \<and> shard_server (shards ! j) = serverId
    \<and> (\<exists>P1 Q1. shard_scan_rows E (in_directory E d) s (shards ! j) = P1 @ x # Q1
        \<and> Q1 @ concat (map snd (steps_from E d s serverId shards (Suc j))) = B @ concat (map snd after))"
proof -
  let ?f = "snd (fst y)"
  let ?S = "shard_scan_rows E (scan_matches E d ?f SAME_ID_GREATER_NAME) s (shards ! k)"
  let ?G = "shard_scan_rows E (scan_matches E d ?f GREATER_ID) s (shards ! k)"
  have Q: "?S @ ?G = Q" using scans_behind [OF law(1) nth_mem [OF k(1)] law(2) L refl] .
  have steps: "(k, ?S) # (k, ?G) # steps_from E d s serverId shards (Suc k) = before @ (j, A @ x # B) # after"
    using split by (simp add: steps_behind_def)
  consider "before = []" | "before = [(k, ?S)]" | more where "before = (k, ?S) # (k, ?G) # more"
    using steps by (cases before; cases "tl before") auto
  then show ?thesis
  proof cases
    case 1
    then have "j = k" "?S = A @ x # B" "after = (k, ?G) # steps_from E d s serverId shards (Suc k)" using steps by auto
    moreover from this have "shard_scan_rows E (in_directory E d) s (shards ! j) = (P @ y # A) @ x # (B @ ?G)"
      using L Q by auto
    ultimately show ?thesis using k by (auto intro!: exI [of _ "P @ y # A"] exI [of _ "B @ ?G"])
  next
    case 2
    then have "j = k" "?G = A @ x # B" "after = steps_from E d s serverId shards (Suc k)" using steps by auto
    moreover from this have "shard_scan_rows E (in_directory E d) s (shards ! j) = (P @ y # ?S @ A) @ x # B"
      using L Q by auto
    ultimately show ?thesis using k by blast
  next
    case 3
    then have "steps_from E d s serverId shards (Suc k) = more @ (j, A @ x # B) # after" using steps by simp
    from steps_from_split [OF this] show ?thesis by metis
  qed
qed

lemma reads_on_behind:
  assumes law: "index_law E" "entries_ok E d s shards" and ready: "listing_ready E s serverId shards" and pos: "0 < page_limit c"
    and k: "k < length shards" "shard_server (shards ! k) = serverId"
    and L: "shard_scan_rows E (in_directory E d) s (shards ! k) = P @ y # Q"
  shows "reads_on E d c s (int k) (Some (snd (fst y))) (map entry (Q @ concat (map snd (steps_from E d s serverId shards (Suc k)))))"
  using k L
proof (induction "length (Q @ concat (map snd (steps_from E d s serverId shards (Suc k))))" arbitrary: k P y Q rule: less_induct)
  case less
  let ?steps = "steps_behind E d s serverId shards k (snd (fst y))"
  have all: "concat (map snd ?steps) = Q @ concat (map snd (steps_from E d s serverId shards (Suc k)))"
    using steps_concat_behind [OF law less.prems(1,3)] .
  have "read_loop E d (Some (snd (fst y))) (page_limit c) shards (if int k = - 1 then 0 else nat (int k))
      (if int k = - 1 then NEW_SHARD else SAME_ID_GREATER_NAME) [] s = Returns (Inr (walk (page_limit c) ?steps (length shards) []), s)"
    using read_loop_behind [OF ready less.prems(1,2)] by simp
  from read_page_result [OF ready _ pos this] consider
    (over) "read_page E d c (int k) (Some (snd (fst y))) s = Returns (Inr (- 1, None, map entry (concat (map snd ?steps))), s)"
  | (more) before j A x B after where "?steps = before @ (j, A @ x # B) # after"
      "read_page E d c (int k) (Some (snd (fst y))) s
        = Returns (Inr (int j, Some (snd (fst x)), map entry (concat (map snd before) @ A @ [x])), s)"
    by auto
  then show ?case
  proof cases
    case over
    then show ?thesis unfolding all by (rule reads_on.last_page)
  next
    case more
    from steps_behind_split [OF law less.prems more(1)] obtain P1 Q1 where
      j: "j < length shards" "shard_server (shards ! j) = serverId"
        "shard_scan_rows E (in_directory E d) s (shards ! j) = P1 @ x # Q1"
      and rest: "Q1 @ concat (map snd (steps_from E d s serverId shards (Suc j))) = B @ concat (map snd after)" by blast
    have whole: "concat (map snd ?steps) = concat (map snd before) @ A @ x # B @ concat (map snd after)" using more(1) by simp
    then have "length (Q1 @ concat (map snd (steps_from E d s serverId shards (Suc j))))
        < length (Q @ concat (map snd (steps_from E d s serverId shards (Suc k))))"
      unfolding all [symmetric] rest whole by simp
    note less.hyps [OF this j]
    from reads_on.next_page [OF more(2) _ this] show ?thesis
      unfolding rest all [symmetric] whole by simp
  qed
qed

lemma steps_from_listing:
  "concat (map snd (steps_from E d s serverId shards 0)) = dir_listing E d s serverId shards"
proof -
  have "map (\<lambda>j. shard_scan_rows E (in_directory E d) s (shards ! j)) (filter (\<lambda>j. shard_server (shards ! j) = serverId) [0..<length shards])
      = map (shard_scan_rows E (in_directory E d) s) (map ((!) shards) (filter (\<lambda>j. shard_server (shards ! j) = serverId) [0..<length shards]))"
    by simp
  also have "map ((!) shards) (filter (\<lambda>j. shard_server (shards ! j) = serverId) [0..<length shards])
      = filter (\<lambda>r. shard_server r = serverId) shards"
    using filter_map [of "\<lambda>r. shard_server r = serverId" "(!) shards" "[0..<length shards]"] by (simp add: map_nth comp_def)
  finally show ?thesis by (simp add: steps_from_def dir_listing_def comp_def)
qed

lemma reads_on_all:
  assumes law: "index_law E" "entries_ok E d s shards" and ready: "listing_ready E s serverId shards" and pos: "0 < page_limit c"
  shows "reads_on E d c s (- 1) f (map entry (dir_listing E d s serverId shards))"
proof -
  let ?steps = "steps_from E d s serverId shards 0"
  have "read_loop E d f (page_limit c) shards (if - 1 = (- 1 :: int) then 0 else nat (- 1))
      (if - 1 = (- 1 :: int) then NEW_SHARD else SAME_ID_GREATER_NAME) [] s = Returns (Inr (walk (page_limit c) ?steps (length shards) []), s)"
    using read_loop_new [OF ready, of 0] by simp
  from read_page_result [OF ready _ pos this] consider
    (over) "read_page E d c (- 1) f s = Returns (Inr (- 1, None, map entry (concat (map snd ?steps))), s)"
  | (more) before j A x B after where "?steps = before @ (j, A @ x # B) # after"
      "read_page E d c (- 1) f s = Returns (Inr (int j, Some (snd (fst x)), map entry (concat (map snd before) @ A @ [x])), s)"
    by auto
  then show ?thesis
  proof cases
    case over
    then show ?thesis unfolding steps_from_listing by (rule reads_on.last_page)
  next
    case more
    from steps_from_split [OF more(1)] have j: "j < length shards" "shard_server (shards ! j) = serverId"
      "shard_scan_rows E (in_directory E d) s (shards ! j) = A @ x # B" and after: "after = steps_from E d s serverId shards (Suc j)" by auto
    from reads_on.next_page [OF more(2) _ reads_on_behind [OF law ready pos j]] show ?thesis
      unfolding steps_from_listing [symmetric] more(1) by (simp add: after)
  qed
qed

lemma reads_on_unique:
  assumes "reads_on E d c s k f a" "reads_on E d c s k f b" shows "a = b"
  using assms
proof (induction arbitrary: b)
  case (last_page k f page)
  from last_page(2,1) show ?case by (cases rule: reads_on.cases) auto
next
  case (next_page k f k1 f1 page pages)
  from next_page(5,1,2,4) show ?case by (cases rule: reads_on.cases) auto
qed

lemma set_dir_listing:
  assumes "index_law E" "entries_ok E d s shards"
  shows "set (dir_listing E d s serverId shards)
    = {(k, row). in_directory E d k \<and> (\<exists>r \<in> set shards. shard_server r = serverId \<and> (k, row) \<in> set (seen_rows s r))}"
proof -
  have "set (shard_scan_rows E (in_directory E d) s r) = {(k, row). in_directory E d k \<and> (k, row) \<in> set (seen_rows s r)}"
    if "r \<in> set shards" for r
  proof -
    have "distinct (map fst (seen_rows s r))" using assms(2) that by (auto simp: entries_ok_def)
    then show ?thesis using shard_scan_filter [OF assms(1), of s r] assms(1) by (auto simp: index_law_def)
  qed
  then show ?thesis by (auto simp: dir_listing_def)
qed


section \<open>The listing of a small directory\<close>

lemma index_key_inj: "index_key a = index_key b \<longleftrightarrow> fst a = fst b"
  by (cases a; cases b) (auto simp: index_key_def intro: signed_word_eqI)

lemma small_key_less: "index_key a < index_key b \<Longrightarrow> key_less small_meta_env (fst a) (fst b)"
  by (cases a; cases b) (auto simp: index_key_def key_less_def small_meta_env_def less_prod_def' intro: signed_word_eqI)

lemma small_index_law: "index_law small_meta_env"
proof -
  have "sorted_wrt (key_less small_meta_env) (map fst (sort_key index_key rs))" if "distinct (map fst rs)" for rs
  proof -
    have "distinct (map index_key (sort_key index_key rs))"
      using that by (auto simp: distinct_map inj_on_def index_key_inj)
    then have "sorted_wrt (<) (map index_key (sort_key index_key rs))" by (simp add: strict_sorted_iff)
    then show ?thesis unfolding sorted_wrt_map by (rule sorted_wrt_mono_rel [rotated]) (rule small_key_less)
  qed
  then show ?thesis by (simp add: index_law_def small_meta_env_def transp_def irreflp_def)
qed

lemma small_listing:
  "listing_ready small_meta_env small_meta 1 [\<lparr>range_point = 2147483647, shard_server = 1\<rparr>]"
  using small_local_id [of small_meta]
  by (simp add: listing_ready_def small_meta_remote)
    (simp add: small_meta_def on_part_def GetShardTableData_def with_current_shards_def reload_while.simps)

lemma small_seen:
  "seen_rows small_meta \<lparr>range_point = 2147483647, shard_server = 1\<rparr>
     = [((parent_key small_meta_env 7 ''b'', ''b''), file_row 21 (S_IFREG OR 0x1A4)),
        ((parent_key small_meta_env 7 ''d'', ''d''), file_row 22 (S_IFDIR OR 0x1ED))]"
  by (simp add: seen_rows_def small_meta_def heap_of_def)

lemma small_keys: "parent_key small_meta_env 7 ''b'' = 57442" "parent_key small_meta_env 7 ''d'' = 57444"
  by code_simp+

lemma small_entries: "entries_ok small_meta_env 7 small_meta [\<lparr>range_point = 2147483647, shard_server = 1\<rparr>]"
  by (simp add: entries_ok_def small_seen)


end
