(* ===== verification/Meta_Moves.thy ===== *)
theory Meta_Moves
  imports Meta_Listing
begin

text \<open>
  Removing directories and renaming, on the servers that carry the requests out: a directory is only
  removed when it is empty, a renamed file keeps its row, and what reaches another server of it.
\<close>

section \<open>Calls that leave the state alone\<close>

text \<open>An operation on one part that answers without changing anything does so in every state with this part.\<close>

lemma on_part_same:
  assumes "on_part get put m s = Returns (x, s)" "\<And>a t. get (put a t) = a" "get t = get s" "\<And>t. put (get t) t = t"
  shows "on_part get put m t = Returns (x, t)"
proof -
  obtain a where "m (get s) = Returns (x, a)" "put a s = s"
    using assms(1) by (auto simp: on_part_def split: run.splits)
  moreover from this have "a = get s" using assms(2) by metis
  ultimately show ?thesis using assms(3) assms(4) [of t] by (simp add: on_part_def)
qed

lemma local_server_id_same:
  assumes "local_server_id E s = Returns (x, s)" "rc_servers (m_remote t) = rc_servers (m_remote s)"
  shows "local_server_id E t = Returns (x, t)"
proof -
  let ?f = "GetLocalServerId (text_clip (me_pq E)) (server_seq (me_pq E))"
  obtain fs where f: "?f (rc_servers (m_remote s)) = (x, fs)" "s\<lparr>m_remote := (m_remote s)\<lparr>rc_servers := fs\<rparr>\<rparr> = s"
    using assms(1) by (auto simp: local_server_id_def on_part_def on_servers_def split: prod.splits)
  then have "rc_servers (m_remote (s\<lparr>m_remote := (m_remote s)\<lparr>rc_servers := fs\<rparr>\<rparr>)) = rc_servers (m_remote s)" by simp
  then have "fs = rc_servers (m_remote s)" by simp
  then show ?thesis using f(1) assms(2) [symmetric] by (simp add: local_server_id_def on_part_def on_servers_def)
qed

lemma search_shard_same:
  "search_shard E key s = Returns (x, s) \<Longrightarrow> m_shards t = m_shards s \<Longrightarrow> search_shard E key t = Returns (x, t)"
  unfolding search_shard_def by (erule on_part_same) simp_all

lemma shard_data_same:
  "on_shards GetShardTableData s = Returns (x, s) \<Longrightarrow> m_shards t = m_shards s \<Longrightarrow> on_shards GetShardTableData t = Returns (x, t)"
  by (erule on_part_same) simp_all

lemma listing_ready_same:
  assumes "listing_ready E s serverId shards" "m_remote t = m_remote s" "m_shards t = m_shards s" "m_inodes t = m_inodes s"
  shows "listing_ready E t serverId shards"
  using assms local_server_id_same [of E s "Inr serverId" t] shard_data_same [of s "Inr shards" t]
  by (simp add: listing_ready_def)

section \<open>Removing a directory\<close>

lemma Search_caches:
  assumes run: "SearchDirectoryByDirectoryHashTable E pid name mode s = Returns (Inr v, s')"
    and E: "scan_complete E" and wf: "dir_wf E s" and mode: "mode \<noteq> DIR_LOCK_NONE"
  shows "cache E s' (pid, name) \<noteq> None"
proof -
  let ?k = "(pid, name)" and ?v = "SearchDirectoryTableInfo (directory_table s) (pid, name)"
  have "exec_bind (if cached_id E ?k s = DIR_HASH_TABLE_PATH_UNKNOWN then exec_loop (enter_loop E ?k mode ?v) else exec_return True)
      (\<lambda>have_item. if \<not> have_item then exec_return ?v
        else exec_bind (lock_item E ?k mode) (\<lambda>_. exec_gets (cached_id E ?k))) s = Returns (Inr v, s')"
    using run unfolding SearchDirectoryByDirectoryHashTable_def
    by (auto simp: exec_bind_def key_copy_def Let_def split: if_splits)
  then obtain b s1 where enter: "(if cached_id E ?k s = DIR_HASH_TABLE_PATH_UNKNOWN then exec_loop (enter_loop E ?k mode ?v)
      else exec_return True) s = Returns (Inr b, s1)"
    and rest: "(if \<not> b then exec_return ?v else exec_bind (lock_item E ?k mode) (\<lambda>_. exec_gets (cached_id E ?k))) s1 = Returns (Inr v, s')"
    by (rule exec_bind_Inr)
  have "b \<and> cache E s1 ?k \<noteq> None"
  proof (cases "cached_id E ?k s = DIR_HASH_TABLE_PATH_UNKNOWN")
    case True
    then have "enter_loop E ?k mode ?v s = Some (Inr b, s1)" using enter by (simp add: exec_loop_def split: option.splits)
    from enter_loop_post [OF this E wf] show ?thesis using mode by (cases b) (auto simp: enter_post_def)
  next
    case False
    then show ?thesis using enter by (auto simp: cached_id_cache split: option.splits)
  qed
  moreover from this obtain u s2 where "lock_item E ?k mode s1 = Returns (Inr u, s2)" "s' = s2"
    using rest by (auto elim: exec_bind_Inr)
  ultimately show ?thesis using lock_item_cache(1) by metis
qed

lemma shard_empty_run:
  assumes ready: "listing_ready E s serverId shards" and r: "r \<in> set shards"
  shows "shard_empty E d r s
    = Returns (if shard_server r = serverId \<and> shard_scan_rows E (in_directory E d) s r \<noteq> [] then Inl ARGUMENT_ERROR else Inr (), s)"
proof -
  have "local_server_id E s = Returns (Inr serverId, s)" using ready by (simp add: listing_ready_def)
  moreover have "shard_server r = serverId \<Longrightarrow> scan_shard E (range_point r) (in_directory E d) s
      = Returns (Inr (shard_scan_rows E (in_directory E d) s r), s)"
    using ready r by (intro scan_shard_ready) (auto simp: listing_ready_def)
  ultimately show ?thesis by (simp add: shard_empty_def check_that_def)
qed

lemma shards_empty_run:
  assumes "listing_ready E s serverId shards" and "set rs \<subseteq> set shards"
  shows "each (shard_empty E d) rs s
    = Returns (if \<exists>r \<in> set rs. shard_server r = serverId \<and> shard_scan_rows E (in_directory E d) s r \<noteq> []
               then Inl ARGUMENT_ERROR else Inr (), s)"
  using assms(2)
proof (induction rs)
  case (Cons r rs)
  then show ?case using shard_empty_run [OF assms(1), of r d] by (auto simp: exec_bind_def)
qed simp


section \<open>Renaming a file\<close>

lemma rows_some_table: "rows rel s key = Some row \<Longrightarrow> m_inodes s rel \<noteq> None"
  by (auto simp: rows_def split: option.splits)

lemma take_row_settled:
  assumes settled: "tables_settled s" and row: "rows rel s key = Some row"
  obtains s1 where "take_row rel key s = (Inr row, s1)" "rows rel s1 = (rows rel s)(key := None)"
    "\<forall>r. r \<noteq> rel \<longrightarrow> rows r s1 = rows r s" "tables_settled s1" "rows_only s s1"
    "\<forall>r. m_inodes s1 r = None \<longleftrightarrow> m_inodes s r = None"
proof -
  obtain h where h: "m_inodes s rel = Some h" using rows_some_table [OF row] by blast
  note seen = settled_heap [OF settled h]
  let ?f = "\<lambda>h. h\<lparr>h_now := filter (\<lambda>r. fst r \<noteq> key) (h_now h), h_touched := key # h_touched h\<rparr>"
  have "take_row rel key s = (Inr row, with_heap rel ?f s)"
    using h seen row fetch_settled [OF settled, of rel key]
    by (auto simp: take_row_def op_bind_def on_table_def heap_delete_def next_command_def with_heap_def)
  moreover have "rows rel (with_heap rel ?f s) = (rows rel s)(key := None)" "\<forall>r. r \<noteq> rel \<longrightarrow> rows r (with_heap rel ?f s) = rows r s"
    using h by (simp_all add: rows_with_heap) (simp add: rows_def)
  ultimately show thesis by (rule that) simp_all
qed

text \<open>The rows after a file has moved from one key to another.\<close>

definition moved :: "string \<Rightarrow> inode_key \<Rightarrow> string \<Rightarrow> inode_key \<Rightarrow> (string \<Rightarrow> inode_key \<rightharpoonup> inode_row) \<Rightarrow> string \<Rightarrow> inode_key \<rightharpoonup> inode_row" where
  "moved srcRel src dstRel dst f =
     (let g = f(srcRel := (f srcRel)(src := None)) in g(dstRel := (g dstRel)(dst := f srcRel src)))"

lemma insert_moved:
  assumes s1: "rows srcRel s1 = (rows srcRel s)(src := None)" "\<forall>r. r \<noteq> srcRel \<longrightarrow> rows r s1 = rows r s"
    and row: "rows srcRel s src = Some row" and dst: "m_inodes s1 dstRel \<noteq> None"
  shows "\<not> ((srcRel, src) \<noteq> (dstRel, dst) \<and> rows dstRel s dst \<noteq> None) \<Longrightarrow>
      \<exists>s2. InsertIntoInodeTable dstRel (fst dst) (snd dst) row s1 = (Inr (), s2)
        \<and> (\<lambda>rel. rows rel s2) = moved srcRel src dstRel dst (\<lambda>rel. rows rel s) \<and> m_infos s2 = m_infos s1"
    and "(srcRel, src) \<noteq> (dstRel, dst) \<and> rows dstRel s dst \<noteq> None \<Longrightarrow>
      InsertIntoInodeTable dstRel (fst dst) (snd dst) row s1 = (Inl UNKNOWN, s1)"
proof -
  note ins = Insert_settled [OF dst, of "fst dst" "snd dst" row, unfolded prod.collapse]
  have free: "rows dstRel s1 dst = None \<longleftrightarrow> \<not> ((srcRel, src) \<noteq> (dstRel, dst) \<and> rows dstRel s dst \<noteq> None)"
    using s1 by (cases "dstRel = srcRel") auto
  show "\<exists>s2. InsertIntoInodeTable dstRel (fst dst) (snd dst) row s1 = (Inr (), s2)
      \<and> (\<lambda>rel. rows rel s2) = moved srcRel src dstRel dst (\<lambda>rel. rows rel s) \<and> m_infos s2 = m_infos s1"
    if "\<not> ((srcRel, src) \<noteq> (dstRel, dst) \<and> rows dstRel s dst \<noteq> None)"
  proof -
    have none: "rows dstRel s1 dst = None" using free that by argo
    let ?s2 = "with_heap dstRel (\<lambda>h. h\<lparr>h_now := h_now h @ [(dst, row)]\<rparr>) s1"
    have "rows dstRel ?s2 = (rows dstRel s1)(dst \<mapsto> row)" "r \<noteq> dstRel \<Longrightarrow> rows r ?s2 = rows r s1" for r
      using rows_insert [OF dst none] by (simp_all add: rows_with_heap)
    then have "(\<lambda>rel. rows rel ?s2) = moved srcRel src dstRel dst (\<lambda>rel. rows rel s)"
      using s1 row by (auto simp: moved_def fun_eq_iff)
    then show ?thesis using ins none by simp
  qed
  show "InsertIntoInodeTable dstRel (fst dst) (snd dst) row s1 = (Inl UNKNOWN, s1)"
    if "(srcRel, src) \<noteq> (dstRel, dst) \<and> rows dstRel s dst \<noteq> None"
    using ins free that by argo
qed

text \<open>
  C9: renaming a file within a server moves its row. Whatever the two shards are, the request returns, the
  row is found unchanged under the new key and no longer under the old one, and no other row changes; if the
  new name is taken, or the file is not there, the request fails.
\<close>

theorem rename_locally_moves_row:
  assumes i: "i < length (m_infos s)" and m: "m = info i s" "\<not> mi_targetIsDirectory m"
    and keys: "mi_parentId_partId m \<noteq> 0" "mi_dstParentIdPartId m \<noteq> 0"
    and settled: "tables_settled s" and local: "local_server_id E s = Returns (Inr serverId, s)"
    and src: "search_shard E (mi_parentId_partId m) s = Returns (Inr (srcShard, serverId), s)"
      "srcRel = GetInodeShardName srcShard" "m_inodes s srcRel \<noteq> None"
    and dst: "search_shard E (mi_dstParentIdPartId m) s = Returns (Inr (dstShard, serverId), s)"
      "dstRel = GetInodeShardName dstShard" "m_inodes s dstRel \<noteq> None"
  shows "\<exists>r s'. CuckooRenameSubRenameLocallyHandle E i s = Returns (r, s')
    \<and> (case rows srcRel s (mi_parentId_partId m, mi_name m) of
         None \<Rightarrow> r = Inl FILE_NOT_EXISTS
       | Some row \<Rightarrow>
           if (srcRel, mi_parentId_partId m, mi_name m) \<noteq> (dstRel, mi_dstParentIdPartId m, mi_dstName m)
             \<and> rows dstRel s (mi_dstParentIdPartId m, mi_dstName m) \<noteq> None
           then r = Inl UNKNOWN
           else r = Inr () \<and> mi_errorCode (info i s') = SUCCESS
             \<and> (\<lambda>rel. rows rel s') = moved srcRel (mi_parentId_partId m, mi_name m) dstRel (mi_dstParentIdPartId m, mi_dstName m) (\<lambda>rel. rows rel s))"
proof -
  let ?src = "(mi_parentId_partId m, mi_name m)" and ?dst = "(mi_dstParentIdPartId m, mi_dstName m)"
  have start: "CuckooRenameSubRenameLocallyHandle E i s =
      exec_bind (exec_op (take_row srcRel ?src)) (\<lambda>row.
      exec_bind (exec_bind (search_shard E (mi_dstParentIdPartId m)) (\<lambda>(dstShardId, dstWorkerId).
        exec_bind (local_server_id E) (\<lambda>serverId.
        if dstWorkerId \<noteq> serverId then exec_raise WRONG_WORKER
        else exec_op (InsertIntoInodeTable (GetInodeShardName dstShardId) (mi_dstParentIdPartId m) (mi_dstName m) row))))
        (\<lambda>_. exec_modify (set_code i SUCCESS))) s"
    using m(2) keys src(1,2) local by (simp add: CuckooRenameSubRenameLocallyHandle_def m(1) [symmetric])
  show ?thesis
  proof (cases "rows srcRel s ?src")
    case None
    then have "take_row srcRel ?src s = (Inl FILE_NOT_EXISTS, s)"
      using fetch_settled [OF settled src(3), of ?src] by (simp add: take_row_def op_bind_def)
    then show ?thesis using None unfolding start by simp
  next
    case (Some row)
    obtain s1 where s1: "take_row srcRel ?src s = (Inr row, s1)" "rows srcRel s1 = (rows srcRel s)(?src := None)"
      "\<forall>r. r \<noteq> srcRel \<longrightarrow> rows r s1 = rows r s" "tables_settled s1" "rows_only s s1"
      "\<forall>r. m_inodes s1 r = None \<longleftrightarrow> m_inodes s r = None"
      by (rule take_row_settled [OF settled Some])
    obtain t u f where only: "s1 = s\<lparr>m_dirs := (m_dirs s)\<lparr>directory_table := t\<rparr>,
        m_remote := (m_remote s)\<lparr>distributed_transaction := u\<rparr>, m_inodes := f\<rparr>"
      using s1(5) by (auto simp: rows_only_def)
    have "search_shard E (mi_dstParentIdPartId m) s1 = Returns (Inr (dstShard, serverId), s1)"
      by (rule search_shard_same [OF dst(1)]) (simp add: only)
    moreover have "local_server_id E s1 = Returns (Inr serverId, s1)"
      by (rule local_server_id_same [OF local]) (simp add: only)
    ultimately have go: "CuckooRenameSubRenameLocallyHandle E i s =
        exec_bind (exec_op (InsertIntoInodeTable dstRel (mi_dstParentIdPartId m) (mi_dstName m) row)) (\<lambda>_. exec_modify (set_code i SUCCESS)) s1"
      unfolding start using s1(1) dst(2) by (auto simp: exec_bind_def)
    have dst1: "m_inodes s1 dstRel \<noteq> None" using s1(6) dst(3) by simp
    show ?thesis
    proof (cases "(srcRel, ?src) \<noteq> (dstRel, ?dst) \<and> rows dstRel s ?dst \<noteq> None")
      case True
      then have "CuckooRenameSubRenameLocallyHandle E i s = Returns (Inl UNKNOWN, s1)"
        unfolding go using insert_moved(2) [OF s1(2,3) Some dst1 True] by simp
      then show ?thesis unfolding Some option.case if_P [OF True] by simp
    next
      case False
      obtain s2 where s2: "InsertIntoInodeTable dstRel (mi_dstParentIdPartId m) (mi_dstName m) row s1 = (Inr (), s2)"
        "(\<lambda>rel. rows rel s2) = moved srcRel ?src dstRel ?dst (\<lambda>rel. rows rel s)" "m_infos s2 = m_infos s1"
        using insert_moved(1) [OF s1(2,3) Some dst1 False] by auto
      have run: "CuckooRenameSubRenameLocallyHandle E i s = Returns (Inr (), set_code i SUCCESS s2)" unfolding go using s2(1) by simp
      have code: "mi_errorCode (info i (set_code i SUCCESS s2)) = SUCCESS" using i s2(3) by (simp add: set_code_def set_info_def info_def only)
      have rows: "(\<lambda>rel. rows rel (set_code i SUCCESS s2)) = moved srcRel ?src dstRel ?dst (\<lambda>rel. rows rel s)"
        using s2(2) by (simp add: set_code_def set_info_def)
      show ?thesis unfolding Some option.case if_not_P [OF False] by (intro exI conjI, rule run, rule refl, rule code, rule rows)
    qed
  qed
qed

section \<open>Moving a file to another server\<close>

text \<open>What arrives of a row.\<close>

definition arrives_as :: "inode_row \<Rightarrow> inode_row" where
  "arrives_as row = row\<lparr>row_etag := [], row_update_version := 0, row_backup_nodeid := - 1\<rparr>"

lemma moved_row_arrives:
  assumes "response_agrees RENAME_SUB_RENAME_LOCALLY ((fill_moved row m)\<lparr>mi_errorCode := SUCCESS\<rparr>) m1"
    and "mi_parentId_partId m \<noteq> 0" "mi_dstParentIdPartId m = 0"
    and "param_of RENAME_SUB_CREATE m2 = param_of RENAME_SUB_CREATE (m1\<lparr>mi_parentId_partId := key, mi_name := fname\<rparr>)"
  shows "moved_row m2 = arrives_as row" "mi_parentId_partId m2 = key" "mi_name m2 = fname"
proof -
  have "stat_of m1 = stat_of (fill_moved row m)" "mi_node_id m1 = row_primary_nodeid row"
    using assms(1-3) by (simp_all add: response_agrees_def fill_moved_def stat_of_def)
  then show "moved_row m2 = arrives_as row" "mi_parentId_partId m2 = key" "mi_name m2 = fname"
    using assms(4) by (cases row; auto simp: param_of_def stat_of_def fill_moved_def moved_row_def arrives_as_def)+
qed

lemma rename_away:
  assumes i: "i < length (m_infos s)" and m: "m = info i s" "\<not> mi_targetIsDirectory m"
    and keys: "mi_parentId_partId m \<noteq> 0" "mi_dstParentIdPartId m = 0"
    and settled: "tables_settled s" and local: "local_server_id E s = Returns (Inr serverId, s)"
    and src: "search_shard E (mi_parentId_partId m) s = Returns (Inr (shardId, serverId), s)"
    and row: "rows (GetInodeShardName shardId) s (mi_parentId_partId m, mi_name m) = Some row"
  obtains s1 where "CuckooRenameSubRenameLocallyHandle E i s = Returns (Inr (), s1)"
    "(\<lambda>rel. rows rel s1) = (\<lambda>rel. rows rel s)(GetInodeShardName shardId := (rows (GetInodeShardName shardId) s)((mi_parentId_partId m, mi_name m) := None))"
    "info i s1 = (fill_moved row m)\<lparr>mi_errorCode := SUCCESS\<rparr>"
proof -
  let ?rel = "GetInodeShardName shardId" and ?src = "(mi_parentId_partId m, mi_name m)"
  obtain s1 where s1: "take_row ?rel ?src s = (Inr row, s1)" "rows ?rel s1 = (rows ?rel s)(?src := None)"
    "\<forall>r. r \<noteq> ?rel \<longrightarrow> rows r s1 = rows r s" "tables_settled s1" "rows_only s s1"
    "\<forall>r. m_inodes s1 r = None \<longleftrightarrow> m_inodes s r = None"
    by (rule take_row_settled [OF settled row])
  have infos: "m_infos s1 = m_infos s" using s1(5) by (rule rows_onlyD)
  let ?s2 = "set_code i SUCCESS (set_info i (fill_moved row) s1)"
  have "CuckooRenameSubRenameLocallyHandle E i s = Returns (Inr (), ?s2)"
    using m(2) keys src local s1(1) by (simp add: CuckooRenameSubRenameLocallyHandle_def m(1) [symmetric])
  moreover have "(\<lambda>rel. rows rel ?s2) = (\<lambda>rel. rows rel s)(?rel := (rows ?rel s)(?src := None))"
    using s1(2,3) by (simp add: set_code_def set_info_def fun_eq_iff)
  moreover have "info i ?s2 = (fill_moved row m)\<lparr>mi_errorCode := SUCCESS\<rparr>"
    using i infos m(1) by (simp add: set_code_def set_info_def info_def)
  ultimately show thesis by (rule that)
qed

lemma rename_create_run:
  assumes "i < length (m_infos s)" "local_server_id E s = Returns (Inr serverId, s)"
    "search_shard E (mi_parentId_partId (info i s)) s = Returns (Inr (shardId, serverId), s)"
    "m_inodes s (GetInodeShardName shardId) \<noteq> None"
    "rows (GetInodeShardName shardId) s (mi_parentId_partId (info i s), mi_name (info i s)) = None"
  shows "\<exists>s'. CuckooRenameSubCreateHandle E i s = Returns (Inr (), s')
    \<and> rows (GetInodeShardName shardId) s'
        = (rows (GetInodeShardName shardId) s)((mi_parentId_partId (info i s), mi_name (info i s)) \<mapsto> moved_row (info i s))"
  using assms Insert_settled [OF assms(4)] rows_insert [OF assms(4,5)]
  by (simp add: CuckooRenameSubCreateHandle_def set_code_def set_info_def)

text \<open>
  C10: a file renamed to a key of another server moves there with all attributes but three. The source
  server takes the row out of its table and answers with its attributes; the coordinator puts the new key
  and name to the answer it received and sends it on; the destination server stores a row with the new
  key, equal to the old one except for the etag, the update version and the backup node, which are reset.
\<close>

theorem rename_across_servers:
  assumes "i < length (m_infos s)" and "m = info i s" "\<not> mi_targetIsDirectory m"
    and "mi_parentId_partId m \<noteq> 0" "mi_dstParentIdPartId m = 0"
    and "tables_settled s" and "local_server_id E s = Returns (Inr serverId, s)"
    and "search_shard E (mi_parentId_partId m) s = Returns (Inr (shardId, serverId), s)"
    and "rows (GetInodeShardName shardId) s (mi_parentId_partId m, mi_name m) = Some row"
  shows "\<exists>s1. CuckooRenameSubRenameLocallyHandle E i s = Returns (Inr (), s1)
    \<and> (\<lambda>rel. rows rel s1) = (\<lambda>rel. rows rel s)(GetInodeShardName shardId :=
          (rows (GetInodeShardName shardId) s)((mi_parentId_partId m, mi_name m) := None))
    \<and> (\<forall>responseInfo E' j t dstKey dstName dstServer dstShard.
         response_agrees RENAME_SUB_RENAME_LOCALLY (info i s1) responseInfo
         \<and> j < length (m_infos t)
         \<and> param_of RENAME_SUB_CREATE (info j t) = param_of RENAME_SUB_CREATE (responseInfo\<lparr>mi_parentId_partId := dstKey, mi_name := dstName\<rparr>)
         \<and> local_server_id E' t = Returns (Inr dstServer, t) \<and> search_shard E' dstKey t = Returns (Inr (dstShard, dstServer), t)
         \<and> m_inodes t (GetInodeShardName dstShard) \<noteq> None \<and> rows (GetInodeShardName dstShard) t (dstKey, dstName) = None
         \<longrightarrow> (\<exists>t1. CuckooRenameSubCreateHandle E' j t = Returns (Inr (), t1)
               \<and> rows (GetInodeShardName dstShard) t1 = (rows (GetInodeShardName dstShard) t)((dstKey, dstName) \<mapsto> arrives_as row)))"
proof -
  obtain s1 where s1: "CuckooRenameSubRenameLocallyHandle E i s = Returns (Inr (), s1)"
    "(\<lambda>rel. rows rel s1) = (\<lambda>rel. rows rel s)(GetInodeShardName shardId := (rows (GetInodeShardName shardId) s)((mi_parentId_partId m, mi_name m) := None))"
    "info i s1 = (fill_moved row m)\<lparr>mi_errorCode := SUCCESS\<rparr>"
    by (rule rename_away [OF assms])
  show ?thesis
  proof (rule exI [of _ s1], intro conjI allI impI)
    fix responseInfo E' j t dstKey dstName dstServer dstShard
    assume h: "response_agrees RENAME_SUB_RENAME_LOCALLY (info i s1) responseInfo
         \<and> j < length (m_infos t)
         \<and> param_of RENAME_SUB_CREATE (info j t) = param_of RENAME_SUB_CREATE (responseInfo\<lparr>mi_parentId_partId := dstKey, mi_name := dstName\<rparr>)
         \<and> local_server_id E' t = Returns (Inr dstServer, t) \<and> search_shard E' dstKey t = Returns (Inr (dstShard, dstServer), t)
         \<and> m_inodes t (GetInodeShardName dstShard) \<noteq> None \<and> rows (GetInodeShardName dstShard) t (dstKey, dstName) = None"
    then have "response_agrees RENAME_SUB_RENAME_LOCALLY ((fill_moved row m)\<lparr>mi_errorCode := SUCCESS\<rparr>) responseInfo" using s1(3) by simp
    from moved_row_arrives [OF this assms(4,5)] h
    have "moved_row (info j t) = arrives_as row" "mi_parentId_partId (info j t) = dstKey" "mi_name (info j t) = dstName" by blast+
    then show "\<exists>t1. CuckooRenameSubCreateHandle E' j t = Returns (Inr (), t1)
        \<and> rows (GetInodeShardName dstShard) t1 = (rows (GetInodeShardName dstShard) t)((dstKey, dstName) \<mapsto> arrives_as row)"
      using rename_create_run [of j t E' dstServer dstShard] h by simp
  qed (rule s1)+
qed

section \<open>Examples\<close>

declare entry_loop.simps [code] acquire_loop.simps [code]

lemma small_rmdir_dirs:
  "\<exists>d1 d2. SearchDirectoryByDirectoryHashTable small_env 1 ''a'' DIR_LOCK_EXCLUSIVE small_dir = Returns (Inr 7, d1)
     \<and> DeleteDirectoryByDirectoryHashTable small_env 1 ''a'' DIR_LOCK_NONE d1 = Returns (Inr (), d2)"
proof -
  let ?search = "SearchDirectoryByDirectoryHashTable small_env 1 ''a'' DIR_LOCK_EXCLUSIVE small_dir"
  have run: "case ?search of
      Returns (Inr v, d1) \<Rightarrow> (case DeleteDirectoryByDirectoryHashTable small_env 1 ''a'' DIR_LOCK_NONE d1 of
        Returns (Inr u, d2) \<Rightarrow> v = 7 | _ \<Rightarrow> False) | _ \<Rightarrow> False"
    by code_simp
  obtain r d1 where search: "?search = Returns (r, d1)" using run by (cases ?search) auto
  obtain v where v: "r = Inr v" using run search by (cases r) auto
  let ?delete = "DeleteDirectoryByDirectoryHashTable small_env 1 ''a'' DIR_LOCK_NONE d1"
  have "case ?delete of Returns (Inr u, d2) \<Rightarrow> v = 7 | _ \<Rightarrow> False" using run search v by simp
  then obtain d2 where "?delete = Returns (Inr (), d2)" "v = 7"
    by (cases ?delete) (auto split: sum.split_asm)
  then show ?thesis using search v by blast
qed

text \<open>The small server without files, asked to remove its only directory.\<close>

definition bare_meta :: meta_state where
  "bare_meta = small_meta\<lparr>m_inodes := [GetInodeShardName 2147483647 \<mapsto> heap_of []], m_infos := [rmdir_request 1 ''a'']\<rparr>"

abbreviation small_shard :: shard where
  "small_shard \<equiv> \<lparr>range_point = 2147483647, shard_server = 1\<rparr>"

lemma bare_meta_sel [simp]:
  "m_dirs bare_meta = small_dir" "m_shards bare_meta = m_shards small_meta" "m_remote bare_meta = small_server"
  "mi_parentId (info 0 bare_meta) = 1" "mi_name (info 0 bare_meta) = ''a''" "seen_rows bare_meta small_shard = []"
  by (simp_all add: bare_meta_def small_meta_def info_def rmdir_request_def seen_rows_def heap_of_def)

lemma bare_meta_ready: "listing_ready small_meta_env bare_meta 1 [small_shard]"
  using small_listing small_local_id [of bare_meta] shard_data_same [of small_meta _ bare_meta]
  by (auto simp: listing_ready_def) (simp add: bare_meta_def)

lemma bare_meta_infos_ready:
  "listing_ready small_meta_env (bare_meta\<lparr>m_infos := infos, m_dirs := d\<rparr>) 1 [small_shard]"
  "seen_rows (bare_meta\<lparr>m_infos := infos, m_dirs := d\<rparr>) small_shard = []"
  using bare_meta_sel(6) by (auto intro!: listing_ready_same [OF bare_meta_ready] simp: seen_rows_def)

lemma bare_rmdir_run:
  assumes "mi_parentId m = 1" "mi_name m = ''a''"
  obtains d2 where "CuckooRmdirSubRmdirHandle small_meta_env 0 (bare_meta\<lparr>m_infos := [m]\<rparr>)
    = Returns (Inr (), set_code 0 SUCCESS (bare_meta\<lparr>m_infos := [m], m_dirs := d2\<rparr>))"
proof -
  obtain d1 d2 where dirs: "SearchDirectoryByDirectoryHashTable small_env 1 ''a'' DIR_LOCK_EXCLUSIVE small_dir = Returns (Inr 7, d1)"
    "DeleteDirectoryByDirectoryHashTable small_env 1 ''a'' DIR_LOCK_NONE d1 = Returns (Inr (), d2)"
    using small_rmdir_dirs by blast
  have env: "me_dir small_meta_env = small_env" by (simp add: small_meta_env_def)
  let ?t = "bare_meta\<lparr>m_infos := [m], m_dirs := d2\<rparr>"
  note ready = bare_meta_infos_ready [of d2 "[m]"]
  have "on_shards GetShardTableData ?t = Returns (Inr [small_shard], ?t)" using ready(1) by (simp add: listing_ready_def)
  moreover have "shard_scan_rows small_meta_env (in_directory small_meta_env 7) ?t small_shard = []"
    using ready(2) by (simp add: shard_scan_rows_def small_meta_env_def)
  then have "each (shard_empty small_meta_env 7) [small_shard] ?t = Returns (Inr (), ?t)"
    using shards_empty_run [OF ready(1) order_refl, of 7] by simp
  moreover have "info 0 (bare_meta\<lparr>m_infos := [m]\<rparr>) = m" by (simp add: info_def)
  ultimately have "CuckooRmdirSubRmdirHandle small_meta_env 0 (bare_meta\<lparr>m_infos := [m]\<rparr>) = Returns (Inr (), set_code 0 SUCCESS ?t)"
    using dirs assms by (simp add: CuckooRmdirSubRmdirHandle_def env on_part_def DIR_HASH_TABLE_PATH_NOT_EXIST_def del: each.simps)
  then show thesis by (rule that)
qed


text \<open>The small server, asked to give its file another key; the destination 0 stands for another server.\<close>

definition rename_meta :: "64 word \<Rightarrow> meta_state" where
  "rename_meta dstKey = small_meta\<lparr>m_infos := [(path_request [])\<lparr>mi_parentId_partId := 57442, mi_name := ''b'',
     mi_dstParentIdPartId := dstKey, mi_dstName := ''f''\<rparr>]\<rparr>"

abbreviation small_rel :: string where
  "small_rel \<equiv> GetInodeShardName 2147483647"

lemma rename_meta_sel [simp]:
  "m_shards (rename_meta k) = m_shards small_meta" "m_remote (rename_meta k) = small_server" "m_infos (rename_meta k) \<noteq> []"
  "mi_parentId_partId (info 0 (rename_meta k)) = 57442" "mi_name (info 0 (rename_meta k)) = ''b''"
  "mi_dstParentIdPartId (info 0 (rename_meta k)) = k" "mi_dstName (info 0 (rename_meta k)) = ''f''"
  "\<not> mi_targetIsDirectory (info 0 (rename_meta k))"
  by (simp_all add: rename_meta_def small_meta_def info_def path_request_def)

lemma rename_meta_rows:
  "rows small_rel (rename_meta k) = [(57442, ''b'') \<mapsto> file_row 21 (S_IFREG OR 0x1A4), (57444, ''d'') \<mapsto> file_row 22 (S_IFDIR OR 0x1ED)]"
  "m_inodes (rename_meta k) small_rel \<noteq> None"
  using small_keys by (simp_all add: rename_meta_def small_meta_def rows_def heap_of_def fun_eq_iff)

lemma rename_meta_settled: "tables_settled (rename_meta k)"
  using small_meta_settled by (simp add: settled_iff rename_meta_def)

theorem rename_locally_moves_row_witness:
  "\<exists>s'. CuckooRenameSubRenameLocallyHandle small_meta_env 0 (rename_meta 57446) = Returns (Inr (), s')
     \<and> rows small_rel s' (57446, ''f'') = Some (file_row 21 (S_IFREG OR 0x1A4)) \<and> rows small_rel s' (57442, ''b'') = None"
proof -
  note search = small_search_shard [OF rename_meta_sel(1)] and local = small_local_id [OF rename_meta_sel(2)]
  obtain r s' where "CuckooRenameSubRenameLocallyHandle small_meta_env 0 (rename_meta 57446) = Returns (r, s')" "r = Inr ()"
    "(\<lambda>rel. rows rel s') = moved small_rel (57442, ''b'') small_rel (57446, ''f'') (\<lambda>rel. rows rel (rename_meta 57446))"
    using rename_locally_moves_row [OF _ refl rename_meta_sel(8) [of 57446] _ _ rename_meta_settled local search refl rename_meta_rows(2)
        search refl rename_meta_rows(2)] by (auto simp: rename_meta_rows(1))
  moreover from this(3) have "rows small_rel s' = moved small_rel (57442, ''b'') small_rel (57446, ''f'') (\<lambda>rel. rows rel (rename_meta 57446)) small_rel"
    by (rule fun_cong)
  ultimately show ?thesis by (simp add: moved_def rename_meta_rows(1))
qed

text \<open>The same file on a server that has no files yet.\<close>

theorem rename_across_servers_witness:
  "\<exists>s1 t1. CuckooRenameSubRenameLocallyHandle small_meta_env 0 (rename_meta 0) = Returns (Inr (), s1)
     \<and> rows small_rel s1 (57442, ''b'') = None
     \<and> CuckooRenameSubCreateHandle small_meta_env 0
         (bare_meta\<lparr>m_infos := [(info 0 s1)\<lparr>mi_parentId_partId := 9, mi_name := ''f''\<rparr>]\<rparr>) = Returns (Inr (), t1)
     \<and> rows small_rel t1 (9, ''f'') = Some (file_row 21 (S_IFREG OR 0x1A4))"
proof -
  note search = small_search_shard [OF rename_meta_sel(1)] and local = small_local_id [OF rename_meta_sel(2)]
  have row: "rows small_rel (rename_meta 0) (mi_parentId_partId (info 0 (rename_meta 0)), mi_name (info 0 (rename_meta 0)))
      = Some (file_row 21 (S_IFREG OR 0x1A4))" by (simp add: rename_meta_rows(1))
  obtain s1 where s1: "CuckooRenameSubRenameLocallyHandle small_meta_env 0 (rename_meta 0) = Returns (Inr (), s1)"
    "(\<lambda>rel. rows rel s1) = (\<lambda>rel. rows rel (rename_meta 0))(small_rel := (rows small_rel (rename_meta 0))((57442, ''b'') := None))"
    and arrives: "\<forall>responseInfo E' j t dstKey dstName dstServer dstShard.
         response_agrees RENAME_SUB_RENAME_LOCALLY (info 0 s1) responseInfo
         \<and> j < length (m_infos t)
         \<and> param_of RENAME_SUB_CREATE (info j t) = param_of RENAME_SUB_CREATE (responseInfo\<lparr>mi_parentId_partId := dstKey, mi_name := dstName\<rparr>)
         \<and> local_server_id E' t = Returns (Inr dstServer, t) \<and> search_shard E' dstKey t = Returns (Inr (dstShard, dstServer), t)
         \<and> m_inodes t (GetInodeShardName dstShard) \<noteq> None \<and> rows (GetInodeShardName dstShard) t (dstKey, dstName) = None
         \<longrightarrow> (\<exists>t1. CuckooRenameSubCreateHandle E' j t = Returns (Inr (), t1)
               \<and> rows (GetInodeShardName dstShard) t1 = (rows (GetInodeShardName dstShard) t)((dstKey, dstName) \<mapsto> arrives_as (file_row 21 (S_IFREG OR 0x1A4))))"
    using rename_across_servers [OF _ refl rename_meta_sel(8) [of 0] _ _ rename_meta_settled local search row] by auto
  let ?t = "bare_meta\<lparr>m_infos := [(info 0 s1)\<lparr>mi_parentId_partId := 9, mi_name := ''f''\<rparr>]\<rparr>"
  have "local_server_id small_meta_env ?t = Returns (Inr 1, ?t)" "search_shard small_meta_env 9 ?t = Returns (Inr (2147483647, 1), ?t)"
    by (simp_all add: small_local_id small_search_shard)
  moreover have "m_inodes ?t small_rel \<noteq> None" "rows small_rel ?t (9, ''f'') = None" by (simp_all add: bare_meta_def rows_def heap_of_def)
  moreover have "response_agrees RENAME_SUB_RENAME_LOCALLY (info 0 s1) (info 0 s1)" by (simp add: response_agrees_def)
  moreover have "info 0 ?t = (info 0 s1)\<lparr>mi_parentId_partId := 9, mi_name := ''f''\<rparr>" by (simp add: info_def)
  ultimately obtain t1 where "CuckooRenameSubCreateHandle small_meta_env 0 ?t = Returns (Inr (), t1)"
    "rows small_rel t1 = (rows small_rel ?t)((9, ''f'') \<mapsto> arrives_as (file_row 21 (S_IFREG OR 0x1A4)))"
    using arrives [rule_format, of "info 0 s1" 0 ?t "''f''" 9 small_meta_env 1 2147483647] by auto
  moreover have "rows small_rel s1 (57442, ''b'') = None" using fun_cong [OF s1(2), of small_rel] by simp
  ultimately show ?thesis using s1(1) by (auto simp: arrives_as_def file_row_def)
qed

end
