(* ===== verification/Meta_Service.thy ===== *)
theory Meta_Service
  imports Meta_Moves
begin

text \<open>
  The entry points of the metadata operations: the SQL function that takes a serialized batch of requests,
  which clients and other servers call, and the plain SQL functions for single paths. The first half is the
  model, the second shows that a request which one server encodes is carried out by another one on what was
  encoded, and that the answer reaches the sender.
\<close>

section \<open>Serialized batches\<close>

definition SD_SIZE_T_MAX :: u32 where
  "SD_SIZE_T_MAX = 0xFFFFFFFC"

text \<open>The services that take more than one request, and the operation of every service.\<close>

definition batch_service :: "CuckooSupportMetaService \<Rightarrow> bool" where
  "batch_service service \<longleftrightarrow>
     service \<in> {MKDIR, MKDIR_SUB_MKDIR, MKDIR_SUB_CREATE, CREATE, STAT, OPEN, CLOSE, UNLINK}"

definition dispatch :: "meta_env \<Rightarrow> CuckooSupportMetaService \<Rightarrow> nat list \<Rightarrow> (meta_state, unit) exec" where
  "dispatch E service infoArray =
     (case service of
        MKDIR \<Rightarrow> CuckooMkdirHandle E infoArray
      | MKDIR_SUB_MKDIR \<Rightarrow> CuckooMkdirSubMkdirHandle E infoArray
      | MKDIR_SUB_CREATE \<Rightarrow> CuckooMkdirSubCreateHandle E infoArray
      | CREATE \<Rightarrow> CuckooCreateHandle E infoArray False
      | STAT \<Rightarrow> CuckooStatHandle E infoArray
      | OPEN \<Rightarrow> CuckooOpenHandle E infoArray
      | CLOSE \<Rightarrow> CuckooCloseHandle E infoArray
      | UNLINK \<Rightarrow> CuckooUnlinkHandle E infoArray
      | READDIR \<Rightarrow> CuckooReadDirHandle E 0
      | OPENDIR \<Rightarrow> CuckooOpenDirHandle E 0
      | RMDIR \<Rightarrow> CuckooRmdirHandle E 0
      | RMDIR_SUB_RMDIR \<Rightarrow> CuckooRmdirSubRmdirHandle E 0
      | RMDIR_SUB_UNLINK \<Rightarrow> CuckooRmdirSubUnlinkHandle E 0
      | RENAME \<Rightarrow> CuckooRenameHandle E 0
      | RENAME_SUB_RENAME_LOCALLY \<Rightarrow> CuckooRenameSubRenameLocallyHandle E 0
      | RENAME_SUB_CREATE \<Rightarrow> CuckooRenameSubCreateHandle E 0
      | UTIMENS \<Rightarrow> CuckooUtimeNsHandle E 0
      | CHOWN \<Rightarrow> CuckooChownHandle E 0
      | CHMOD \<Rightarrow> CuckooChmodHandle E 0
      | _ \<Rightarrow> exec_raise ARGUMENT_ERROR)"

text \<open>
  \<open>maxCount\<close> is the number of requests up to which \<^verbatim>\<open>palloc\<close> gives memory for them; a negative count
  asks for more than that. \<open>paramBuffer\<close> is the memory from the start of the parameter on.
\<close>

definition encode_response :: "meta_env \<Rightarrow> CuckooSupportMetaService \<Rightarrow> MetaProcessInfo list \<Rightarrow> (meta_state, u8 list) exec" where
  "encode_response E service infos =
     exec_bind (exec_run (SerializedDataMetaResponseEncode (me_fb E) (me_little E) service infos
       \<lparr>sd_buffer = None, sd_size = 0, sd_capacity = 0, sd_memoryManager = Some (me_mm E)\<rparr>)) (\<lambda>(ok, response).
     if \<not> ok then exec_raise ARGUMENT_ERROR else exec_return (sd_bytes response))"

definition MetaProcess ::
    "meta_env \<Rightarrow> int \<Rightarrow> CuckooSupportMetaService \<Rightarrow> int \<Rightarrow> u8 list \<Rightarrow> (meta_state, u8 list) exec" where
  "MetaProcess E maxCount service n paramBuffer =
     (if n \<noteq> 1 \<and> \<not> batch_service service then exec_raise ARGUMENT_ERROR
      else case SerializedDataInit (me_mm E) \<lparr>sd_buffer = None, sd_size = 0, sd_capacity = 0, sd_memoryManager = None\<rparr>
          (Some paramBuffer) SD_SIZE_T_MAX SD_SIZE_T_MAX None of
        (False, _) \<Rightarrow> exec_raise ARGUMENT_ERROR
      | (True, param) \<Rightarrow>
          if n < 0 \<or> maxCount < n then exec_raise UNKNOWN
          else
            exec_bind (exec_run (SerializedDataMetaParamDecode (me_fb E) (me_little E) service param
              (map (me_fresh E) [0..<nat n]))) (\<lambda>infos.
            case infos of
              None \<Rightarrow> exec_raise ARGUMENT_ERROR
            | Some infos \<Rightarrow>
                exec_bind (exec_modify (\<lambda>s. s\<lparr>m_infos := infos\<rparr>)) (\<lambda>_.
                exec_bind (dispatch E service [0..<nat n]) (\<lambda>_.
                exec_bind (exec_gets m_infos) (encode_response E service)))))"

definition cuckoo_meta_call_by_serialized_data ::
    "meta_env \<Rightarrow> int \<Rightarrow> int \<Rightarrow> int \<Rightarrow> u8 list \<Rightarrow> (meta_state, u8 list) exec" where
  "cuckoo_meta_call_by_serialized_data E maxCount type n param =
     MetaProcess E maxCount (MetaServiceTypeDecode type) n param"

section \<open>Plain functions\<close>

text \<open>A request on the stack, of which only the path is set.\<close>

definition plain_info :: "meta_env \<Rightarrow> string \<Rightarrow> (MetaProcessInfo \<Rightarrow> MetaProcessInfo) \<Rightarrow> (meta_state, unit) exec" where
  "plain_info E path f = exec_modify (\<lambda>s. s\<lparr>m_infos := [f ((me_fresh E 0)\<lparr>mi_path := path\<rparr>)]\<rparr>)"

definition plain_code :: "(meta_state, nat) exec" where
  "plain_code = exec_gets (\<lambda>s. code_number (mi_errorCode (info 0 s)))"

definition cuckoo_plain_mkdir :: "meta_env \<Rightarrow> string \<Rightarrow> (meta_state, nat) exec" where
  "cuckoo_plain_mkdir E path =
     exec_bind (plain_info E path (\<lambda>m. m)) (\<lambda>_. exec_bind (CuckooMkdirHandle E [0]) (\<lambda>_. plain_code))"

definition cuckoo_plain_create :: "meta_env \<Rightarrow> string \<Rightarrow> (meta_state, nat) exec" where
  "cuckoo_plain_create E path =
     exec_bind (plain_info E path (\<lambda>m. m)) (\<lambda>_. exec_bind (CuckooCreateHandle E [0] False) (\<lambda>_. plain_code))"

definition cuckoo_plain_stat :: "meta_env \<Rightarrow> string \<Rightarrow> (meta_state, nat) exec" where
  "cuckoo_plain_stat E path =
     exec_bind (plain_info E path (\<lambda>m. m)) (\<lambda>_. exec_bind (CuckooStatHandle E [0]) (\<lambda>_. plain_code))"

definition cuckoo_plain_rmdir :: "meta_env \<Rightarrow> string \<Rightarrow> (meta_state, nat) exec" where
  "cuckoo_plain_rmdir E path =
     exec_bind (plain_info E path (\<lambda>m. m)) (\<lambda>_. exec_bind (CuckooRmdirHandle E 0) (\<lambda>_. plain_code))"

definition cuckoo_plain_readdir :: "meta_env \<Rightarrow> string \<Rightarrow> (meta_state, string) exec" where
  "cuckoo_plain_readdir E path =
     exec_bind (plain_info E path (\<lambda>m. m\<lparr>mi_readDirMaxReadCount := - 1, mi_readDirLastShardIndex := - 1,
       mi_readDirLastFileName := Some []\<rparr>)) (\<lambda>_.
     exec_bind (CuckooReadDirHandle E 0) (\<lambda>_.
     exec_gets (\<lambda>s. concat (map (\<lambda>r. fst r @ '' '') (mi_readDirResultList (info 0 s))))))"

section \<open>Exchanges between servers\<close>

text \<open>Two servers that agree on the messages, with memory to be had.\<close>

definition peers :: "meta_env \<Rightarrow> meta_env \<Rightarrow> bool" where
  "peers C E \<longleftrightarrow> me_fb C = me_fb E \<and> (\<forall>D \<in> {C, E}. mm_ok (me_mm D) \<and> mm_total (me_mm D))"

text \<open>The generated code reads back what it has written for these requests, filled up with any bytes, and it all fits.\<close>

definition params_readable :: "fb_env \<Rightarrow> CuckooSupportMetaService \<Rightarrow> MetaProcessInfo list \<Rightarrow> bool" where
  "params_readable F service infos \<longleftrightarrow> stored_size (param_messages F service infos) \<le> 2 ^ 31
     \<and> (\<forall>m \<in> set infos. \<forall>pad. length pad < 4 \<longrightarrow>
          fb_param_read F (fb_param_write F (the (param_of service m)) @ pad) = Some (param_of service m))"

definition responses_readable :: "fb_env \<Rightarrow> CuckooSupportMetaService \<Rightarrow> MetaProcessInfo list \<Rightarrow> bool" where
  "responses_readable F service infos \<longleftrightarrow> stored_size (response_messages F service infos) \<le> 2 ^ 31
     \<and> (\<forall>m \<in> set infos. \<forall>pad. length pad < 4 \<longrightarrow>
          fb_response_read F (fb_response_write F (the (response_of service m)) @ pad) = response_of service m)"

lemma fresh_grows: "mm_ok mm \<Longrightarrow> mm_total mm \<Longrightarrow> sd_grows \<lparr>sd_buffer = None, sd_size = 0, sd_capacity = 0, sd_memoryManager = Some mm\<rparr>"
  by (simp add: sd_grows_def sd_wf_def sd_mem_def)

lemma wf_bytes_bounds:
  assumes "sd_wf sd" shows "4 dvd length (sd_bytes sd)" "length (sd_bytes sd) \<le> unat SD_SIZE_T_MAX"
proof -
  show dvd: "4 dvd length (sd_bytes sd)" using assms length_sd_bytes [OF assms] by (simp add: sd_wf_def)
  then obtain k where "length (sd_bytes sd) = 4 * k" by (auto simp: dvd_def)
  moreover have "length (sd_bytes sd) < 2 ^ 32" using length_sd_bytes [OF assms] unat_lt_pow [of "sd_size sd"] by simp
  ultimately show "length (sd_bytes sd) \<le> unat SD_SIZE_T_MAX" by (simp add: SD_SIZE_T_MAX_def)
qed

lemma encode_params_arrive:
  assumes "service \<in> set sub_services" "peers C E" "params_readable (me_fb E) service infos" "length memory = length infos"
  obtains bytes where "encode_params C service infos = Returns bytes" "length bytes \<le> unat SD_SIZE_T_MAX"
    "\<forall>arrived. received arrived bytes \<longrightarrow> (\<exists>infos'. SerializedDataMetaParamDecode (me_fb E) (me_little E) service arrived memory
       = Returns (Some infos') \<and> list_all2 (\<lambda>m m1. param_of service m1 = param_of service m) infos infos')"
proof -
  let ?sd = "\<lparr>sd_buffer = None, sd_size = 0, sd_capacity = 0, sd_memoryManager = Some (me_mm C)\<rparr>"
  have "sd_grows ?sd" "sd_size ?sd = 0" using assms(2) by (simp_all add: peers_def fresh_grows)
  moreover have "stored_size (param_messages (me_fb C) service infos) \<le> 2 ^ 31"
    "\<forall>m \<in> set infos. \<forall>pad. length pad < 4 \<longrightarrow>
      fb_param_read (me_fb C) (fb_param_write (me_fb C) (the (param_of service m)) @ pad) = Some (param_of service m)"
    using assms(2,3) by (simp_all add: peers_def params_readable_def)
  ultimately obtain sd' where "SerializedDataMetaParamEncode (me_fb C) (me_little C) service infos ?sd = Returns (True, sd')"
    "sd_wf sd'" "\<forall>arrived little'. received arrived (sd_bytes sd') \<longrightarrow>
         (\<exists>infos'. SerializedDataMetaParamDecode (me_fb C) little' service arrived memory = Returns (Some infos')
            \<and> list_all2 (\<lambda>m m1. param_of service m1 = param_of service m) infos infos')"
    using param_round_trip [OF assms(1) _ _ _ _ assms(4), of ?sd "me_fb C" "me_little C"] by auto
  then show thesis using assms(2) wf_bytes_bounds(2) by (intro that [of "sd_bytes sd'"]) (simp_all add: encode_params_def peers_def)
qed

lemma encode_response_arrives:
  assumes "service \<in> set sub_services" "peers C E" "responses_readable (me_fb E) service infos" "length memory = length infos"
  shows "\<exists>reply infos'. encode_response E service infos s = Returns (Inr reply, s)
    \<and> (\<forall>t. decode_response C service reply memory t = Returns (Inr infos', t :: meta_state))
    \<and> list_all2 (response_agrees service) infos infos'"
proof -
  let ?sd = "\<lparr>sd_buffer = None, sd_size = 0, sd_capacity = 0, sd_memoryManager = Some (me_mm E)\<rparr>"
  have "sd_grows ?sd" "sd_size ?sd = 0" using assms(2) by (simp_all add: peers_def fresh_grows)
  then obtain sd' where sd': "SerializedDataMetaResponseEncode (me_fb E) (me_little E) service infos ?sd = Returns (True, sd')"
    "sd_wf sd'" "\<forall>arrived little'. received arrived (sd_bytes sd') \<longrightarrow>
         (\<exists>infos'. SerializedDataMetaResponseDecode (me_fb E) little' service arrived memory = Returns (Some infos')
            \<and> list_all2 (response_agrees service) infos infos')"
    using response_round_trip [OF assms(1) _ _ _ _ assms(4), of ?sd "me_fb E" "me_little E"] assms(3)
    by (auto simp: responses_readable_def)
  let ?n = "word_of_nat (length (sd_bytes sd')) :: u32"
  let ?sd1 = "\<lparr>sd_buffer = Some (sd_bytes sd'), sd_size = ?n, sd_capacity = ?n, sd_memoryManager = None\<rparr>"
  have n: "unat ?n = length (sd_bytes sd')" using length_sd_bytes [OF sd'(2)] by simp
  then have "received ?sd1 (sd_bytes sd')" by (simp add: received_def sd_mem_def)
  then obtain infos' where "SerializedDataMetaResponseDecode (me_fb C) (me_little C) service ?sd1 memory = Returns (Some infos')"
    "list_all2 (response_agrees service) infos infos'" using sd'(3) assms(2) by (auto simp: peers_def)
  moreover have "?n AND SERIALIZED_DATA_ALIGNMENT_MASK = 0" using n wf_bytes_bounds(1) [OF sd'(2)] by (simp add: aligned_iff)
  ultimately show ?thesis
    using sd'(1) by (simp add: encode_response_def decode_response_def SerializedDataInit_def exec_run_def exec_bind_def Let_def)
qed

lemma call_decoded:
  assumes "n = 1 \<or> batch_service service" "int n \<le> maxCount" "service \<in> set sub_services"
    and "SerializedDataMetaParamDecode (me_fb E) (me_little E) service
      \<lparr>sd_buffer = Some paramBuffer, sd_size = SD_SIZE_T_MAX, sd_capacity = SD_SIZE_T_MAX, sd_memoryManager = None\<rparr>
      (map (me_fresh E) [0..<n]) = Returns (Some infos')"
  shows "cuckoo_meta_call_by_serialized_data E maxCount (MetaServiceTypeEncode service) (int n) paramBuffer s
    = exec_bind (dispatch E service [0..<n]) (\<lambda>_. exec_bind (exec_gets m_infos) (encode_response E service)) (s\<lparr>m_infos := infos'\<rparr>)"
proof -
  have "MetaServiceTypeDecode (MetaServiceTypeEncode service) = service"
    using assms(3) by (intro service_type_round_trip) (auto simp: sub_services_def)
  moreover have "SD_SIZE_T_MAX AND SERIALIZED_DATA_ALIGNMENT_MASK = 0" by (simp add: aligned_iff SD_SIZE_T_MAX_def)
  ultimately show ?thesis
    using assms(1,2,4)
    by (auto simp: cuckoo_meta_call_by_serialized_data_def MetaProcess_def SerializedDataInit_def exec_run_def exec_bind_def [of "\<lambda>s. run_bind _ _"])
qed

text \<open>How a call ends, given how the operation on the receiving server \<open>E\<close> ends, and what the sender \<open>C\<close> reads then.\<close>

definition answered ::
    "meta_env \<Rightarrow> meta_env \<Rightarrow> CuckooSupportMetaService \<Rightarrow> MetaProcessInfo list \<Rightarrow>
     ((CuckooErrorCode + u8 list) \<times> meta_state) run \<Rightarrow> ((CuckooErrorCode + unit) \<times> meta_state) run \<Rightarrow> bool" where
  "answered C E service memory call operation \<longleftrightarrow>
     (case operation of
        Returns (Inr _, s1) \<Rightarrow>
          length (m_infos s1) = length memory \<and> responses_readable (me_fb E) service (m_infos s1) \<longrightarrow>
          (\<exists>reply answers. call = Returns (Inr reply, s1)
             \<and> (\<forall>t :: meta_state. decode_response C service reply memory t = Returns (Inr answers, t))
             \<and> list_all2 (response_agrees service) (m_infos s1) answers)
      | Returns (Inl e, s1) \<Rightarrow> call = Returns (Inl e, s1)
      | Loops \<Rightarrow> call = Loops
      | Faults \<Rightarrow> call = Faults)"

lemma answered_call:
  assumes "service \<in> set sub_services" "peers C E"
  shows "answered C E service memory (exec_bind D (\<lambda>_. exec_bind (exec_gets m_infos) (encode_response E service)) s) (D s)"
proof (cases "D s")
  case (Returns rs)
  obtain r s1 where rs: "rs = (r, s1)" by (cases rs)
  show ?thesis
  proof (cases r)
    case (Inr u)
    have "\<exists>reply answers. encode_response E service (m_infos s1) s1 = Returns (Inr reply, s1)
        \<and> (\<forall>t :: meta_state. decode_response C service reply memory t = Returns (Inr answers, t))
        \<and> list_all2 (response_agrees service) (m_infos s1) answers"
      if "length (m_infos s1) = length memory" "responses_readable (me_fb E) service (m_infos s1)"
      by (rule encode_response_arrives [OF assms that(2) that(1) [symmetric]])
    then show ?thesis using Returns rs Inr by (simp add: answered_def exec_bind_def)
  qed (simp add: Returns rs answered_def exec_bind_def)
qed (simp_all add: answered_def exec_bind_def)

text \<open>
  C6: a request that one server sends to another one is carried out there on what was sent, and the answer
  comes back. The sender's encoding returns; whatever follows it in memory, the receiver decodes requests
  with the same contents and hands them to the operation of the service. If that raises an error or does
  not return, so does the call; if it returns, the call leaves its state, and the sender decodes the reply
  to the error code of every request and, for a file that moves away, its attributes.
\<close>

theorem sub_request_served:
  assumes "service \<in> set sub_services" "length infos = 1 \<or> batch_service service" "int (length infos) \<le> maxCount"
    and "peers C E" "params_readable (me_fb E) service infos" and "length memory = length infos"
  shows "\<exists>bytes. encode_params C service infos = Returns bytes
    \<and> (\<forall>behind s. \<exists>infos'. list_all2 (\<lambda>m m1. param_of service m1 = param_of service m) infos infos'
         \<and> answered C E service memory
             (cuckoo_meta_call_by_serialized_data E maxCount (MetaServiceTypeEncode service) (int (length infos)) (bytes @ behind) s)
             (dispatch E service [0..<length infos] (s\<lparr>m_infos := infos'\<rparr>)))"
proof -
  obtain bytes where bytes: "encode_params C service infos = Returns bytes" "length bytes \<le> unat SD_SIZE_T_MAX"
    and arrive: "\<forall>arrived. received arrived bytes \<longrightarrow> (\<exists>infos'. SerializedDataMetaParamDecode (me_fb E) (me_little E) service arrived
       (map (me_fresh E) [0..<length infos]) = Returns (Some infos') \<and> list_all2 (\<lambda>m m1. param_of service m1 = param_of service m) infos infos')"
    by (rule encode_params_arrive [OF assms(1,4,5), of "map (me_fresh E) [0..<length infos]"]) simp
  have "\<exists>infos'. list_all2 (\<lambda>m m1. param_of service m1 = param_of service m) infos infos'
         \<and> answered C E service memory
             (cuckoo_meta_call_by_serialized_data E maxCount (MetaServiceTypeEncode service) (int (length infos)) (bytes @ behind) s)
             (dispatch E service [0..<length infos] (s\<lparr>m_infos := infos'\<rparr>))" for behind s
  proof -
    let ?sd = "\<lparr>sd_buffer = Some (bytes @ behind), sd_size = SD_SIZE_T_MAX, sd_capacity = SD_SIZE_T_MAX, sd_memoryManager = None\<rparr>"
    have "received ?sd bytes" using bytes(2) by (simp add: received_def sd_mem_def)
    then obtain infos' where infos': "list_all2 (\<lambda>m m1. param_of service m1 = param_of service m) infos infos'"
      and decoded: "SerializedDataMetaParamDecode (me_fb E) (me_little E) service ?sd (map (me_fresh E) [0..<length infos]) = Returns (Some infos')"
      using arrive by blast
    show ?thesis
      using infos' call_decoded [OF assms(2,3,1) decoded, of s] answered_call [OF assms(1,4)] by metis
  qed
  then show ?thesis using bytes(1) by blast
qed

section \<open>Example\<close>

lemma small_peers: "peers small_meta_env small_meta_env"
  using zeroing_mm_ok by (simp add: peers_def small_meta_env_def)

lemma one_param:
  assumes "list_all2 (\<lambda>m m1. param_of RMDIR_SUB_RMDIR m1 = param_of RMDIR_SUB_RMDIR m) [rmdir_request 1 ''a''] infos'"
  obtains m1 where "infos' = [m1]" "mi_parentId m1 = 1" "mi_name m1 = ''a''"
  using assms by (auto simp: list_all2_Cons1 param_of_def rmdir_request_def)

theorem sub_request_served_witness:
  "\<exists>bytes reply answers s1. encode_params small_meta_env RMDIR_SUB_RMDIR [rmdir_request 1 ''a''] = Returns bytes
     \<and> cuckoo_meta_call_by_serialized_data small_meta_env 1 12 1 bytes bare_meta = Returns (Inr reply, s1)
     \<and> decode_response small_meta_env RMDIR_SUB_RMDIR reply [path_request []] bare_meta = Returns (Inr answers, bare_meta)
     \<and> map mi_errorCode answers = [SUCCESS]"
proof -
  let ?E = small_meta_env and ?infos = "[rmdir_request 1 ''a'']"
  have sub: "RMDIR_SUB_RMDIR \<in> set sub_services" by (simp add: sub_services_def)
  have fb: "me_fb ?E = byte_fb" by (simp add: small_meta_env_def)
  have "params_readable (me_fb ?E) RMDIR_SUB_RMDIR ?infos"
    unfolding fb by (simp add: params_readable_def stored_size_def param_messages_def byte_fb_def param_of_def rmdir_request_def char_of_def bit_0)
  then obtain bytes where bytes: "encode_params ?E RMDIR_SUB_RMDIR ?infos = Returns bytes"
    and served: "\<forall>behind s. \<exists>infos'. list_all2 (\<lambda>m m1. param_of RMDIR_SUB_RMDIR m1 = param_of RMDIR_SUB_RMDIR m) ?infos infos'
         \<and> answered ?E ?E RMDIR_SUB_RMDIR [path_request []] (cuckoo_meta_call_by_serialized_data ?E 1 12 1 (bytes @ behind) s)
             (dispatch ?E RMDIR_SUB_RMDIR [0..<1] (s\<lparr>m_infos := infos'\<rparr>))"
    using sub_request_served [OF sub _ _ small_peers, of ?infos 1 "[path_request []]"] by (auto simp: MetaServiceTypeEncode_def)
  obtain infos' where arrived: "list_all2 (\<lambda>m m1. param_of RMDIR_SUB_RMDIR m1 = param_of RMDIR_SUB_RMDIR m) ?infos infos'"
    and answered: "answered ?E ?E RMDIR_SUB_RMDIR [path_request []] (cuckoo_meta_call_by_serialized_data ?E 1 12 1 bytes bare_meta)
      (dispatch ?E RMDIR_SUB_RMDIR [0..<1] (bare_meta\<lparr>m_infos := infos'\<rparr>))"
    using served [rule_format, of "[]" bare_meta] by auto
  obtain m1 where m1: "infos' = [m1]" "mi_parentId m1 = 1" "mi_name m1 = ''a''" using arrived by (rule one_param)
  obtain d2 where "CuckooRmdirSubRmdirHandle ?E 0 (bare_meta\<lparr>m_infos := [m1]\<rparr>)
      = Returns (Inr (), set_code 0 SUCCESS (bare_meta\<lparr>m_infos := [m1], m_dirs := d2\<rparr>))" by (rule bare_rmdir_run [OF m1(2,3)])
  moreover have "m_infos (set_code 0 SUCCESS (bare_meta\<lparr>m_infos := [m1], m_dirs := d2\<rparr>)) = [m1\<lparr>mi_errorCode := SUCCESS\<rparr>]"
    by (simp add: set_code_def set_info_def)
  moreover have "responses_readable (me_fb ?E) RMDIR_SUB_RMDIR [m1\<lparr>mi_errorCode := SUCCESS\<rparr>]"
    unfolding fb by (simp add: responses_readable_def stored_size_def response_messages_def byte_fb_def response_of_def any_response_of_def)
  ultimately show ?thesis
    using bytes answered by (fastforce simp: answered_def dispatch_def m1(1) response_agrees_def list_all2_Cons1)
qed

end
