(* ===== verification/Spec2Isabelle.thy ===== *)
theory Spec2Isabelle
  imports Serialized_Data Shmem_Allocator Path_Order Shard_Table Cleanup_Protocol Meta_Files Meta_Service
begin

text \<open>
  \<^bold>\<open>The metadata server of cuckoofs.\<close> The program is a distributed file system. Its metadata lives in a
  cluster of PostgreSQL servers, each running the extension under \<^verbatim>\<open>cuckoo/\<close>: a coordinator (server 0) and
  workers. Every server has the whole directory table (parent inode and name to inode) behind a cache in
  shared memory, and the inode rows of those shards the shard table assigns to it. A request enters as a
  message in shared memory or as an argument of an SQL function, is decoded into a record, handled by
  \<^verbatim>\<open>meta_handle.c\<close>, and its response is encoded again. Handlers that concern several servers send requests
  to them in the same format; the transaction then ends on all servers with a two-phase commit, and a
  background process finishes what a crash left behind. This development models that server, from the
  message format to the commit protocol, and proves the properties its parts rely on.

  \<^bold>\<open>Theories and sources\<close> (paths below \<^verbatim>\<open>src/\<close>), in the order of their imports:
  \<^item> \<open>Cuckoo_Prelude\<close>: integer types, the outcome type \<open>run\<close> (\<open>Returns\<close>, \<open>Faults\<close> for an access outside an
    object, \<open>Loops\<close> for a loop that does not end), the state and error monad \<open>exec\<close>, collections of facts.
  \<^item> \<open>Error_Code\<close>: \<^verbatim>\<open>remote_connection_utils/error_code_def.h\<close>, \<^verbatim>\<open>error_log.h\<close>, \<^verbatim>\<open>utils/error_code.c\<close>; a code
    sent inside an error message is recovered by the receiver.
  \<^item> \<open>Serialized_Data\<close>: \<^verbatim>\<open>remote_connection_utils/serialized_data.h\<close>, the growable buffer of items. Items are
    appended and walked over exactly; beyond 2 GiB the doubling loop does not end.
  \<^item> \<open>Shmem_Allocator\<close>: \<^verbatim>\<open>utils/cuckoo_shmem_allocator.c\<close>. Malloc takes a free aligned block, free gives it
    back, and blocks in use never overlap in any interleaving of the atomic steps.
  \<^item> \<open>RW_Lock\<close>: \<^verbatim>\<open>utils/rwlock.c\<close>, sequentially and as a step relation of backends: mutual exclusion, and
    the reference count that guards eviction.
  \<^item> \<open>Path_Order\<close>: \<^verbatim>\<open>pathcmp\<close> of \<^verbatim>\<open>utils/utils_standalone.c\<close>, the order in which batches are processed.
  \<^item> \<open>Meta_Ids\<close>: inode numbers, part ids and the shard hash (\<^verbatim>\<open>meta_handle.c\<close>, \<^verbatim>\<open>utils/utils.c\<close>).
  \<^item> \<open>Foreign_Server\<close>: \<^verbatim>\<open>metadb/foreign_server.c\<close>, the catalog of servers, its shared copy, the connections.
  \<^item> \<open>Shard_Table\<close>: \<^verbatim>\<open>metadb/shard_table.c\<close>: building, updating, binary search, and the table sent to
    clients, which routes every key to the server the search finds.
  \<^item> \<open>Heap_Table\<close>: a table as one transaction sees it: visibility by command, unique keys, commit, abort.
  \<^item> \<open>Dir_Path_Hash\<close>: \<^verbatim>\<open>dir_path_shmem/dir_path_hash.c\<close> and \<^verbatim>\<open>metadb/directory_table.c\<close>. The cache with its
    locks, eviction and deferred updates implements a transactional directory.
  \<^item> \<open>Path_Parse\<close>: \<^verbatim>\<open>utils/path_parse.c\<close>. Parsing with the per-transaction tree equals following the table.
  \<^item> \<open>Remote_Comm\<close>: \<^verbatim>\<open>distributed_backend/remote_comm_cuckoo.c\<close>: command lists, pipelines, and the prepare,
    commit and abort phases, on a trace of what crosses the connections.
  \<^item> \<open>Transaction\<close>: \<^verbatim>\<open>transaction/transaction.c\<close>, \<^verbatim>\<open>control/control_flag.c\<close>, exit hooks of
    \<^verbatim>\<open>control/hook.c\<close>: one decision per transaction, and nothing left behind by its end.
  \<^item> \<open>Transaction_Cleanup\<close>, \<open>Cleanup_Protocol\<close>: \<^verbatim>\<open>transaction/transaction_cleanup.c\<close> as code, as a plan, and
    interleaved with coordinators, a participant and crashes: agreement and progress.
  \<^item> \<open>Meta_Message\<close>, \<open>Meta_State\<close>: the messages of \<^verbatim>\<open>remote_connection_def/fbs\<close>, the request record
    (\<^verbatim>\<open>meta_process_info.h\<close>), the inode rows (\<^verbatim>\<open>inode_table.h\<close>) and the state of a backend.
  \<^item> \<open>Meta_Codec\<close>: \<^verbatim>\<open>metadb/meta_serialize_interface_helper.cpp\<close>; what one server encodes, another one decodes.
  \<^item> \<open>Meta_Frame\<close>, \<open>Meta_Handle\<close>, \<open>Meta_Files\<close>: the handlers of \<^verbatim>\<open>metadb/meta_handle.c\<close> for files: create, stat,
    open, close and unlink on batches, and the changes of times, owner and mode. A batch created in
    subtransactions with rollback and retry equals creating its files one after the other, and the
    reports of create and unlink agree with the rows.
  \<^item> \<open>Meta_Dirs\<close>: the handlers for directories of the same file: mkdir, readdir, opendir, rmdir and rename on
    the coordinator, and what the coordinator has the other servers do. \<open>Meta_Example\<close> is a small server on
    which the theorems about handlers are instantiated.
  \<^item> \<open>Meta_Listing\<close>: reading a directory page by page returns every entry of it once.
  \<^item> \<open>Meta_Moves\<close>: only empty directories are removed; a file renamed within a server keeps its row, and
    one renamed to another server arrives there without etag, update version and backup node.
  \<^item> \<open>Meta_Service\<close>: \<^verbatim>\<open>metadb/meta_serialize_interface.c\<close>, \<^verbatim>\<open>metadb/meta_plain_interface.c\<close>: decoding,
    dispatch and encoding. A request from one server is carried out by the other on what was sent, and
    the answer comes back.

  \<^bold>\<open>How the state corresponds.\<close> A process-global or shared variable of the C code is a field of a record
  with its name; a function is a definition with its name that takes and returns the record; loops of a
  function are separate definitions named after it. \<^verbatim>\<open>ereport(ERROR)\<close> is the \<open>Inl\<close> of an \<open>exec\<close> result, with
  the error code as value, and the state at that point is kept since later code (\<^verbatim>\<open>PG_CATCH\<close>, the abort
  callback) sees it. Tables are association lists from keys to rows.

  \<^bold>\<open>Parameters.\<close> Code outside the repository is an argument of the definitions that use it, in the records
  \<open>dir_env\<close>, \<open>pq_env\<close>, \<open>pg_ops\<close>, \<open>meta_env\<close> and \<open>fb_env\<close>: hash functions, sequences, the clock, sorting, the
  enumeration order of hash tables, memory allocation, libpq with the servers behind it (every answer a
  function of all earlier calls), PostgreSQL's transaction commands, and the generated code for flat
  buffers. What a theorem needs of them is among its hypotheses, and its witness gives an instance.

  \<^bold>\<open>Bounds and termination.\<close> No definition uses fuel. A loop that may not end is a partial function or an
  explicit \<open>Loops\<close>; theorems about such loops state that they return. Machine integers have their width
  where wrapping matters; shard and server ids are \<open>int\<close>. Buffers are bounded by 2 GiB where a theorem says so.

  \<^bold>\<open>Not modelled.\<close> The client (\<^verbatim>\<open>cuckoo_client\<close>), the data store (\<^verbatim>\<open>cuckoo_store\<close>) and the cluster manager
  (\<^verbatim>\<open>cloud_native\<close>) are calls into FUSE, brpc, object storage, ZooKeeper and the file system with little logic
  of their own. The connection pool moves requests between brpc and libpq in threads of these libraries.
  Start-up registers settings and processes with PostgreSQL. \<^verbatim>\<open>cuckoo_meta_call_by_serialized_shmem_internal\<close>
  differs from the modelled SQL function in where the bytes lie; the allocator is modelled without the
  contents of its blocks. What other servers answer to the coordinator's commands is a parameter, so the
  mkdir, rmdir and rename of the coordinator are modelled but composed with the other side only by the
  theorem about the exchange of requests. Operations of several backends on the directory
  cache are interleaved only through its locks. Log messages have no text.
\<close>

end
